(* ===== verification/Prelude.thy ===== *)
theory Prelude
  imports Main "HOL-Library.Word"
begin

text \<open>
  Shared vocabulary of the development: the machine-integer widths of the Rust code, the
  outcome of code that may panic, association lists standing for the concurrent maps, and the
  generic list lemmas the components share.
\<close>

section \<open>Machine integers\<close>

type_synonym u8 = "8 word"
type_synonym u16 = "16 word"
type_synonym i32 = "32 word"
type_synonym i64 = "64 word"
type_synonym u64 = "64 word"
type_synonym u128 = "128 word"
type_synonym bytes = "u8 list"

text \<open>\<^verbatim>\<open>SocketAddr\<close>: the address as it prints, and the port.\<close>

record socket_addr =
  sa_ip :: string
  sa_port :: u16

section \<open>Lemma collections\<close>

named_theorems text_simps \<open>facts on splitting, joining, trimming and lowering of strings\<close>
named_theorems map_simps \<open>facts on association lists standing for concurrent maps\<close>
named_theorems byte_simps \<open>facts on big-endian bytes\<close>
named_theorems state_defs \<open>definitions of the operations of the state machines\<close>

section \<open>Panics\<close>

text \<open>
  A Rust function that may panic returns an outcome: \<open>Ret\<close> with its value, or \<open>Panic\<close>.
\<close>

datatype 'a outcome = Ret 'a | Panic

fun panics :: "'a outcome \<Rightarrow> bool" where
  "panics (Ret x) = False"
| "panics Panic = True"

fun bind_outcome :: "'a outcome \<Rightarrow> ('a \<Rightarrow> 'b outcome) \<Rightarrow> 'b outcome" where
  "bind_outcome (Ret x) f = f x"
| "bind_outcome Panic f = Panic"

lemma bind_outcome_Ret_iff:
  "bind_outcome m f = Ret y \<longleftrightarrow> (\<exists>x. m = Ret x \<and> f x = Ret y)"
  by (cases m) auto

lemma bind_outcome_Panic_iff:
  "bind_outcome m f = Panic \<longleftrightarrow> m = Panic \<or> (\<exists>x. m = Ret x \<and> f x = Panic)"
  by (cases m) auto

section \<open>Concurrent maps as association lists\<close>

text \<open>
  A concurrent map is an association list: the list order is the order in which an iteration
  meets the entries, which the code never relies on. A statement about every list is a
  statement about every iteration order.
\<close>

definition am_get :: "('k \<times> 'v) list \<Rightarrow> 'k \<Rightarrow> 'v option" where
  "am_get m k = map_of m k"

fun am_put :: "('k \<times> 'v) list \<Rightarrow> 'k \<Rightarrow> 'v \<Rightarrow> ('k \<times> 'v) list" where
  "am_put [] k v = [(k, v)]"
| "am_put ((k', v') # m) k v = (if k' = k then (k, v) # m else (k', v') # am_put m k v)"

definition am_del :: "('k \<times> 'v) list \<Rightarrow> 'k \<Rightarrow> ('k \<times> 'v) list" where
  "am_del m k = filter (\<lambda>(k', _). k' \<noteq> k) m"

definition am_keys :: "('k \<times> 'v) list \<Rightarrow> 'k list" where
  "am_keys m = map fst m"

definition am_ok :: "('k \<times> 'v) list \<Rightarrow> bool" where
  "am_ok m \<longleftrightarrow> distinct (map fst m)"

lemma am_get_Nil [simp, map_simps]: "am_get [] k = None"
  by (simp add: am_get_def)

lemma am_get_Cons: "am_get ((k', v) # m) k = (if k' = k then Some v else am_get m k)"
  by (simp add: am_get_def)

lemma am_get_put [simp, map_simps]:
  "am_get (am_put m k v) k' = (if k' = k then Some v else am_get m k')"
  by (induction m k v rule: am_put.induct) (auto simp: am_get_def)

lemma am_get_del [simp, map_simps]:
  "am_get (am_del m k) k' = (if k' = k then None else am_get m k')"
  by (induction m) (auto simp: am_get_def am_del_def)

lemma fst_set_am_put [simp]: "fst ` set (am_put m k v) = insert k (fst ` set m)"
  by (induction m k v rule: am_put.induct) auto

lemma am_ok_put [simp, map_simps]: "am_ok m \<Longrightarrow> am_ok (am_put m k v)"
proof (induction m k v rule: am_put.induct)
  case (2 k' v' m k v)
  then show ?case
    by (auto simp: am_ok_def)
qed (simp add: am_ok_def)

lemma am_ok_del [simp, map_simps]: "am_ok m \<Longrightarrow> am_ok (am_del m k)"
  by (induction m) (auto simp: am_ok_def am_del_def)

lemma am_ok_Nil [simp]: "am_ok []"
  by (simp add: am_ok_def)

lemma am_keys_put: "set (am_keys (am_put m k v)) = insert k (set (am_keys m))"
  by (simp add: am_keys_def)

lemma am_keys_del: "set (am_keys (am_del m k)) = set (am_keys m) - {k}"
  by (auto simp: am_keys_def am_del_def)

lemma am_get_None_iff: "am_get m k = None \<longleftrightarrow> k \<notin> set (am_keys m)"
  by (simp add: am_get_def am_keys_def map_of_eq_None_iff)

lemma am_get_in_set: "am_get m k = Some v \<Longrightarrow> (k, v) \<in> set m"
  by (simp add: am_get_def map_of_SomeD)

lemma am_get_iff_in_set: "am_ok m \<Longrightarrow> am_get m k = Some v \<longleftrightarrow> (k, v) \<in> set m"
  by (simp add: am_get_def am_ok_def)

lemma am_get_map_snd [map_simps]:
  "am_get (map (\<lambda>(k, v). (k, f v)) m) k = map_option f (am_get m k)"
  by (induction m) (auto simp: am_get_def)

lemma am_ok_map_snd [simp]: "am_ok (map (\<lambda>(k, v). (k, f v)) m) = am_ok m"
  by (simp add: am_ok_def comp_def case_prod_unfold)

lemma am_ok_filter [simp]: "am_ok m \<Longrightarrow> am_ok (filter P m)"
  by (simp add: am_ok_def distinct_map_filter)

text \<open>The map interface the components rely on, and the lists as its provider.\<close>

locale concurrent_map =
  fixes get :: "'m \<Rightarrow> 'k \<Rightarrow> 'v option"
    and put :: "'m \<Rightarrow> 'k \<Rightarrow> 'v \<Rightarrow> 'm"
    and del :: "'m \<Rightarrow> 'k \<Rightarrow> 'm"
    and emp :: "'m"
    and ok :: "'m \<Rightarrow> bool"
  assumes get_emp: "get emp k = None"
    and get_put: "ok m \<Longrightarrow> get (put m k v) k' = (if k' = k then Some v else get m k')"
    and get_del: "ok m \<Longrightarrow> get (del m k) k' = (if k' = k then None else get m k')"
    and ok_emp: "ok emp"
    and ok_put: "ok m \<Longrightarrow> ok (put m k v)"
    and ok_del: "ok m \<Longrightarrow> ok (del m k)"
begin

lemma get_put_same: "ok m \<Longrightarrow> get (put m k v) k = Some v"
  by (simp add: get_put)

lemma get_put_other: "ok m \<Longrightarrow> k' \<noteq> k \<Longrightarrow> get (put m k v) k' = get m k'"
  by (simp add: get_put)

lemma get_del_put: "ok m \<Longrightarrow> get (del (put m k v) k) k' = get (del m k) k'"
  by (simp add: get_put get_del ok_put)

lemma ok_fold_del: "ok m \<Longrightarrow> ok (fold (\<lambda>k m. del m k) ks m)"
  by (induction ks arbitrary: m) (simp_all add: ok_del)

lemma get_fold_del:
  "ok m \<Longrightarrow> get (fold (\<lambda>k m. del m k) ks m) k = (if k \<in> set ks then None else get m k)"
proof (induction ks arbitrary: m)
  case (Cons a ks)
  then show ?case by (simp add: get_del ok_del)
qed simp

end

interpretation am: concurrent_map am_get am_put am_del "[]" am_ok
  by unfold_locales simp_all

section \<open>Lists\<close>

lemma takeWhile_dropWhile_split:
  "takeWhile P xs = ys \<Longrightarrow> dropWhile P xs = zs \<Longrightarrow> xs = ys @ zs"
  by auto

lemma set_takeWhile_all: "\<forall>x \<in> set (takeWhile P xs). P x"
  by (induction xs) auto

end
