(* ===== verification/Rust_Text.thy ===== *)
theory Rust_Text
  imports Prelude
begin

text \<open>
  The part of Rust's standard text and number parsing the router uses. A Rust \<^verbatim>\<open>String\<close> is the list
  of its UTF-8 bytes, each byte a HOL \<open>char\<close>: \<^verbatim>\<open>len()\<close> is \<open>length\<close>, slicing and splitting at an
  ASCII separator work on the bytes, and \<^verbatim>\<open>chars()\<close> groups the bytes of each scalar value.
\<close>

section \<open>Splitting and joining\<close>

text \<open>\<^verbatim>\<open>str::split(char)\<close>: always at least one piece.\<close>

fun split_on :: "char \<Rightarrow> string \<Rightarrow> string list" where
  "split_on c [] = [[]]"
| "split_on c (x # xs) =
     (if x = c then [] # split_on c xs
      else (case split_on c xs of [] \<Rightarrow> [[x]] | y # ys \<Rightarrow> (x # y) # ys))"

text \<open>\<^verbatim>\<open>[String]::join(sep)\<close>.\<close>

fun join :: "string \<Rightarrow> string list \<Rightarrow> string" where
  "join sep [] = []"
| "join sep [x] = x"
| "join sep (x # y # zs) = x @ sep @ join sep (y # zs)"

lemma split_on_nonempty [simp]: "split_on c s \<noteq> []"
  by (induction s) (auto split: list.splits)

lemma split_on_cases:
  obtains p ps where "split_on c s = p # ps"
  by (metis split_on_nonempty list.exhaust)

lemma split_on_none [text_simps]: "c \<notin> set s \<Longrightarrow> split_on c s = [s]"
  by (induction s) auto

lemma split_on_append [text_simps]:
  "c \<notin> set s \<Longrightarrow> split_on c (s @ c # t) = s # split_on c t"
  by (induction s) auto

lemma split_on_pieces: "p \<in> set (split_on c s) \<Longrightarrow> c \<notin> set p"
proof (induction s arbitrary: p)
  case (Cons x xs)
  then show ?case
    by (cases rule: split_on_cases [of c xs]) (auto split: if_splits)
qed simp

lemma split_on_piece_subset: "p \<in> set (split_on c s) \<Longrightarrow> set p \<subseteq> set s"
proof (induction s arbitrary: p)
  case (Cons x xs)
  then show ?case
    by (cases rule: split_on_cases [of c xs]) (force split: if_splits)
qed simp

lemma join_Cons_ne: "ys \<noteq> [] \<Longrightarrow> join sep (x # ys) = x @ sep @ join sep ys"
  by (cases ys) auto

lemma split_on_short: "length (split_on c s) < 2 \<longleftrightarrow> c \<notin> set s"
proof (induction s)
  case (Cons x xs)
  then show ?case by (cases "split_on c xs") auto
qed simp

lemma join_snoc: "join sep (xs @ [y]) = join sep xs @ (if xs = [] then [] else sep) @ y"
  by (induction sep xs rule: join.induct) (auto simp: join_Cons_ne)

lemma join_split_on [text_simps]: "join [c] (split_on c s) = s"
proof (induction s)
  case (Cons x xs)
  show ?case
  proof (cases "split_on c xs" rule: list.exhaust)
    case Nil
    then show ?thesis by simp
  next
    case (Cons y ys)
    with Cons.IH show ?thesis by (cases ys) auto
  qed
qed simp

lemma split_on_join [text_simps]:
  "xs \<noteq> [] \<Longrightarrow> \<forall>x \<in> set xs. c \<notin> set x \<Longrightarrow> split_on c (join [c] xs) = xs"
  by (induction "[c]" xs rule: join.induct) (auto simp: split_on_none split_on_append)

lemma hd_split_on: "hd (split_on c s) = takeWhile (\<lambda>x. x \<noteq> c) s"
proof (induction s)
  case (Cons x xs)
  then show ?case by (cases "split_on c xs") auto
qed simp

section \<open>Scalar values\<close>

definition code :: "char \<Rightarrow> nat" where
  "code c = of_char c"

lemma code_lt [simp]: "code c < 256"
  unfolding code_def by (rule nat_of_char_less_256)

lemma code_inj: "code c = code d \<longleftrightarrow> c = d"
  by (simp add: code_def)

definition utf8_width :: "char \<Rightarrow> nat" where
  "utf8_width c = (if code c < 128 then 1 else if code c < 224 then 2
                   else if code c < 240 then 3 else 4)"

text \<open>\<^verbatim>\<open>str::chars()\<close>: the bytes of each scalar value, by the length its first byte announces.\<close>

function chars :: "string \<Rightarrow> string list" where
  "chars [] = []"
| "chars (c # cs) =
     (c # take (utf8_width c - 1) cs) # chars (drop (utf8_width c - 1) cs)"
  by pat_completeness auto
termination
  by (relation "measure length") auto

lemma concat_chars [simp, text_simps]: "concat (chars s) = s"
  by (induction s rule: chars.induct) auto

definition is_ascii :: "char \<Rightarrow> bool" where
  "is_ascii c \<longleftrightarrow> code c < 128"

lemma chars_ascii [text_simps]: "list_all is_ascii s \<Longrightarrow> chars s = map (\<lambda>c. [c]) s"
  by (induction s) (auto simp: is_ascii_def utf8_width_def)

text \<open>The well-formed byte sequences of one scalar value (no overlong forms, no surrogates).\<close>

definition cont_byte :: "nat \<Rightarrow> bool" where
  "cont_byte n \<longleftrightarrow> 128 \<le> n \<and> n < 192"

fun utf8_seq :: "nat list \<Rightarrow> bool" where
  "utf8_seq [a] = (a < 128)"
| "utf8_seq [a, b] = (194 \<le> a \<and> a \<le> 223 \<and> cont_byte b)"
| "utf8_seq [a, b, c] =
     (((a = 224 \<and> 160 \<le> b \<and> b \<le> 191) \<or>
       ((225 \<le> a \<and> a \<le> 236 \<or> a = 238 \<or> a = 239) \<and> cont_byte b) \<or>
       (a = 237 \<and> 128 \<le> b \<and> b \<le> 159)) \<and> cont_byte c)"
| "utf8_seq [a, b, c, d] =
     (((a = 240 \<and> 144 \<le> b \<and> b \<le> 191) \<or> (241 \<le> a \<and> a \<le> 243 \<and> cont_byte b) \<or>
       (a = 244 \<and> 128 \<le> b \<and> b \<le> 143)) \<and> cont_byte c \<and> cont_byte d)"
| "utf8_seq _ = False"

definition scalar :: "string \<Rightarrow> bool" where
  "scalar g \<longleftrightarrow> utf8_seq (map code g)"

definition utf8_valid :: "string \<Rightarrow> bool" where
  "utf8_valid s \<longleftrightarrow> list_all scalar (chars s)"

lemma scalar_shape:
  assumes "scalar g"
  obtains c cs where "g = c # cs" and "length cs = utf8_width c - 1"
proof (cases g)
  case Nil
  with assms show ?thesis by (simp add: scalar_def)
next
  case (Cons c cs)
  have "length cs = utf8_width c - 1"
    using assms unfolding Cons scalar_def utf8_width_def
    by (cases "map code (c # cs)" rule: utf8_seq.cases) auto
  with Cons that show ?thesis by blast
qed

lemma scalar_length: "scalar g \<Longrightarrow> 1 \<le> length g \<and> length g \<le> 4"
  by (erule scalar_shape) (auto simp: utf8_width_def split: if_splits)

lemma chars_concat [text_simps]: "list_all scalar gs \<Longrightarrow> chars (concat gs) = gs"
proof (induction gs)
  case (Cons g gs)
  then obtain c cs where "g = c # cs" "length cs = utf8_width c - 1"
    by (auto elim: scalar_shape)
  with Cons show ?case by simp
qed simp

lemma utf8_valid_concat: "list_all scalar gs \<Longrightarrow> utf8_valid (concat gs)"
  by (simp add: utf8_valid_def chars_concat)

lemma utf8_valid_ascii: "list_all is_ascii s \<Longrightarrow> utf8_valid s"
  by (simp add: utf8_valid_def chars_ascii list_all_iff scalar_def is_ascii_def)

section \<open>Trimming, letter case, replacing\<close>

text \<open>Unicode \<^verbatim>\<open>White_Space\<close>, by the bytes of each scalar value.\<close>

definition whitespace :: "string list" where
  "whitespace =
     [[CHR 0x09], [CHR 0x0A], [CHR 0x0B], [CHR 0x0C], [CHR 0x0D], [CHR 0x20],
      [CHR 0xC2, CHR 0x85], [CHR 0xC2, CHR 0xA0], [CHR 0xE1, CHR 0x9A, CHR 0x80],
      [CHR 0xE2, CHR 0x80, CHR 0x80], [CHR 0xE2, CHR 0x80, CHR 0x81],
      [CHR 0xE2, CHR 0x80, CHR 0x82], [CHR 0xE2, CHR 0x80, CHR 0x83],
      [CHR 0xE2, CHR 0x80, CHR 0x84], [CHR 0xE2, CHR 0x80, CHR 0x85],
      [CHR 0xE2, CHR 0x80, CHR 0x86], [CHR 0xE2, CHR 0x80, CHR 0x87],
      [CHR 0xE2, CHR 0x80, CHR 0x88], [CHR 0xE2, CHR 0x80, CHR 0x89],
      [CHR 0xE2, CHR 0x80, CHR 0x8A], [CHR 0xE2, CHR 0x80, CHR 0xA8],
      [CHR 0xE2, CHR 0x80, CHR 0xA9], [CHR 0xE2, CHR 0x80, CHR 0xAF],
      [CHR 0xE2, CHR 0x81, CHR 0x9F], [CHR 0xE3, CHR 0x80, CHR 0x80]]"

definition is_whitespace :: "string \<Rightarrow> bool" where
  "is_whitespace g \<longleftrightarrow> g \<in> set whitespace"

text \<open>\<^verbatim>\<open>str::trim()\<close>.\<close>

definition trim :: "string \<Rightarrow> string" where
  "trim s = concat (rev (dropWhile is_whitespace
                          (rev (dropWhile is_whitespace (chars s)))))"

definition ascii_ws :: "char \<Rightarrow> bool" where
  "ascii_ws c \<longleftrightarrow> c \<in> {CHR 0x09, CHR 0x0A, CHR 0x0B, CHR 0x0C, CHR 0x0D, CHR 0x20}"

lemma is_whitespace_single: "is_whitespace [c] \<longleftrightarrow> ascii_ws c"
  by (simp add: is_whitespace_def whitespace_def ascii_ws_def)

lemma dropWhile_singletons:
  "dropWhile is_whitespace (map (\<lambda>c. [c]) s) = map (\<lambda>c. [c]) (dropWhile ascii_ws s)"
  by (induction s) (auto simp: is_whitespace_single)

lemma trim_ascii [text_simps]:
  assumes "list_all is_ascii s"
  shows "trim s = rev (dropWhile ascii_ws (rev (dropWhile ascii_ws s)))"
proof -
  have "concat (map (\<lambda>c. [c]) t) = t" for t :: string
    by (induction t) auto
  then show ?thesis
    using assms by (simp add: trim_def chars_ascii dropWhile_singletons rev_map)
qed

lemma dropWhile_hd_not: "xs = [] \<or> \<not> P (hd xs) \<Longrightarrow> dropWhile P xs = xs"
  by (cases xs) auto

lemma trim_id [text_simps]:
  "list_all is_ascii s \<Longrightarrow> s = [] \<or> (\<not> ascii_ws (hd s) \<and> \<not> ascii_ws (last s)) \<Longrightarrow> trim s = s"
  by (auto simp: trim_ascii dropWhile_hd_not hd_rev)

definition lower :: "char \<Rightarrow> char" where
  "lower c = (if 65 \<le> code c \<and> code c \<le> 90 then char_of (code c + 32) else c)"

text \<open>\<^verbatim>\<open>to_ascii_lowercase\<close>; it is also what \<^verbatim>\<open>to_lowercase\<close> does on ASCII text.\<close>

definition to_lowercase :: "string \<Rightarrow> string" where
  "to_lowercase s = map lower s"

definition eq_ignore_ascii_case :: "string \<Rightarrow> string \<Rightarrow> bool" where
  "eq_ignore_ascii_case a b \<longleftrightarrow> to_lowercase a = to_lowercase b"

lemma code_lower: "code (lower c) = (if 65 \<le> code c \<and> code c \<le> 90 then code c + 32 else code c)"
  by (auto simp: lower_def code_def)

lemma lower_lower [simp]: "lower (lower c) = lower c"
  by (simp add: code_inj [symmetric] code_lower)

lemma to_lowercase_idem [simp]: "to_lowercase (to_lowercase s) = to_lowercase s"
  by (simp add: to_lowercase_def comp_def)

text \<open>\<^verbatim>\<open>str::replace(&str, &str)\<close> for a pattern that is not empty.\<close>

function replace_str :: "string \<Rightarrow> string \<Rightarrow> string \<Rightarrow> string" where
  "replace_str pat rep [] = []"
| "replace_str pat rep (c # cs) =
     (if pat \<noteq> [] \<and> take (length pat) (c # cs) = pat
      then rep @ replace_str pat rep (drop (length pat) (c # cs))
      else c # replace_str pat rep cs)"
  by pat_completeness auto
termination
  by (relation "measure (\<lambda>(pat, rep, s). length s)") auto

text \<open>\<^verbatim>\<open>str::replace(char, &str)\<close>.\<close>

definition replace_char :: "char \<Rightarrow> string \<Rightarrow> string \<Rightarrow> string" where
  "replace_char c rep s = concat (map (\<lambda>x. if x = c then rep else [x]) s)"

section \<open>Numbers\<close>

definition is_digit :: "char \<Rightarrow> bool" where
  "is_digit c \<longleftrightarrow> 48 \<le> code c \<and> code c \<le> 57"

fun parse_digits :: "nat \<Rightarrow> string \<Rightarrow> nat option" where
  "parse_digits acc [] = Some acc"
| "parse_digits acc (c # cs) =
     (if is_digit c then parse_digits (10 * acc + (code c - 48)) cs else None)"

text \<open>\<^verbatim>\<open>u16::from_str\<close>: an optional plus sign, at least one digit, no overflow.\<close>

definition u16_from_str :: "string \<Rightarrow> nat option" where
  "u16_from_str s =
     (let ds = (case s of [] \<Rightarrow> [] | c # cs \<Rightarrow> if c = CHR ''+'' then cs else s)
      in if ds = [] then None
         else (case parse_digits 0 ds of None \<Rightarrow> None
               | Some n \<Rightarrow> if n < 65536 then Some n else None))"

text \<open>\<^verbatim>\<open>i64::from_str\<close>.\<close>

definition i64_from_str :: "string \<Rightarrow> int option" where
  "i64_from_str s =
     (let neg = (s \<noteq> [] \<and> hd s = CHR ''-'');
          ds = (if s \<noteq> [] \<and> (hd s = CHR ''+'' \<or> hd s = CHR ''-'') then tl s else s)
      in if ds = [] then None
         else (case parse_digits 0 ds of None \<Rightarrow> None
               | Some n \<Rightarrow>
                   let v = (if neg then - int n else int n)
                   in if - (2 ^ 63) \<le> v \<and> v < 2 ^ 63 then Some v else None))"

text \<open>Decimal output, as \<^verbatim>\<open>format!("{}")\<close> prints integers.\<close>

fun show_nat :: "nat \<Rightarrow> string" where
  "show_nat n = (if n < 10 then [char_of (48 + n)]
                 else show_nat (n div 10) @ [char_of (48 + n mod 10)])"

declare show_nat.simps [simp del]

definition show_int :: "int \<Rightarrow> string" where
  "show_int i = (if i < 0 then ''-'' @ show_nat (nat (- i)) else show_nat (nat i))"

lemma is_digit_show: "c \<in> set (show_nat n) \<Longrightarrow> is_digit c"
proof (induction n rule: show_nat.induct)
  case (1 n)
  then show ?case
    by (cases "n < 10")
       (auto simp: show_nat.simps [of n] is_digit_def code_def of_char_of)
qed

lemma show_nat_nonempty [simp]: "show_nat n \<noteq> []"
  by (subst show_nat.simps) simp

lemma parse_digits_append:
  "parse_digits acc (s @ t) =
     (case parse_digits acc s of None \<Rightarrow> None | Some n \<Rightarrow> parse_digits n t)"
  by (induction acc s rule: parse_digits.induct) auto

lemma parse_show_nat: "parse_digits 0 (show_nat n) = Some n"
proof (induction n rule: show_nat.induct)
  case (1 n)
  show ?case
  proof (cases "n < 10")
    case True
    then show ?thesis
      by (simp add: show_nat.simps [of n] is_digit_def code_def of_char_of)
  next
    case False
    with 1 show ?thesis
      by (simp add: show_nat.simps [of n] parse_digits_append is_digit_def code_def of_char_of)
  qed
qed

lemma u16_from_show: "n < 65536 \<Longrightarrow> u16_from_str (show_nat n) = Some n"
proof -
  assume n: "n < 65536"
  obtain c cs where s: "show_nat n = c # cs"
    by (meson show_nat_nonempty list.exhaust)
  then have "is_digit c" using is_digit_show [of c n] by simp
  then have "c \<noteq> CHR ''+''" by (auto simp: is_digit_def code_def)
  with s n parse_show_nat [of n] show ?thesis
    by (simp add: u16_from_str_def)
qed

end
