(* ===== verification/Exceptions.thy ===== *)
theory Exceptions
  imports Rust_Text
begin

text \<open>
  \<^verbatim>\<open>src/src/exceptions.rs\<close>: the error value every fallible operation of the router returns, the
  ways errors are extended and combined, and the HTTP response an error becomes.
\<close>

datatype crex_kind =
    Timeout_0001
  | NoRouterSocketAvailable_0002
  | CrankerProtocolVersionNotFound_0003
  | CrankerProtocolVersionNotSupported_0004
  | CrankerProtocolEndMarkerMissing_0005
  | CrankerProtocolZeroLengthHeaderLine_0006
  | CrankerProtocolHttpStatusCodeMissing_0007
  | ForwardedHeaderParserError_0008
  | ProxyListenerError_0009
  | ClientRequestBodyReadError_0010
  | BrokenConnection_0011

record crex =
  reason :: string
  opt_status_code :: "nat option"
  opt_err_kind :: "crex_kind option"

type_synonym 'a res = "crex + 'a"

definition crex_new :: "string \<Rightarrow> crex" where
  "crex_new r = \<lparr>reason = r, opt_status_code = None, opt_err_kind = None\<rparr>"

definition with_status_code :: "crex \<Rightarrow> nat \<Rightarrow> crex" where
  "with_status_code e status =
     \<lparr>reason = reason e, opt_status_code = Some status, opt_err_kind = opt_err_kind e\<rparr>"

definition with_err_kind :: "crex \<Rightarrow> crex_kind \<Rightarrow> crex" where
  "with_err_kind e kind =
     \<lparr>reason = reason e, opt_status_code = opt_status_code e, opt_err_kind = Some kind\<rparr>"

text \<open>\<^verbatim>\<open>Option::or\<close>.\<close>

fun opt_or :: "'a option \<Rightarrow> 'a option \<Rightarrow> 'a option" where
  "opt_or (Some x) y = Some x"
| "opt_or None y = y"

definition crex_plus :: "crex \<Rightarrow> crex \<Rightarrow> crex" where
  "crex_plus e another =
     \<lparr>reason = reason e @ reason another,
      opt_status_code = opt_or (opt_status_code e) (opt_status_code another),
      opt_err_kind = opt_or (opt_err_kind e) (opt_err_kind another)\<rparr>"

definition append_string :: "crex \<Rightarrow> string \<Rightarrow> crex" where
  "append_string e further = e\<lparr>reason := reason e @ further\<rparr>"

definition append_str :: "crex \<Rightarrow> string \<Rightarrow> crex" where
  "append_str e further = e\<lparr>reason := reason e @ further\<rparr>"

definition plus_str :: "crex \<Rightarrow> string \<Rightarrow> crex" where
  "plus_str e further = append_str e further"

definition plus_string :: "crex \<Rightarrow> string \<Rightarrow> crex" where
  "plus_string e further = append_string e further"

definition prepend_str :: "crex \<Rightarrow> string \<Rightarrow> crex" where
  "prepend_str e prior = e\<lparr>reason := prior @ '' '' @ reason e\<rparr>"

definition prepend_string :: "crex \<Rightarrow> string \<Rightarrow> crex" where
  "prepend_string e prior = e\<lparr>reason := prior @ '' '' @ reason e\<rparr>"

text \<open>\<^verbatim>\<open>impl Display\<close>.\<close>

definition crex_display :: "crex \<Rightarrow> string" where
  "crex_display e = ''Cranker router exception: '' @ reason e"

text \<open>The derived \<^verbatim>\<open>Debug\<close> of a kind prints its constructor.\<close>

fun debug_kind :: "crex_kind \<Rightarrow> string" where
  "debug_kind Timeout_0001 = ''Timeout_0001''"
| "debug_kind NoRouterSocketAvailable_0002 = ''NoRouterSocketAvailable_0002''"
| "debug_kind CrankerProtocolVersionNotFound_0003 = ''CrankerProtocolVersionNotFound_0003''"
| "debug_kind CrankerProtocolVersionNotSupported_0004 = ''CrankerProtocolVersionNotSupported_0004''"
| "debug_kind CrankerProtocolEndMarkerMissing_0005 = ''CrankerProtocolEndMarkerMissing_0005''"
| "debug_kind CrankerProtocolZeroLengthHeaderLine_0006 = ''CrankerProtocolZeroLengthHeaderLine_0006''"
| "debug_kind CrankerProtocolHttpStatusCodeMissing_0007 = ''CrankerProtocolHttpStatusCodeMissing_0007''"
| "debug_kind ForwardedHeaderParserError_0008 = ''ForwardedHeaderParserError_0008''"
| "debug_kind ProxyListenerError_0009 = ''ProxyListenerError_0009''"
| "debug_kind ClientRequestBodyReadError_0010 = ''ClientRequestBodyReadError_0010''"
| "debug_kind BrokenConnection_0011 = ''BrokenConnection_0011''"

text \<open>
  \<^verbatim>\<open>impl IntoResponse\<close>. The response builder belongs to the HTTP library: \<open>valid_status\<close> stands for
  the status codes it accepts, and a refused one makes the final \<^verbatim>\<open>unwrap\<close> panic. The fresh error
  id is an argument.
\<close>

record error_response =
  er_status :: nat
  er_headers :: "(string \<times> string) list"
  er_body :: string

definition response_status :: "crex \<Rightarrow> nat" where
  "response_status e =
     (let default_status = (case opt_err_kind e of Some Timeout_0001 \<Rightarrow> 504 | _ \<Rightarrow> 500)
      in case opt_status_code e of Some s \<Rightarrow> s | None \<Rightarrow> default_status)"

definition into_response :: "(nat \<Rightarrow> bool) \<Rightarrow> string \<Rightarrow> crex \<Rightarrow> error_response outcome" where
  "into_response valid_status err_id e =
     (let body = reason e;
          body = (case opt_err_kind e of None \<Rightarrow> body
                  | Some k \<Rightarrow> body @ '' (error kind = '' @ debug_kind k @ '')'');
          body = body @ '' (error id = '' @ err_id @ '')'';
          status_code = response_status e
      in if valid_status status_code
         then Ret \<lparr>er_status = status_code, er_headers = [(''connection'', ''close'')],
                   er_body = body\<rparr>
         else Panic)"

text \<open>Collecting the errors of a sequence of attempts into one.\<close>

definition compose_ex :: "crex option \<Rightarrow> 'a res \<Rightarrow> crex option" where
  "compose_ex opt_total this_may_err =
     (case this_may_err of
        Inl ex \<Rightarrow> Some (case opt_total of None \<Rightarrow> ex | Some t \<Rightarrow> crex_plus t ex)
      | Inr _ \<Rightarrow> opt_total)"

section \<open>Lemmas\<close>

lemma with_status_code_simps [simp]:
  "reason (with_status_code e s) = reason e"
  "opt_status_code (with_status_code e s) = Some s"
  "opt_err_kind (with_status_code e s) = opt_err_kind e"
  by (simp_all add: with_status_code_def)

lemma with_err_kind_simps [simp]:
  "reason (with_err_kind e k) = reason e"
  "opt_status_code (with_err_kind e k) = opt_status_code e"
  "opt_err_kind (with_err_kind e k) = Some k"
  by (simp_all add: with_err_kind_def)

lemma crex_new_simps [simp]:
  "reason (crex_new r) = r" "opt_status_code (crex_new r) = None" "opt_err_kind (crex_new r) = None"
  by (simp_all add: crex_new_def)

lemma extend_reason_simps [simp]:
  "opt_status_code (append_str e s) = opt_status_code e"
  "opt_err_kind (append_str e s) = opt_err_kind e"
  "opt_status_code (prepend_str e s) = opt_status_code e"
  "opt_err_kind (prepend_str e s) = opt_err_kind e"
  "reason (append_str e s) = reason e @ s"
  "reason (prepend_str e s) = s @ '' '' @ reason e"
  by (simp_all add: append_str_def prepend_str_def)

lemma opt_or_assoc [simp]: "opt_or (opt_or a b) c = opt_or a (opt_or b c)"
  by (cases a) auto

lemma opt_or_None [simp]: "opt_or a None = a"
  by (cases a) auto

lemma crex_plus_assoc: "crex_plus (crex_plus a b) c = crex_plus a (crex_plus b c)"
  by (simp add: crex_plus_def)

text \<open>The first value some element of a list has.\<close>

fun first_some :: "('b \<Rightarrow> 'a option) \<Rightarrow> 'b list \<Rightarrow> 'a option" where
  "first_some f [] = None"
| "first_some f (e # es) = opt_or (f e) (first_some f es)"

definition errors_of :: "'a res list \<Rightarrow> crex list" where
  "errors_of rs = concat (map (\<lambda>r. case r of Inl e \<Rightarrow> [e] | Inr _ \<Rightarrow> []) rs)"

definition summarise :: "crex list \<Rightarrow> crex" where
  "summarise es = \<lparr>reason = concat (map reason es),
                   opt_status_code = first_some opt_status_code es,
                   opt_err_kind = first_some opt_err_kind es\<rparr>"

lemma summarise_single: "summarise [e] = e"
  by (simp add: summarise_def)

lemma first_some_snoc: "first_some f (es @ [e]) = opt_or (first_some f es) (f e)"
  by (induction es) auto

lemma summarise_snoc: "crex_plus (summarise es) e = summarise (es @ [e])"
  by (simp add: summarise_def crex_plus_def first_some_snoc)

lemma foldl_compose_ex:
  "foldl compose_ex (if es = [] then None else Some (summarise es)) rs =
     (if es @ errors_of rs = [] then None else Some (summarise (es @ errors_of rs)))"
proof (induction rs arbitrary: es)
  case Nil
  then show ?case by (simp add: errors_of_def)
next
  case (Cons r rs)
  show ?case
  proof (cases r)
    case (Inl e)
    then have "compose_ex (if es = [] then None else Some (summarise es)) r =
        (if es @ [e] = [] then None else Some (summarise (es @ [e])))"
      by (auto simp: compose_ex_def summarise_single summarise_snoc)
    then show ?thesis
      using Cons.IH [of "es @ [e]"] Inl by (simp add: errors_of_def)
  next
    case (Inr x)
    then have "compose_ex (if es = [] then None else Some (summarise es)) r =
        (if es = [] then None else Some (summarise es))"
      by (simp add: compose_ex_def)
    then show ?thesis
      using Cons.IH [of es] Inr by (simp add: errors_of_def)
  qed
qed

section \<open>Properties\<close>

text \<open>
  Collecting a sequence of results with \<^verbatim>\<open>compose_ex\<close>, starting from no error, loses no
  error: the total is empty exactly when every attempt succeeded, and otherwise its reason is the
  concatenation of all reasons in order, its status code the first status code any of them has and
  its kind the first kind.
\<close>

lemma compose_ex_collects:
  "foldl compose_ex None rs =
     (if errors_of rs = [] then None else Some (summarise (errors_of rs)))"
  using foldl_compose_ex [of "[]" rs] by simp

text \<open>
  An error becomes a response exactly when the HTTP library accepts its status, and then
  the status is the error's own, or 504 for a timeout without one and 500 for any other error, the
  connection is closed, and the reason starts the body.
\<close>

lemma into_response_status:
  "into_response valid err_id e =
     (let status = (if opt_status_code e \<noteq> None then the (opt_status_code e)
                    else if opt_err_kind e = Some Timeout_0001 then 504 else 500)
      in if valid status
         then Ret \<lparr>er_status = status, er_headers = [(''connection'', ''close'')],
                   er_body = reason e @
                     (if opt_err_kind e = None then []
                      else '' (error kind = '' @ debug_kind (the (opt_err_kind e)) @ '')'') @
                     '' (error id = '' @ err_id @ '')''\<rparr>
         else Panic)"
  by (cases "opt_err_kind e"; cases "opt_status_code e")
     (auto simp: into_response_def response_status_def Let_def split: crex_kind.splits)

end
