(* ===== verification/Route_Resolver.thy ===== *)
theory Route_Resolver
  imports Rust_Text
begin

text \<open>
  \<^verbatim>\<open>src/src/route_resolver.rs\<close>: choosing the registered route for a request path, by the first
  segment or by the longest registered prefix. A resolver is a user-replaceable trait object; the
  locale states what the farm relies on.
\<close>

section \<open>The resolvers\<close>

definition catch_all :: string where
  "catch_all = ''*''"

text \<open>The default method of the trait: an exact match of the first segment.\<close>

definition default_resolve :: "string set \<Rightarrow> string \<Rightarrow> string" where
  "default_resolve routes target =
     (let split = split_on CHR ''/'' target
      in if length split \<ge> 2 \<and> split ! 1 \<in> routes then split ! 1 else catch_all)"

text \<open>
  \<^verbatim>\<open>last_index_of\<close>: the loop runs over the reversed characters with their position; \<open>len\<close> is the
  length of the whole vector and \<open>pos\<close> the position reached.
\<close>

fun last_index_loop :: "nat \<Rightarrow> char \<Rightarrow> nat \<Rightarrow> char list \<Rightarrow> int" where
  "last_index_loop len pat pos [] = -1"
| "last_index_loop len pat pos (ele # rest) =
     (if ele = pat then int (len - pos - 1) else last_index_loop len pat (Suc pos) rest)"

definition last_index_of :: "char list \<Rightarrow> char \<Rightarrow> int" where
  "last_index_of str pat = last_index_loop (length str) pat 0 (rev str)"

lemma last_index_loop_bounds:
  "last_index_loop len pat pos rest \<noteq> -1 \<Longrightarrow> len = pos + length rest \<Longrightarrow>
   0 \<le> last_index_loop len pat pos rest \<and> last_index_loop len pat pos rest < int (length rest)"
  by (induction len pat pos rest rule: last_index_loop.induct) (auto split: if_splits)

lemma last_index_of_lt:
  assumes "last_index_of str pat \<ge> 0"
  shows "nat (last_index_of str pat) < length str"
proof -
  from assms have "last_index_loop (length str) pat 0 (rev str) \<noteq> -1"
    unfolding last_index_of_def by linarith
  from last_index_loop_bounds [OF this] show ?thesis
    by (simp add: last_index_of_def nat_less_iff)
qed

text \<open>The loop of \<^verbatim>\<open>LongestFirstRouteResolver::resolve\<close> with its final test after it.\<close>

function longest_loop :: "string set \<Rightarrow> char list \<Rightarrow> string" where
  "longest_loop routes v =
     (let last_index = last_index_of v CHR ''/''
      in if last_index \<ge> 0
         then (if v \<in> routes then v else longest_loop routes (take (nat last_index) v))
         else (if v \<in> routes then v else catch_all))"
  by pat_completeness auto
termination
  by (relation "measure (\<lambda>(routes, v). length v)") (auto dest: last_index_of_lt)

declare longest_loop.simps [simp del]

text \<open>Reading the first character of an empty path panics.\<close>

definition longest_first_resolve :: "string set \<Rightarrow> string \<Rightarrow> string outcome" where
  "longest_first_resolve routes target =
     (if target \<in> routes then Ret target
      else (case target of
              [] \<Rightarrow> Panic
            | c # cs \<Rightarrow> Ret (longest_loop routes (if c = CHR ''/'' then cs else target))))"

section \<open>The interface\<close>

locale route_resolver =
  fixes resolve :: "string set \<Rightarrow> string \<Rightarrow> string outcome"
  assumes resolve_sound: "resolve routes target = Ret r \<Longrightarrow> r \<in> routes \<or> r = catch_all"
begin

lemma resolve_registered:
  "resolve routes target = Ret r \<Longrightarrow> catch_all \<in> routes \<Longrightarrow> r \<in> routes"
  using resolve_sound by blast

lemma resolve_empty: "resolve {} target = Ret r \<Longrightarrow> r = catch_all"
  using resolve_sound by blast

lemma resolve_unregistered:
  "resolve routes target = Ret r \<Longrightarrow> r \<notin> routes \<Longrightarrow> r = catch_all \<and> catch_all \<notin> routes"
  using resolve_sound by blast

end

section \<open>Lemmas\<close>

lemma last_index_loop_append:
  "pat \<notin> set rs \<Longrightarrow>
   last_index_loop len pat pos (rs @ pat # rest) = int (len - (pos + length rs) - 1)"
  by (induction rs arbitrary: pos) auto

lemma takeWhile_absent: "c \<notin> set v \<Longrightarrow> takeWhile (\<lambda>x. x \<noteq> c) v = v"
  by (induction v) auto

text \<open>The index found is that of the last occurrence.\<close>

lemma last_index_of_none: "last_index_of v c < 0 \<longleftrightarrow> c \<notin> set v"
proof -
  have "last_index_loop len c pos rest < 0 \<longleftrightarrow> c \<notin> set rest" for len pos rest
    by (induction len c pos rest rule: last_index_loop.induct) auto
  then show ?thesis by (simp add: last_index_of_def)
qed

lemma last_index_of_split:
  assumes "c \<notin> set b"
  shows "last_index_of (a @ c # b) c = int (length a)"
  using assms by (simp add: last_index_of_def last_index_loop_append)

lemma split_last_slash:
  assumes "c \<in> set v"
  obtains a b where "v = a @ c # b" "c \<notin> set b"
  using assms by (metis split_list_last)

lemma longest_loop_no_slash:
  "CHR ''/'' \<notin> set v \<Longrightarrow> longest_loop routes v = (if v \<in> routes then v else catch_all)"
  using last_index_of_none [of v "CHR ''/''"]
  by (simp add: longest_loop.simps [of routes v] Let_def)

lemma longest_loop_slash:
  "CHR ''/'' \<notin> set b \<Longrightarrow>
   longest_loop routes (a @ CHR ''/'' # b) =
     (if a @ CHR ''/'' # b \<in> routes then a @ CHR ''/'' # b else longest_loop routes a)"
  by (simp add: longest_loop.simps [of routes "a @ CHR ''/'' # b"] last_index_of_split)

lemma longest_loop_sound: "longest_loop routes v \<in> routes \<or> longest_loop routes v = catch_all"
proof (induction v rule: length_induct)
  case (1 v)
  show ?case
  proof (cases "CHR ''/'' \<in> set v")
    case True
    then obtain a b where "v = a @ CHR ''/'' # b" "CHR ''/'' \<notin> set b"
      by (rule split_last_slash)
    with 1 show ?thesis by (simp add: longest_loop_slash)
  qed (simp add: longest_loop_no_slash)
qed

interpretation default_rr: route_resolver "\<lambda>routes target. Ret (default_resolve routes target)"
  by unfold_locales (auto simp: default_resolve_def Let_def split: if_splits)

interpretation longest_rr: route_resolver longest_first_resolve
proof
  fix routes target r
  assume "longest_first_resolve routes target = Ret r"
  then show "r \<in> routes \<or> r = catch_all"
    using longest_loop_sound
    by (auto simp: longest_first_resolve_def split: if_splits list.splits)
qed

section \<open>What longest-first means\<close>

text \<open>A prefix of a path that ends at a segment boundary.\<close>

definition seg_prefix :: "string \<Rightarrow> string \<Rightarrow> bool" where
  "seg_prefix p v \<longleftrightarrow> p = v \<or> (\<exists>rest. v = p @ CHR ''/'' # rest)"

lemma seg_prefix_length: "seg_prefix p v \<Longrightarrow> length p \<le> length v"
  by (auto simp: seg_prefix_def)

lemma seg_prefix_slash:
  assumes "CHR ''/'' \<notin> set b"
  shows "seg_prefix p (a @ CHR ''/'' # b) \<longleftrightarrow> p = a @ CHR ''/'' # b \<or> seg_prefix p a"
proof
  assume "seg_prefix p (a @ CHR ''/'' # b)"
  then consider "p = a @ CHR ''/'' # b" | rest where "a @ CHR ''/'' # b = p @ CHR ''/'' # rest"
    by (auto simp: seg_prefix_def)
  then show "p = a @ CHR ''/'' # b \<or> seg_prefix p a"
  proof cases
    case 2
    then consider us where "a = p @ us" "us @ CHR ''/'' # b = CHR ''/'' # rest"
      | us where "p = a @ us" "us @ CHR ''/'' # rest = CHR ''/'' # b"
      by (auto simp: append_eq_append_conv2)
    then show ?thesis
    proof cases
      case 1
      then show ?thesis by (cases us) (auto simp: seg_prefix_def)
    next
      case 2
      then show ?thesis using assms by (cases us) (auto simp: seg_prefix_def)
    qed
  qed simp
next
  assume "p = a @ CHR ''/'' # b \<or> seg_prefix p a"
  then show "seg_prefix p (a @ CHR ''/'' # b)"
    by (auto simp: seg_prefix_def)
qed

lemma seg_prefix_no_slash: "CHR ''/'' \<notin> set v \<Longrightarrow> seg_prefix p v \<longleftrightarrow> p = v"
  by (auto simp: seg_prefix_def)

lemma longest_loop_spec:
  "(\<forall>p. seg_prefix p v \<longrightarrow> p \<in> routes \<longrightarrow>
      longest_loop routes v \<in> routes \<and> seg_prefix (longest_loop routes v) v \<and>
      length p \<le> length (longest_loop routes v)) \<and>
   ((\<forall>p. seg_prefix p v \<longrightarrow> p \<notin> routes) \<longrightarrow> longest_loop routes v = catch_all)"
proof (induction v rule: length_induct)
  case (1 v)
  show ?case
  proof (cases "CHR ''/'' \<in> set v")
    case True
    then obtain a b where v: "v = a @ CHR ''/'' # b" and b: "CHR ''/'' \<notin> set b"
      by (rule split_last_slash)
    show ?thesis
    proof (cases "v \<in> routes")
      case True
      with v b show ?thesis
        by (auto simp: longest_loop_slash seg_prefix_slash dest: seg_prefix_length)
    next
      case False
      with 1 v b show ?thesis
        by (auto simp: longest_loop_slash seg_prefix_slash)
    qed
  qed (auto simp: longest_loop_no_slash seg_prefix_no_slash)
qed

section \<open>Properties\<close>

text \<open>
  Claim C18: the longest-first resolver finds the longest match. On every path but the empty one it
  returns a route; with the leading slash removed, if some prefix that ends at a segment boundary
  is registered, the result is such a prefix, registered, and at least as long as every other, and
  if none is registered the result is the catch-all route. A path that is itself a registered
  route resolves to itself.
\<close>

theorem longest_first_resolve_longest:
  assumes "target \<noteq> []"
  shows "\<exists>r. longest_first_resolve routes target = Ret r \<and>
    (if target \<in> routes then r = target
     else (let v = (if hd target = CHR ''/'' then tl target else target) in
       (\<forall>p. seg_prefix p v \<and> p \<in> routes \<longrightarrow>
          r \<in> routes \<and> seg_prefix r v \<and> length p \<le> length r) \<and>
       ((\<forall>p. seg_prefix p v \<longrightarrow> p \<notin> routes) \<longrightarrow> r = catch_all)))"
proof -
  from assms obtain c cs where t: "target = c # cs" by (cases target) auto
  let ?v = "if c = CHR ''/'' then cs else target"
  show ?thesis
    using longest_loop_spec [of ?v routes] t
    by (auto simp: longest_first_resolve_def Let_def)
qed

theorem longest_first_resolve_longest_witness:
  "longest_first_resolve {''my-service'', ''my-service/instance''} ''/my-service/instance/test'' =
     Ret ''my-service/instance'' \<and>
   (\<exists>r. longest_first_resolve {''my-service'', ''my-service/instance''}
          ''/my-service/instance/test'' = Ret r \<and> length ''my-service'' \<le> length r)"
proof -
  have e: "longest_first_resolve {''my-service'', ''my-service/instance''}
      ''/my-service/instance/test'' = Ret ''my-service/instance''"
    by (simp add: longest_first_resolve_def longest_loop.simps last_index_of_def)
  have "seg_prefix ''my-service'' ''my-service/instance/test''"
    by (simp add: seg_prefix_def)
  then show ?thesis
    using e longest_first_resolve_longest
      [of "''/my-service/instance/test''" "{''my-service'', ''my-service/instance''}"]
    by (auto simp: Let_def)
qed

text \<open>
  Claim C32: the two resolvers agree where the simple one is enough. When no registered route
  contains a slash and the path starts with one, as every request path does, the longest-first
  resolver returns exactly what the default resolver returns.
\<close>

theorem resolvers_agree:
  assumes "\<forall>r \<in> routes. CHR ''/'' \<notin> set r" and "target = CHR ''/'' # path"
  shows "longest_first_resolve routes target = Ret (default_resolve routes target)"
proof -
  define seg where "seg = takeWhile (\<lambda>c. c \<noteq> CHR ''/'') path"
  have "longest_loop routes v =
      (if takeWhile (\<lambda>c. c \<noteq> CHR ''/'') v \<in> routes then takeWhile (\<lambda>c. c \<noteq> CHR ''/'') v
       else catch_all)" for v
  proof (induction v rule: length_induct)
    case (1 v)
    show ?case
    proof (cases "CHR ''/'' \<in> set v")
      case True
      then obtain a b where v: "v = a @ CHR ''/'' # b" and b: "CHR ''/'' \<notin> set b"
        by (rule split_last_slash)
      then have "v \<notin> routes" using assms(1) by auto
      moreover have "takeWhile (\<lambda>c. c \<noteq> CHR ''/'') v = takeWhile (\<lambda>c. c \<noteq> CHR ''/'') a"
        using v by (induction a arbitrary: v) auto
      ultimately show ?thesis using 1 v b by (simp add: longest_loop_slash)
    next
      case False
      then show ?thesis by (simp add: longest_loop_no_slash takeWhile_absent)
    qed
  qed
  moreover have "target \<notin> routes" using assms by auto
  moreover have "split_on CHR ''/'' target ! 1 = seg \<and> 2 \<le> length (split_on CHR ''/'' target)"
    using hd_split_on [of "CHR ''/''" path] assms(2)
    by (cases rule: split_on_cases [of "CHR ''/''" path]) (auto simp: seg_def)
  ultimately show ?thesis
    using assms(2) by (simp add: longest_first_resolve_def default_resolve_def seg_def Let_def)
qed

theorem resolvers_agree_witness:
  "longest_first_resolve {''route''} ''/route/api'' = Ret (default_resolve {''route''} ''/route/api'') \<and>
   default_resolve {''route''} ''/route/api'' = ''route''"
proof -
  have "\<forall>r \<in> {''route''}. CHR ''/'' \<notin> set r" by simp
  moreover have "''/route/api'' = CHR ''/'' # ''route/api''" by simp
  ultimately show ?thesis
    using resolvers_agree [of "{''route''}" "''/route/api''" "''route/api''"]
    by (simp add: default_resolve_def Let_def)
qed

end
