(* ===== verification/Header_Map.thy ===== *)
theory Header_Map
  imports Rust_Text
begin

text \<open>
  The interface to the header collections and header values of the \<^verbatim>\<open>http\<close> crate, which the
  sources call and do not contain: a record of operations that the definitions of the other
  theories take as an argument, a locale with the documented laws, and an ordered-list
  implementation that satisfies them, at which witnesses are evaluated. Header names compare
  case-insensitively and are reported in lower case.
\<close>

section \<open>The operations and their laws\<close>

record ('m, 'v) header_ops =
  hm_new :: 'm
  hm_iter :: "'m \<Rightarrow> (string \<times> 'v) list"
  hm_keys :: "'m \<Rightarrow> string list"
  hm_get_all :: "'m \<Rightarrow> string \<Rightarrow> 'v list"
  hm_insert :: "'m \<Rightarrow> string \<Rightarrow> 'v \<Rightarrow> 'm"
  hm_append :: "'m \<Rightarrow> string \<Rightarrow> 'v \<Rightarrow> 'm"
  hm_remove :: "'m \<Rightarrow> string \<Rightarrow> 'm"
  hv_to_str :: "'v \<Rightarrow> string option"
  hv_parse :: "string \<Rightarrow> 'v option"

text \<open>\<^verbatim>\<open>get\<close> gives the first of the values of a name, \<^verbatim>\<open>contains_key\<close> whether there is one.\<close>

definition hm_get :: "('m, 'v) header_ops \<Rightarrow> 'm \<Rightarrow> string \<Rightarrow> 'v option" where
  "hm_get H m k = (case hm_get_all H m k of [] \<Rightarrow> None | v # _ \<Rightarrow> Some v)"

definition hm_contains_key :: "('m, 'v) header_ops \<Rightarrow> 'm \<Rightarrow> string \<Rightarrow> bool" where
  "hm_contains_key H m k \<longleftrightarrow> hm_get_all H m k \<noteq> []"

text \<open>The recurring chain \<^verbatim>\<open>get(k).and_then(|v| v.to_str().ok())\<close>.\<close>

definition hm_get_str :: "('m, 'v) header_ops \<Rightarrow> 'm \<Rightarrow> string \<Rightarrow> string option" where
  "hm_get_str H m k = Option.bind (hm_get H m k) (hv_to_str H)"

text \<open>What a value that reads as text consists of: visible ASCII, blanks and tabs.\<close>

definition visible :: "char \<Rightarrow> bool" where
  "visible c \<longleftrightarrow> (32 \<le> code c \<and> code c < 127) \<or> code c = 9"

locale header_map =
  fixes H :: "('m, 'v) header_ops"
  assumes get_all_new: "hm_get_all H (hm_new H) k = []"
    and get_all_iter: "hm_get_all H m k =
          map snd (filter (\<lambda>(k', _). k' = to_lowercase k) (hm_iter H m))"
    and iter_lowercase: "(k, v) \<in> set (hm_iter H m) \<Longrightarrow> to_lowercase k = k"
    and keys_distinct: "distinct (hm_keys H m)"
    and keys_iter: "set (hm_keys H m) = fst ` set (hm_iter H m)"
    and get_all_insert: "hm_get_all H (hm_insert H m k v) k' =
          (if to_lowercase k' = to_lowercase k then [v] else hm_get_all H m k')"
    and get_all_append: "hm_get_all H (hm_append H m k v) k' =
          (if to_lowercase k' = to_lowercase k then hm_get_all H m k' @ [v] else hm_get_all H m k')"
    and get_all_remove: "hm_get_all H (hm_remove H m k) k' =
          (if to_lowercase k' = to_lowercase k then [] else hm_get_all H m k')"
    and to_str_visible: "hv_to_str H v = Some s \<Longrightarrow> list_all visible s"
    and to_str_parse: "hv_parse H s = Some v \<Longrightarrow> list_all visible s \<Longrightarrow> hv_to_str H v = Some s"
    and parse_visible: "list_all visible s \<Longrightarrow> \<exists>v. hv_parse H s = Some v"
begin

lemma get_all_case: "to_lowercase k = to_lowercase k' \<Longrightarrow> hm_get_all H m k = hm_get_all H m k'"
  by (simp add: get_all_iter)

lemma get_all_append_all:
  "hm_get_all H (foldl (\<lambda>m (k, v). hm_append H m k v) m kvs) k =
   hm_get_all H m k @ map snd (filter (\<lambda>(k', _). to_lowercase k' = to_lowercase k) kvs)"
  by (induction kvs arbitrary: m) (auto simp: get_all_append)

lemma get_all_append_values:
  "hm_get_all H (foldl (\<lambda>m v. hm_append H m k v) m vs) k' =
   hm_get_all H m k' @ (if to_lowercase k' = to_lowercase k then vs else [])"
  by (induction vs arbitrary: m) (auto simp: get_all_append)

lemma contains_key_iff: "hm_contains_key H m k \<longleftrightarrow> to_lowercase k \<in> fst ` set (hm_iter H m)"
  by (force simp: hm_contains_key_def get_all_iter filter_empty_conv)

lemma contains_key_keys: "hm_contains_key H m k \<longleftrightarrow> to_lowercase k \<in> set (hm_keys H m)"
  by (simp add: contains_key_iff keys_iter)

lemma get_append_absent:
  "\<not> hm_contains_key H m k \<Longrightarrow> hm_get H (hm_append H m k v) k = Some v"
  by (simp add: hm_get_def hm_contains_key_def get_all_append)

lemma get_append_present:
  "hm_contains_key H m k \<Longrightarrow> hm_get H (hm_append H m k v) k = hm_get H m k"
  by (cases "hm_get_all H m k") (auto simp: hm_get_def hm_contains_key_def get_all_append)

end

section \<open>An ordered list of headers\<close>

definition lhm_iter :: "(string \<times> string) list \<Rightarrow> (string \<times> string) list" where
  "lhm_iter m = map (\<lambda>(k, v). (to_lowercase k, v)) m"

definition lhm_get_all :: "(string \<times> string) list \<Rightarrow> string \<Rightarrow> string list" where
  "lhm_get_all m k = map snd (filter (\<lambda>(k', _). k' = to_lowercase k) (lhm_iter m))"

definition lhm_remove :: "(string \<times> string) list \<Rightarrow> string \<Rightarrow> (string \<times> string) list" where
  "lhm_remove m k = filter (\<lambda>(k', _). to_lowercase k' \<noteq> to_lowercase k) m"

definition lhm_append :: "(string \<times> string) list \<Rightarrow> string \<Rightarrow> string \<Rightarrow> (string \<times> string) list" where
  "lhm_append m k v = m @ [(k, v)]"

definition lhm :: "((string \<times> string) list, string) header_ops" where
  "lhm = \<lparr>hm_new = [], hm_iter = lhm_iter, hm_keys = (\<lambda>m. remdups (map fst (lhm_iter m))),
          hm_get_all = lhm_get_all,
          hm_insert = (\<lambda>m k v. lhm_append (lhm_remove m k) k v), hm_append = lhm_append,
          hm_remove = lhm_remove,
          hv_to_str = (\<lambda>v. if list_all visible v then Some v else None),
          hv_parse = (\<lambda>s. if list_all (\<lambda>c. 32 \<le> code c \<and> code c \<noteq> 127 \<or> code c = 9) s
                           then Some s else None)\<rparr>"

lemma lhm_get_all_remove:
  "lhm_get_all (lhm_remove m k) k' = (if to_lowercase k' = to_lowercase k then [] else lhm_get_all m k')"
  by (induction m) (auto simp: lhm_get_all_def lhm_remove_def lhm_iter_def)

lemma lhm_get_all_append:
  "lhm_get_all (lhm_append m k v) k' =
   (if to_lowercase k' = to_lowercase k then lhm_get_all m k' @ [v] else lhm_get_all m k')"
  by (auto simp: lhm_get_all_def lhm_append_def lhm_iter_def)

lemma lhm_get_all_Nil: "lhm_get_all [] k = []"
  by (simp add: lhm_get_all_def lhm_iter_def)

interpretation lhm: header_map lhm
proof
  show "hm_get_all lhm m k = map snd (filter (\<lambda>(k', _). k' = to_lowercase k) (hm_iter lhm m))" for m k
    by (simp add: lhm_def lhm_get_all_def)
next
  show "set (hm_keys lhm m) = fst ` set (hm_iter lhm m)" for m
    by (simp add: lhm_def)
next
  show "\<exists>v. hv_parse lhm s = Some v" if "list_all visible s" for s
    using that by (auto simp: lhm_def list_all_iff visible_def)
next
  show "hv_to_str lhm v = Some s" if "hv_parse lhm s = Some v" "list_all visible s" for s v
    using that by (auto simp: lhm_def split: if_splits)
qed (auto simp: lhm_def lhm_get_all_append lhm_get_all_remove lhm_get_all_Nil lhm_iter_def
       split: if_splits)

lemma header_map_lhm: "header_map lhm"
  by (rule lhm.header_map_axioms)

end
