(* ===== verification/Router_Config.thy ===== *)
theory Router_Config
  imports Exceptions Route_Resolver Header_Map
begin

text \<open>
  The configuration of the router (\<^verbatim>\<open>src/src/lib.rs\<close>): the header tables, the builder with its
  checks, the choice of the protocol version at registration, and whether an HTTP/1 request has
  a body. Trait objects supplied by the user are fields of the configuration: functions where the
  code calls one method, and type parameters for listeners and socket filters. The millisecond
  settings are compared and never computed with, so they are integers.
\<close>

section \<open>Tables\<close>

definition CRANKER_PROTOCOL_HEADER_KEY :: string where
  "CRANKER_PROTOCOL_HEADER_KEY = ''CrankerProtocol''"

definition VER_1_0 :: string where "VER_1_0 = ''1.0''"
definition VER_3_0 :: string where "VER_3_0 = ''3.0''"
definition CRANKER_V_1_0 :: string where "CRANKER_V_1_0 = ''cranker_1.0''"
definition CRANKER_V_3_0 :: string where "CRANKER_V_3_0 = ''cranker_3.0''"

definition SUPPORTED_CRANKER_VERSION :: "(string \<times> string) list" where
  "SUPPORTED_CRANKER_VERSION = [(VER_1_0, CRANKER_V_1_0), (VER_3_0, CRANKER_V_3_0)]"

definition RESPONSE_HEADERS_TO_NOT_SEND_BACK :: "string set" where
  "RESPONSE_HEADERS_TO_NOT_SEND_BACK = {''server''}"

definition HOP_BY_HOP_HEADERS :: "string set" where
  "HOP_BY_HOP_HEADERS =
     {''keep-alive'', ''transfer-encoding'', ''te'', ''connection'', ''trailer'', ''upgrade'',
      ''proxy-authorization'', ''proxy-authenticate''}"

definition REPRESSED_HEADERS :: "string set" where
  "REPRESSED_HEADERS = HOP_BY_HOP_HEADERS \<union>
     {''expect'', ''forwarded'', ''x-forwarded-by'', ''x-forwarded-for'', ''x-forwarded-host'',
      ''x-forwarded-proto'', ''x-forwarded-port'', ''x-forwarded-server'', ''via''}"

section \<open>The builder\<close>

record ('l, 'f) router_config =
  proxy_listeners :: "'l list"
  router_socket_filter :: 'f
  discard_client_forwarded_headers :: bool
  send_legacy_forwarded_headers :: bool
  via_name :: string
  routes_keep_time_millis :: int
  connector_max_wait_time_millis :: int
  ping_sent_after_no_write_for_ms :: int
  idle_read_timeout_ms :: int
  allow_catch_all :: bool
  do_not_proxy_headers :: "string set"
  registration_ip_validator :: "string \<Rightarrow> bool"
  cfg_route_resolver :: "string set \<Rightarrow> string \<Rightarrow> string outcome"
  supported_cranker_protocols :: "(string \<times> string) list"

definition DEF_IDLE_READ_TIMEOUT_MS :: int where "DEF_IDLE_READ_TIMEOUT_MS = 60000"
definition DEF_ROUTES_KEEP_TIME_MILLIS :: int where "DEF_ROUTES_KEEP_TIME_MILLIS = 2 * 60 * 60 * 1000"
definition DEF_PING_SENT_AFTER_NO_WRITE_FOR_MS :: int where "DEF_PING_SENT_AFTER_NO_WRITE_FOR_MS = 10000"
definition DEF_CONNECTOR_MAX_WAIT_TIME_MILLIS :: int where "DEF_CONNECTOR_MAX_WAIT_TIME_MILLIS = 5000"

text \<open>\<^verbatim>\<open>AllowAll\<close> of \<^verbatim>\<open>ip_validator.rs\<close>.\<close>

definition allow_all :: "string \<Rightarrow> bool" where
  "allow_all ip = True"

lemma allow_all_allows [simp]: "allow_all ip"
  by (simp add: allow_all_def)

text \<open>The filter \<open>filt\<close> is the default socket filter, defined with the farm.\<close>

definition builder_new :: "'f \<Rightarrow> ('l, 'f) router_config" where
  "builder_new filt =
     \<lparr>proxy_listeners = [], router_socket_filter = filt,
      discard_client_forwarded_headers = False, send_legacy_forwarded_headers = False,
      via_name = ''scr-axum'',
      routes_keep_time_millis = DEF_ROUTES_KEEP_TIME_MILLIS,
      connector_max_wait_time_millis = DEF_CONNECTOR_MAX_WAIT_TIME_MILLIS,
      ping_sent_after_no_write_for_ms = DEF_PING_SENT_AFTER_NO_WRITE_FOR_MS,
      idle_read_timeout_ms = DEF_IDLE_READ_TIMEOUT_MS,
      allow_catch_all = True,
      do_not_proxy_headers = REPRESSED_HEADERS,
      registration_ip_validator = allow_all,
      cfg_route_resolver = (\<lambda>routes target. Ret (default_resolve routes target)),
      supported_cranker_protocols = SUPPORTED_CRANKER_VERSION\<rparr>"

text \<open>
  The nested loops of \<^verbatim>\<open>check_supported_cranker_version\<close>; the table and the requested versions
  are hash collections, so they arrive in some order, as lists.
\<close>

fun check_version_against :: "string \<Rightarrow> (string \<times> string) list \<Rightarrow> (string \<times> string) list \<Rightarrow>
    (string \<times> string) list outcome" where
  "check_version_against ver [] res = Ret res"
| "check_version_against ver ((k, v) # table) res =
     (if eq_ignore_ascii_case k ver then check_version_against ver table (am_put res k v)
      else if eq_ignore_ascii_case v ver then check_version_against ver table (am_put res k v)
      else Panic)"

fun check_versions :: "(string \<times> string) list \<Rightarrow> string list \<Rightarrow> (string \<times> string) list \<Rightarrow>
    (string \<times> string) list outcome" where
  "check_versions table [] res = Ret res"
| "check_versions table (ver # vers) res =
     bind_outcome (check_version_against ver table res) (check_versions table vers)"

definition check_supported_cranker_version ::
    "(string \<times> string) list \<Rightarrow> string list \<Rightarrow> (string \<times> string) list outcome" where
  "check_supported_cranker_version table versions =
     (if versions = [] then Panic
      else bind_outcome (check_versions table versions [])
             (\<lambda>res. if res = [] then Panic else Ret res))"

definition allowed_via_chars :: string where
  "allowed_via_chars =
     ''0123456789abcdefghijklmnopqrstuvwxyzABCDEFGHIJKLMNOPQRSTUVWXYZ!#$%&'' @ [CHR 0x27] @
     ''*+,-.^_'' @ [CHR 0x60] @ ''|~:''"

definition check_via_name :: "string \<Rightarrow> unit outcome" where
  "check_via_name s =
     (if length s > 1023 then Panic
      else if \<not> list_all (\<lambda>g. list_all is_ascii g) (chars s) then Panic
      else if \<not> list_all (\<lambda>g. g \<in> set (chars allowed_via_chars)) (chars s) then Panic
      else Ret ())"

definition panic_if_less_than_zero :: "int \<Rightarrow> unit outcome" where
  "panic_if_less_than_zero val = (if val \<ge> 0 then Ret () else Panic)"

definition with_discard_client_forwarded_headers ::
    "('l, 'f) router_config \<Rightarrow> bool \<Rightarrow> ('l, 'f) router_config" where
  "with_discard_client_forwarded_headers c b = c\<lparr>discard_client_forwarded_headers := b\<rparr>"

definition with_send_legacy_forwarded_headers ::
    "('l, 'f) router_config \<Rightarrow> bool \<Rightarrow> ('l, 'f) router_config" where
  "with_send_legacy_forwarded_headers c b = c\<lparr>send_legacy_forwarded_headers := b\<rparr>"

definition with_via_name :: "('l, 'f) router_config \<Rightarrow> string \<Rightarrow> ('l, 'f) router_config outcome" where
  "with_via_name c s = bind_outcome (check_via_name s) (\<lambda>_. Ret (c\<lparr>via_name := s\<rparr>))"

definition with_idle_read_timeout_ms ::
    "('l, 'f) router_config \<Rightarrow> int \<Rightarrow> ('l, 'f) router_config outcome" where
  "with_idle_read_timeout_ms c t =
     bind_outcome (panic_if_less_than_zero t) (\<lambda>_. Ret (c\<lparr>idle_read_timeout_ms := t\<rparr>))"

definition with_routes_keep_time_millis ::
    "('l, 'f) router_config \<Rightarrow> int \<Rightarrow> ('l, 'f) router_config outcome" where
  "with_routes_keep_time_millis c t =
     bind_outcome (panic_if_less_than_zero t) (\<lambda>_. Ret (c\<lparr>routes_keep_time_millis := t\<rparr>))"

definition with_ping_sent_after_no_write_for_ms ::
    "('l, 'f) router_config \<Rightarrow> int \<Rightarrow> ('l, 'f) router_config outcome" where
  "with_ping_sent_after_no_write_for_ms c t =
     bind_outcome (panic_if_less_than_zero t) (\<lambda>_. Ret (c\<lparr>ping_sent_after_no_write_for_ms := t\<rparr>))"

definition with_connector_max_wait_time_millis ::
    "('l, 'f) router_config \<Rightarrow> int \<Rightarrow> ('l, 'f) router_config outcome" where
  "with_connector_max_wait_time_millis c t =
     bind_outcome (panic_if_less_than_zero t) (\<lambda>_. Ret (c\<lparr>connector_max_wait_time_millis := t\<rparr>))"

definition should_allow_catch_all :: "('l, 'f) router_config \<Rightarrow> bool \<Rightarrow> ('l, 'f) router_config" where
  "should_allow_catch_all c b = c\<lparr>allow_catch_all := b\<rparr>"

definition should_proxy_host_header :: "('l, 'f) router_config \<Rightarrow> bool \<Rightarrow> ('l, 'f) router_config" where
  "should_proxy_host_header c b =
     (if b then c\<lparr>do_not_proxy_headers := do_not_proxy_headers c - {''host''}\<rparr>
      else c\<lparr>do_not_proxy_headers := insert ''host'' (do_not_proxy_headers c)\<rparr>)"

definition with_registration_ip_validator ::
    "('l, 'f) router_config \<Rightarrow> (string \<Rightarrow> bool) \<Rightarrow> ('l, 'f) router_config" where
  "with_registration_ip_validator c f = c\<lparr>registration_ip_validator := f\<rparr>"

definition with_proxy_listeners :: "('l, 'f) router_config \<Rightarrow> 'l list \<Rightarrow> ('l, 'f) router_config" where
  "with_proxy_listeners c ls = c\<lparr>proxy_listeners := ls\<rparr>"

definition with_route_resolver ::
    "('l, 'f) router_config \<Rightarrow> (string set \<Rightarrow> string \<Rightarrow> string outcome) \<Rightarrow> ('l, 'f) router_config" where
  "with_route_resolver c r = c\<lparr>cfg_route_resolver := r\<rparr>"

definition with_router_socket_filter :: "('l, 'f) router_config \<Rightarrow> 'f \<Rightarrow> ('l, 'f) router_config" where
  "with_router_socket_filter c f = c\<lparr>router_socket_filter := f\<rparr>"

definition with_supported_cranker_version ::
    "(string \<times> string) list \<Rightarrow> ('l, 'f) router_config \<Rightarrow> string list \<Rightarrow> ('l, 'f) router_config outcome" where
  "with_supported_cranker_version table c versions =
     bind_outcome (check_supported_cranker_version table versions)
       (\<lambda>scv. Ret (c\<lparr>supported_cranker_protocols := scv\<rparr>))"

section \<open>Registration\<close>

text \<open>
  \<^verbatim>\<open>extract_cranker_version\<close>. The debug rendering of the two optional header values, used only in
  the error text, is the argument \<open>dbg\<close>. A header that is not visible ASCII makes \<^verbatim>\<open>unwrap\<close> panic.
\<close>

fun first_supported :: "(string \<times> string) list \<Rightarrow> string list \<Rightarrow> string option" where
  "first_supported supported [] = None"
| "first_supported supported (v # vs) =
     (let trimmed = replace_str ''cranker_'' [] (trim v)
      in case am_get supported trimmed of
           Some res \<Rightarrow> Some res
         | None \<Rightarrow> first_supported supported vs)"

definition extract_from_sub_protocols ::
    "('m, 'v) header_ops \<Rightarrow> (string \<times> string) list \<Rightarrow> 'v option \<Rightarrow> string option outcome" where
  "extract_from_sub_protocols H supported sub_protocols =
     (case sub_protocols of
        None \<Rightarrow> Ret None
      | Some sp \<Rightarrow>
          (case hv_to_str H sp of
             None \<Rightarrow> Panic
           | Some sp_str \<Rightarrow> Ret (first_supported supported (split_on CHR '','' sp_str))))"

definition extract_from_legacy ::
    "('m, 'v) header_ops \<Rightarrow> (string \<times> string) list \<Rightarrow> 'v option \<Rightarrow> string option outcome" where
  "extract_from_legacy H supported legacy_protocol_header =
     (case legacy_protocol_header of
        None \<Rightarrow> Ret None
      | Some lph \<Rightarrow>
          (case hv_to_str H lph of
             None \<Rightarrow> Panic
           | Some lp \<Rightarrow> Ret (am_get supported lp)))"

definition extract_cranker_version ::
    "('m, 'v) header_ops \<Rightarrow> ('v option \<Rightarrow> string) \<Rightarrow> (string \<times> string) list \<Rightarrow> 'm \<Rightarrow> string res outcome" where
  "extract_cranker_version H dbg supported headers =
     (let sub_protocols = hm_get H headers ''sec-websocket-protocol'';
          legacy_protocol_header = hm_get H headers CRANKER_PROTOCOL_HEADER_KEY
      in if sub_protocols = None \<and> legacy_protocol_header = None
         then Ret (Inl (with_err_kind
                (crex_new ''Version is null. Please set header Sec-WebSocket-Protocol for cranker protocol negotiation'')
                CrankerProtocolVersionNotFound_0003))
         else bind_outcome (extract_from_sub_protocols H supported sub_protocols) (\<lambda>found.
           case found of
             Some res \<Rightarrow> Ret (Inr res)
           | None \<Rightarrow>
               bind_outcome (extract_from_legacy H supported legacy_protocol_header) (\<lambda>found.
                 case found of
                   Some res \<Rightarrow> Ret (Inr res)
                 | None \<Rightarrow> Ret (Inl (with_err_kind
                     (crex_new (''Cranker version not supported! sub protocols = '' @ dbg sub_protocols @
                                '', legacy protocols = '' @ dbg legacy_protocol_header))
                     CrankerProtocolVersionNotSupported_0004)))))"

definition failed_at_ip_validation :: "string \<Rightarrow> string \<Rightarrow> string \<Rightarrow> nat \<times> string" where
  "failed_at_ip_validation ip route connector_id =
     (403, ''Fail to establish websocket connection to cranker connector because of not supported ip address=''
           @ ip @ ''. Route='' @ route @ ''. Connector Id='' @ connector_id)"

record connector_info =
  ci_connector_id :: string
  ci_route :: string
  ci_component_name :: string
  ci_domain :: string
  ci_negotiated_cranker_version :: string

text \<open>
  The middleware in front of the registration: it rejects with a status and a text, or passes the
  connector's details on. The query parameters are an association list; \<open>uuid\<close> is the identifier
  generated when the connector names none. On success the middleware also sets the negotiated
  version on the response of the next layer.
\<close>

definition reg_check_and_extract ::
    "('m, 'v) header_ops \<Rightarrow> ('v option \<Rightarrow> string) \<Rightarrow> ('l, 'f) router_config \<Rightarrow> string \<Rightarrow> string \<Rightarrow> 'm \<Rightarrow>
     (string \<times> string) list \<Rightarrow> string \<Rightarrow> ((nat \<times> string) + connector_info) outcome" where
  "reg_check_and_extract H dbg cfg uuid meth headers params ip =
     (if meth = ''TRACE'' then Ret (Inl (405, ''Method not allowed.''))
      else
        let connector_id = (case am_get params ''connectorInstanceID'' of Some s \<Rightarrow> s | None \<Rightarrow> uuid);
            route = (case hm_get_str H headers ''Route'' of Some s \<Rightarrow> s | None \<Rightarrow> ''*'')
        in if \<not> registration_ip_validator cfg ip
           then Ret (Inl (failed_at_ip_validation ip route connector_id))
           else
             let component_name = (case am_get params ''componentName'' of Some s \<Rightarrow> s
                   | None \<Rightarrow> ''unknown-'' @ concat (take 5 (chars connector_id)));
                 domain = (case hm_get_str H headers ''Domain'' of Some s \<Rightarrow> s | None \<Rightarrow> ''*'')
             in bind_outcome (extract_cranker_version H dbg (supported_cranker_protocols cfg) headers)
                  (\<lambda>r. case r of
                     Inl err \<Rightarrow> Ret (Inl (400, ''Failed to negotiate cranker version: '' @ crex_display err))
                   | Inr v \<Rightarrow> Ret (Inr \<lparr>ci_connector_id = connector_id, ci_route = route,
                       ci_component_name = component_name, ci_domain = domain,
                       ci_negotiated_cranker_version = v\<rparr>)))"

definition judge_has_body_from_header_http_1 :: "('m, 'v) header_ops \<Rightarrow> 'm \<Rightarrow> bool" where
  "judge_has_body_from_header_http_1 H headers =
     (case Option.bind (hm_get_str H headers ''content-length'') i64_from_str of
        Some content_length \<Rightarrow> content_length > 0
      | None \<Rightarrow> hm_contains_key H headers ''transfer-encoding'')"

section \<open>Every configuration the builder can give\<close>

inductive built :: "('l, 'f) router_config \<Rightarrow> bool" where
  "built (builder_new filt)"
| "built c \<Longrightarrow> built (with_discard_client_forwarded_headers c b)"
| "built c \<Longrightarrow> built (with_send_legacy_forwarded_headers c b)"
| "built c \<Longrightarrow> with_via_name c s = Ret c' \<Longrightarrow> built c'"
| "built c \<Longrightarrow> with_idle_read_timeout_ms c t = Ret c' \<Longrightarrow> built c'"
| "built c \<Longrightarrow> with_routes_keep_time_millis c t = Ret c' \<Longrightarrow> built c'"
| "built c \<Longrightarrow> with_ping_sent_after_no_write_for_ms c t = Ret c' \<Longrightarrow> built c'"
| "built c \<Longrightarrow> with_connector_max_wait_time_millis c t = Ret c' \<Longrightarrow> built c'"
| "built c \<Longrightarrow> built (should_allow_catch_all c b)"
| "built c \<Longrightarrow> built (should_proxy_host_header c b)"
| "built c \<Longrightarrow> built (with_registration_ip_validator c ipv)"
| "built c \<Longrightarrow> built (with_proxy_listeners c ls)"
| "built c \<Longrightarrow> built (with_route_resolver c r)"
| "built c \<Longrightarrow> built (with_router_socket_filter c f)"
| "built c \<Longrightarrow> set table = set SUPPORTED_CRANKER_VERSION \<Longrightarrow>
   with_supported_cranker_version table c vs = Ret c' \<Longrightarrow> built c'"

definition config_ok :: "('l, 'f) router_config \<Rightarrow> bool" where
  "config_ok c \<longleftrightarrow>
     0 \<le> routes_keep_time_millis c \<and> 0 \<le> connector_max_wait_time_millis c \<and>
     0 \<le> ping_sent_after_no_write_for_ms c \<and> 0 \<le> idle_read_timeout_ms c \<and>
     set (via_name c) \<subseteq> set allowed_via_chars \<and> length (via_name c) \<le> 1023 \<and>
     REPRESSED_HEADERS \<subseteq> do_not_proxy_headers c \<and>
     supported_cranker_protocols c = SUPPORTED_CRANKER_VERSION"

section \<open>Lemmas\<close>

lemmas builder_defs = with_discard_client_forwarded_headers_def with_send_legacy_forwarded_headers_def
  with_via_name_def with_idle_read_timeout_ms_def with_routes_keep_time_millis_def
  with_ping_sent_after_no_write_for_ms_def with_connector_max_wait_time_millis_def
  should_allow_catch_all_def should_proxy_host_header_def with_registration_ip_validator_def
  with_proxy_listeners_def with_route_resolver_def with_router_socket_filter_def
  with_supported_cranker_version_def panic_if_less_than_zero_def bind_outcome_Ret_iff

lemma check_version_against_all:
  "check_version_against ver table res = Ret r \<Longrightarrow> (k, v) \<in> set table \<Longrightarrow>
   eq_ignore_ascii_case k ver \<or> eq_ignore_ascii_case v ver"
  by (induction ver table res rule: check_version_against.induct) (auto split: if_splits)

lemma no_common_spelling:
  "\<not> ((eq_ignore_ascii_case VER_1_0 ver \<or> eq_ignore_ascii_case CRANKER_V_1_0 ver) \<and>
      (eq_ignore_ascii_case VER_3_0 ver \<or> eq_ignore_ascii_case CRANKER_V_3_0 ver))"
proof -
  have "to_lowercase a \<noteq> to_lowercase b" if "a \<in> {VER_1_0, CRANKER_V_1_0}" "b \<in> {VER_3_0, CRANKER_V_3_0}" for a b
    using that by (auto simp: VER_1_0_def VER_3_0_def CRANKER_V_1_0_def CRANKER_V_3_0_def
        to_lowercase_def lower_def code_def)
  then show ?thesis
    unfolding eq_ignore_ascii_case_def by (metis insert_iff)
qed

lemma check_supported_panics:
  assumes "set table = set SUPPORTED_CRANKER_VERSION"
  shows "check_supported_cranker_version table versions = Panic"
proof (cases versions)
  case (Cons ver vers)
  have "check_version_against ver table [] = Panic"
  proof (cases "check_version_against ver table []")
    case (Ret r)
    from check_version_against_all [OF this] assms no_common_spelling [of ver] show ?thesis
      by (simp add: SUPPORTED_CRANKER_VERSION_def)
  qed
  with Cons show ?thesis by (simp add: check_supported_cranker_version_def)
qed (simp add: check_supported_cranker_version_def)

lemma allowed_via_ascii: "list_all is_ascii allowed_via_chars"
  by (simp add: allowed_via_chars_def is_ascii_def code_def)

lemma check_via_name_ok:
  assumes "check_via_name s = Ret u"
  shows "set s \<subseteq> set allowed_via_chars \<and> length s \<le> 1023"
proof
  from assms show "length s \<le> 1023"
    by (auto simp: check_via_name_def split: if_splits)
  from assms have "\<forall>g \<in> set (chars s). g \<in> (\<lambda>c. [c]) ` set allowed_via_chars"
    by (auto simp: check_via_name_def list_all_iff chars_ascii [OF allowed_via_ascii] split: if_splits)
  then have "set (concat (chars s)) \<subseteq> set allowed_via_chars"
    by (auto simp del: concat_chars)
  then show "set s \<subseteq> set allowed_via_chars" by simp
qed

lemma config_ok_new: "config_ok (builder_new filt)"
  by (auto simp: config_ok_def builder_new_def allowed_via_chars_def DEF_IDLE_READ_TIMEOUT_MS_def
      DEF_ROUTES_KEEP_TIME_MILLIS_def DEF_PING_SENT_AFTER_NO_WRITE_FOR_MS_def
      DEF_CONNECTOR_MAX_WAIT_TIME_MILLIS_def)

lemma host_not_repressed: "''host'' \<notin> REPRESSED_HEADERS"
  by (simp add: REPRESSED_HEADERS_def HOP_BY_HOP_HEADERS_def)

lemma built_config_ok: "built c \<Longrightarrow> config_ok c"
proof (induction rule: built.induct)
  case (1 filt)
  show ?case by (rule config_ok_new)
next
  case (4 c s c')
  then show ?case
    using check_via_name_ok [of s] by (auto simp: builder_defs config_ok_def)
next
  case (10 c b)
  then show ?case
    using host_not_repressed by (auto simp: builder_defs config_ok_def)
next
  case (15 c table vs c')
  then show ?case
    by (simp add: builder_defs check_supported_panics)
qed (auto simp: builder_defs config_ok_def split: if_splits)

text \<open>The versions a registration request offers, in the order in which they are tried.\<close>

definition offered_versions :: "('m, 'v) header_ops \<Rightarrow> 'm \<Rightarrow> string list" where
  "offered_versions H headers =
     (case hm_get_str H headers ''sec-websocket-protocol'' of None \<Rightarrow> []
      | Some s \<Rightarrow> map (\<lambda>v. replace_str ''cranker_'' [] (trim v)) (split_on CHR '','' s)) @
     (case hm_get_str H headers CRANKER_PROTOCOL_HEADER_KEY of None \<Rightarrow> [] | Some l \<Rightarrow> [l])"

definition readable :: "('m, 'v) header_ops \<Rightarrow> 'm \<Rightarrow> string \<Rightarrow> bool" where
  "readable H headers k \<longleftrightarrow> (hm_get H headers k \<noteq> None \<longrightarrow> hm_get_str H headers k \<noteq> None)"

lemma first_supported_find:
  "first_supported supported vs =
   map_option (\<lambda>k. the (am_get supported k))
     (List.find (\<lambda>k. am_get supported k \<noteq> None) (map (\<lambda>v. replace_str ''cranker_'' [] (trim v)) vs))"
  by (induction vs) (auto simp: Let_def split: option.splits)

lemma find_append:
  "List.find P (xs @ ys) = (case List.find P xs of None \<Rightarrow> List.find P ys | Some x \<Rightarrow> Some x)"
  by (induction xs) auto

lemma extract_sub_find:
  assumes "readable H headers ''sec-websocket-protocol''"
  shows "extract_from_sub_protocols H supported (hm_get H headers ''sec-websocket-protocol'') =
    Ret (map_option (\<lambda>k. the (am_get supported k)) (List.find (\<lambda>k. am_get supported k \<noteq> None)
      (case hm_get_str H headers ''sec-websocket-protocol'' of None \<Rightarrow> []
       | Some s \<Rightarrow> map (\<lambda>v. replace_str ''cranker_'' [] (trim v)) (split_on CHR '','' s))))"
  using assms
  by (cases "hm_get H headers ''sec-websocket-protocol''")
    (auto simp: extract_from_sub_protocols_def readable_def hm_get_str_def first_supported_find
      simp del: not_None_eq split: option.splits)

lemma extract_legacy_find:
  assumes "readable H headers CRANKER_PROTOCOL_HEADER_KEY"
  shows "extract_from_legacy H supported (hm_get H headers CRANKER_PROTOCOL_HEADER_KEY) =
    Ret (map_option (\<lambda>k. the (am_get supported k)) (List.find (\<lambda>k. am_get supported k \<noteq> None)
      (case hm_get_str H headers CRANKER_PROTOCOL_HEADER_KEY of None \<Rightarrow> [] | Some l \<Rightarrow> [l])))"
  using assms
  by (cases "hm_get H headers CRANKER_PROTOCOL_HEADER_KEY")
    (auto simp: extract_from_legacy_def readable_def hm_get_str_def split: option.splits)

lemma reg_check_cases:
  assumes "reg_check_and_extract H dbg cfg uuid meth headers params ip = Ret r"
  obtains (trace) body where "meth = ''TRACE''" "r = Inl (405, body)"
  | (forbidden) body where "meth \<noteq> ''TRACE''" "\<not> registration_ip_validator cfg ip" "r = Inl (403, body)"
  | (bad) e body where "meth \<noteq> ''TRACE''" "registration_ip_validator cfg ip" "r = Inl (400, body)"
      "extract_cranker_version H dbg (supported_cranker_protocols cfg) headers = Ret (Inl e)"
  | (accepted) info where "meth \<noteq> ''TRACE''" "registration_ip_validator cfg ip" "r = Inr info"
      "extract_cranker_version H dbg (supported_cranker_protocols cfg) headers =
         Ret (Inr (ci_negotiated_cranker_version info))"
proof (cases "meth = ''TRACE'' \<or> \<not> registration_ip_validator cfg ip")
  case True
  with assms trace forbidden show ?thesis
    by (auto simp: reg_check_and_extract_def Let_def failed_at_ip_validation_def split: if_splits)
next
  case False
  with assms obtain x where "extract_cranker_version H dbg (supported_cranker_protocols cfg) headers = Ret x"
    by (auto simp: reg_check_and_extract_def Let_def bind_outcome_Ret_iff)
  note extracted = this
  show ?thesis
  proof (cases x)
    case (Inl e)
    with assms False extracted bad show ?thesis
      by (auto simp: reg_check_and_extract_def Let_def)
  next
    case (Inr v)
    with assms False extracted obtain info where "r = Inr info" "ci_negotiated_cranker_version info = v"
      by (force simp: reg_check_and_extract_def Let_def)
    with Inr False extracted accepted show ?thesis by simp
  qed
qed

lemma first_supported_range: "first_supported supported vs = Some v \<Longrightarrow> \<exists>k. am_get supported k = Some v"
  by (induction vs) (auto simp: Let_def split: option.splits)

lemma extract_version_range:
  assumes "extract_cranker_version H dbg supported headers = Ret (Inr v)"
  shows "\<exists>k. am_get supported k = Some v"
proof -
  from assms have "(\<exists>vs. first_supported supported vs = Some v) \<or> (\<exists>k. am_get supported k = Some v)"
    by (auto simp: extract_cranker_version_def Let_def extract_from_sub_protocols_def
          extract_from_legacy_def bind_outcome_Ret_iff split: if_splits option.splits)
  then show ?thesis using first_supported_range by blast
qed

lemma supported_range: "am_get SUPPORTED_CRANKER_VERSION k = Some v \<Longrightarrow> v \<in> {CRANKER_V_1_0, CRANKER_V_3_0}"
  by (simp add: SUPPORTED_CRANKER_VERSION_def am_get_Cons split: if_splits)

section \<open>Properties\<close>

text \<open>
  The version chosen for a connector is that of the first offered version the router
  supports, the sub-protocols tried before the legacy header; with no supported offer the
  registration fails, with one error kind when no version was named and another when none is
  supported. It never panics when the two headers are readable.
\<close>

lemma extract_cranker_version_first_offer:
  assumes "readable H headers ''sec-websocket-protocol''"
    and "readable H headers CRANKER_PROTOCOL_HEADER_KEY"
  shows "\<exists>r. extract_cranker_version H dbg supported headers = Ret r \<and>
    (case List.find (\<lambda>k. am_get supported k \<noteq> None) (offered_versions H headers) of
       Some k \<Rightarrow> r = Inr (the (am_get supported k))
     | None \<Rightarrow> \<exists>e. r = Inl e \<and> opt_err_kind e = Some
         (if hm_get H headers ''sec-websocket-protocol'' = None \<and>
             hm_get H headers CRANKER_PROTOCOL_HEADER_KEY = None
          then CrankerProtocolVersionNotFound_0003 else CrankerProtocolVersionNotSupported_0004))"
proof (cases "hm_get H headers ''sec-websocket-protocol'' = None \<and>
              hm_get H headers CRANKER_PROTOCOL_HEADER_KEY = None")
  case True
  then have "offered_versions H headers = []"
    by (simp add: offered_versions_def hm_get_str_def)
  with True show ?thesis by (simp add: extract_cranker_version_def)
next
  case False
  let ?found = "\<lambda>offers. List.find (\<lambda>k. am_get supported k \<noteq> None) offers"
  show ?thesis
    unfolding extract_cranker_version_def Let_def if_not_P [OF False] offered_versions_def find_append
      extract_sub_find [OF assms(1)] extract_legacy_find [OF assms(2)]
    by (cases "?found (case hm_get_str H headers ''sec-websocket-protocol'' of None \<Rightarrow> []
          | Some s \<Rightarrow> map (\<lambda>v. replace_str ''cranker_'' [] (trim v)) (split_on CHR '','' s))";
        cases "?found (case hm_get_str H headers CRANKER_PROTOCOL_HEADER_KEY of None \<Rightarrow> [] | Some l \<Rightarrow> [l])")
      (simp_all del: not_None_eq)
qed

lemma extract_cranker_version_first_offer_witness:
  "extract_cranker_version lhm (\<lambda>_. []) SUPPORTED_CRANKER_VERSION
     [(''Sec-WebSocket-Protocol'', ''cranker_2.0, cranker_3.0''), (''CrankerProtocol'', ''1.0'')]
   = Ret (Inr CRANKER_V_3_0)"
proof -
  let ?h = "[(''Sec-WebSocket-Protocol'', ''cranker_2.0, cranker_3.0''), (''CrankerProtocol'', ''1.0'')]"
  have "readable lhm ?h ''sec-websocket-protocol''" "readable lhm ?h CRANKER_PROTOCOL_HEADER_KEY"
    by code_simp+
  moreover have "offered_versions lhm ?h = [''2.0'', ''3.0'', ''1.0'']"
    by code_simp
  ultimately show ?thesis
    using extract_cranker_version_first_offer [of lhm ?h "\<lambda>_. []" SUPPORTED_CRANKER_VERSION]
    by (simp add: SUPPORTED_CRANKER_VERSION_def am_get_Cons VER_1_0_def VER_3_0_def)
qed

text \<open>
  Claim C33: every configuration the builder can produce keeps the router's requirements: no
  negative time, a via name of at most 1023 allowed characters, every hop-by-hop and forwarding
  header among those not proxied, and exactly the two protocol versions.
\<close>

theorem built_config_invariant:
  assumes "built c"
  shows "config_ok c \<and> HOP_BY_HOP_HEADERS \<subseteq> do_not_proxy_headers c"
  using built_config_ok [OF assms] by (auto simp: config_ok_def REPRESSED_HEADERS_def)

theorem built_config_invariant_witness:
  "config_ok (should_proxy_host_header (builder_new ()) False \<lparr>via_name := ''edge:1''\<rparr>)"
proof -
  have "with_via_name (should_proxy_host_header (builder_new ()) False) ''edge:1'' =
      Ret (should_proxy_host_header (builder_new ()) False \<lparr>via_name := ''edge:1''\<rparr>)"
    (is "_ = Ret ?c")
  proof -
    have "check_via_name ''edge:1'' = Ret ()" by code_simp
    then show ?thesis by (simp add: with_via_name_def)
  qed
  then have "built ?c"
    by (rule built.intros(4) [OF built.intros(10) [OF built.intros(1)]])
  then show ?thesis by (rule built_config_invariant [THEN conjunct1])
qed

text \<open>
  Choosing the supported protocol versions panics for every set of versions, whatever
  order the tables are visited in: each version is compared with both table entries and the one
  it does not match panics, so \<^verbatim>\<open>with_supported_cranker_version\<close> cannot be used.
\<close>

lemma with_supported_cranker_version_panics:
  assumes "set table = set SUPPORTED_CRANKER_VERSION"
  shows "with_supported_cranker_version table c versions = Panic"
  by (simp add: with_supported_cranker_version_def check_supported_panics [OF assms])

text \<open>
  A connector is accepted only from an address the validator allows, never with the
  TRACE method, and with one of the two versions the router speaks; every refusal is a 405, 403
  or 400, and an address that is not allowed always gets the 403.
\<close>

lemma registration_guard:
  assumes "built cfg" and "reg_check_and_extract H dbg cfg uuid meth headers params ip = Ret r"
  shows "(case r of
      Inr info \<Rightarrow> registration_ip_validator cfg ip \<and> meth \<noteq> ''TRACE'' \<and>
        ci_negotiated_cranker_version info \<in> {CRANKER_V_1_0, CRANKER_V_3_0}
    | Inl (status, body) \<Rightarrow> status = (if meth = ''TRACE'' then 405
        else if registration_ip_validator cfg ip then 400 else 403))"
proof -
  have "supported_cranker_protocols cfg = SUPPORTED_CRANKER_VERSION"
    using built_config_ok [OF assms(1)] by (simp add: config_ok_def)
  then have "v \<in> {CRANKER_V_1_0, CRANKER_V_3_0}"
    if "extract_cranker_version H dbg (supported_cranker_protocols cfg) headers = Ret (Inr v)" for v
    using extract_version_range supported_range that by metis
  with assms(2) show ?thesis
    by (cases rule: reg_check_cases) simp_all
qed

lemma registration_guard_witness:
  "reg_check_and_extract lhm (\<lambda>_. []) (builder_new ()) ''u'' ''GET''
     [(''Sec-WebSocket-Protocol'', ''cranker_1.0''), (''Route'', ''api'')] [] ''10.0.0.1'' =
   Ret (Inr \<lparr>ci_connector_id = ''u'', ci_route = ''api'', ci_component_name = ''unknown-u'',
     ci_domain = ''*'', ci_negotiated_cranker_version = CRANKER_V_1_0\<rparr>) \<and>
   CRANKER_V_1_0 \<in> {CRANKER_V_1_0, CRANKER_V_3_0}"
proof -
  have eq: "reg_check_and_extract lhm (\<lambda>_. []) (builder_new ()) ''u'' ''GET''
     [(''Sec-WebSocket-Protocol'', ''cranker_1.0''), (''Route'', ''api'')] [] ''10.0.0.1'' =
   Ret (Inr \<lparr>ci_connector_id = ''u'', ci_route = ''api'', ci_component_name = ''unknown-u'',
     ci_domain = ''*'', ci_negotiated_cranker_version = CRANKER_V_1_0\<rparr>)"
  proof -
    have "extract_cranker_version lhm (\<lambda>_. []) SUPPORTED_CRANKER_VERSION
        [(''Sec-WebSocket-Protocol'', ''cranker_1.0''), (''Route'', ''api'')] = Ret (Inr CRANKER_V_1_0)"
      by code_simp
    moreover have "hm_get_str lhm [(''Sec-WebSocket-Protocol'', ''cranker_1.0''), (''Route'', ''api'')] ''Route'' = Some ''api''"
      "hm_get_str lhm [(''Sec-WebSocket-Protocol'', ''cranker_1.0''), (''Route'', ''api'')] ''Domain'' = None"
      "chars ''u'' = [''u'']"
      by code_simp+
    ultimately show ?thesis
      by (simp add: reg_check_and_extract_def builder_new_def Let_def)
  qed
  from registration_guard [OF built.intros(1) this] eq show ?thesis by simp
qed

end
