(* ===== verification/Forwarded.thy ===== *)
theory Forwarded
  imports Exceptions
begin

text \<open>
  \<^verbatim>\<open>ForwardedHeader\<close> of \<^verbatim>\<open>src/src/http_utils.rs\<close>: the parser and the printer of \<^verbatim>\<open>Forwarded\<close> header
  values. Header values reach the parser through \<^verbatim>\<open>HeaderValue::to_str\<close>, so they are ASCII and a
  character is a byte. \<^verbatim>\<open>hashlink::LinkedHashMap\<close> keeps its pairs in a list; an insertion puts the
  pair at the back.
\<close>

section \<open>Character classes\<close>

definition is_t_char :: "char \<Rightarrow> bool" where
  "is_t_char c \<longleftrightarrow>
     (code CHR ''a'' \<le> code c \<and> code c \<le> code CHR ''z'') \<or>
     (code CHR ''A'' \<le> code c \<and> code c \<le> code CHR ''Z'') \<or>
     (code CHR ''0'' \<le> code c \<and> code c \<le> code CHR ''9'') \<or>
     c = CHR ''!'' \<or> c = CHR ''#'' \<or> c = CHR ''$'' \<or> c = CHR ''%'' \<or> c = CHR ''&'' \<or>
     c = CHR 0x27 \<or> c = CHR ''*'' \<or> c = CHR ''+'' \<or> c = CHR ''-'' \<or> c = CHR ''.'' \<or>
     c = CHR ''^'' \<or> c = CHR ''_'' \<or> c = CHR 0x60 \<or> c = CHR ''|'' \<or> c = CHR ''~''"

definition is_ows :: "char \<Rightarrow> bool" where
  "is_ows c \<longleftrightarrow> c = CHR '' '' \<or> c = CHR 0x09"

definition is_v_char :: "char \<Rightarrow> bool" where
  "is_v_char c \<longleftrightarrow> 0x21 \<le> code c \<and> code c \<le> 0x7E"

section \<open>The header value\<close>

record forwarded_header =
  fh_by :: "string option"
  fh_for_value :: "string option"
  fh_host :: "string option"
  fh_proto :: "string option"
  fh_extensions :: "(string \<times> string) list option"

datatype fh_parse_state = ParamName | ParamValue

fun debug_fh_state :: "fh_parse_state \<Rightarrow> string" where
  "debug_fh_state ParamName = ''ParamName''"
| "debug_fh_state ParamValue = ''ParamValue''"

text \<open>The variables of one round of the outer loop.\<close>

record fh_vars =
  v_state :: fh_parse_state
  v_buffer :: string
  v_param_name :: "string option"
  v_by :: "string option"
  v_for_value :: "string option"
  v_host :: "string option"
  v_proto :: "string option"
  v_extensions :: "(string \<times> string) list"
  v_is_quoted_string :: bool

definition fh_vars_init :: fh_vars where
  "fh_vars_init = \<lparr>v_state = ParamName, v_buffer = [], v_param_name = None, v_by = None,
     v_for_value = None, v_host = None, v_proto = None, v_extensions = [],
     v_is_quoted_string = False\<rparr>"

definition linked_insert :: "('k \<times> 'v) list \<Rightarrow> 'k \<Rightarrow> 'v \<Rightarrow> ('k \<times> 'v) list" where
  "linked_insert m k v = filter (\<lambda>(k', _). k' \<noteq> k) m @ [(k, v)]"

definition fh_error :: "string \<Rightarrow> crex" where
  "fh_error msg = with_err_kind (crex_new msg) ForwardedHeaderParserError_0008"

text \<open>Storing a finished value under its parameter name.\<close>

definition store_param :: "fh_vars \<Rightarrow> fh_vars res" where
  "store_param s =
     (let val = v_buffer s
      in case v_param_name s of
           None \<Rightarrow> Inl (fh_error
             ''Illegal state: should already parsing forwarded header value but param name still None'')
         | Some pn \<Rightarrow>
             let pn = to_lowercase pn
             in Inr (if pn = ''by'' then s\<lparr>v_by := Some val\<rparr>
                     else if pn = ''for'' then s\<lparr>v_for_value := Some val\<rparr>
                     else if pn = ''host'' then s\<lparr>v_host := Some val\<rparr>
                     else if pn = ''proto'' then s\<lparr>v_proto := Some val\<rparr>
                     else s\<lparr>v_extensions := linked_insert (v_extensions s) pn val\<rparr>))"

section \<open>The parser\<close>

text \<open>
  The loop labelled \<^verbatim>\<open>header_value_loop\<close>: \<open>last_char\<close> is the character before the rest of the
  input. The result holds the variables and the input left when the loop ends or breaks.
\<close>

fun header_value_loop :: "fh_vars \<Rightarrow> char \<Rightarrow> string \<Rightarrow> (fh_vars \<times> string) res" where
  "header_value_loop s last_char [] = Inr (s, [])"
| "header_value_loop s last_char (c # cs) =
     (if v_state s = ParamName then
        (if c = CHR '','' \<and> v_buffer s = [] then Inr (s, cs)
         else if c = CHR ''='' then
           header_value_loop
             (s\<lparr>v_param_name := Some (v_buffer s), v_buffer := [], v_state := ParamValue\<rparr>) c cs
         else if is_t_char c then header_value_loop (s\<lparr>v_buffer := v_buffer s @ [c]\<rparr>) c cs
         else if is_ows c then
           (if v_buffer s \<noteq> [] then
              Inl (fh_error (''Got whitespace in parameter name while in '' @
                     debug_fh_state (v_state s) @ '' - header was '' @ v_buffer s))
            else header_value_loop s c cs)
         else Inl (fh_error (''Got ascii '' @ show_nat (code c) @ '' while in '' @
                     debug_fh_state (v_state s))))
      else
        (let is_first = (\<not> v_is_quoted_string s \<and> v_buffer s = [])
         in if is_first \<and> is_ows c then header_value_loop s c cs
            else if is_first \<and> c = CHR 0x22 then
              header_value_loop (s\<lparr>v_is_quoted_string := True\<rparr>) c cs
            else if v_is_quoted_string s then
              (if c = CHR 0x5C then header_value_loop s c cs
               else if last_char = CHR 0x5C then
                 header_value_loop (s\<lparr>v_buffer := v_buffer s @ [c]\<rparr>) c cs
               else if c = CHR 0x22 then
                 header_value_loop (s\<lparr>v_is_quoted_string := False\<rparr>) c cs
               else header_value_loop (s\<lparr>v_buffer := v_buffer s @ [c]\<rparr>) c cs)
            else if c = CHR '';'' then
              (case store_param s of
                 Inl e \<Rightarrow> Inl e
               | Inr s' \<Rightarrow> header_value_loop
                   (s'\<lparr>v_buffer := [], v_param_name := None, v_state := ParamName\<rparr>) c cs)
            else if c = CHR '','' then Inr (s, cs)
            else if is_v_char c then
              header_value_loop (s\<lparr>v_buffer := v_buffer s @ [c]\<rparr>) c cs
            else if is_ows c then header_value_loop s c cs
            else Inl (fh_error (''Got character code '' @ show_nat (code c) @ '' ('' @ [c] @
                        '') while parsing param value''))))"

declare header_value_loop.simps(2) [simp del]

text \<open>What follows the inner loop: the last value is stored, or a dangling name is refused.\<close>

definition finish_header :: "string \<Rightarrow> fh_vars \<Rightarrow> forwarded_header res" where
  "finish_header input s =
     (case (case v_state s of
              ParamValue \<Rightarrow> store_param s
            | ParamName \<Rightarrow>
                if v_buffer s \<noteq> [] then
                  Inl (fh_error (''Unexpected ending point at state '' @
                         debug_fh_state (v_state s) @ '' for '' @ input))
                else Inr s) of
        Inl e \<Rightarrow> Inl e
      | Inr s' \<Rightarrow>
          Inr \<lparr>fh_by = v_by s', fh_for_value = v_for_value s', fh_host = v_host s',
               fh_proto = v_proto s',
               fh_extensions = (if v_extensions s' \<noteq> [] then Some (v_extensions s') else None)\<rparr>)"

lemma header_value_loop_length:
  "header_value_loop s l cs = Inr (s', rest) \<Longrightarrow> length rest \<le> length cs"
proof (induction cs arbitrary: s l)
  case (Cons c cs)
  from Cons.prems show ?case
    unfolding header_value_loop.simps(2) Let_def
    by (auto split: if_splits sum.splits dest!: Cons.IH)
qed simp

lemma header_value_loop_shorter:
  "header_value_loop s l (c # cs) = Inr (s', rest) \<Longrightarrow> length rest < length (c # cs)"
  unfolding header_value_loop.simps(2) Let_def
  by (auto split: if_splits sum.splits dest!: header_value_loop_length)

text \<open>The outer loop: one header per round, until the input is used up.\<close>

function from_string_loop ::
    "string \<Rightarrow> string \<Rightarrow> forwarded_header list \<Rightarrow> forwarded_header list res" where
  "from_string_loop input [] results = Inr results"
| "from_string_loop input (c # cs) results =
     (case header_value_loop fh_vars_init CHR 0x00 (c # cs) of
        Inl e \<Rightarrow> Inl e
      | Inr (s, rest) \<Rightarrow>
          (case finish_header input s of
             Inl e \<Rightarrow> Inl e
           | Inr fh \<Rightarrow> from_string_loop input rest (results @ [fh])))"
  by pat_completeness auto
termination
  by (relation "measure (\<lambda>(input, cs, results). length cs)")
     (auto dest!: header_value_loop_shorter)

definition from_string :: "string \<Rightarrow> forwarded_header list res" where
  "from_string input =
     (if trim input = [] then Inr [] else from_string_loop input input [])"

section \<open>The printer\<close>

definition quote_if_needed :: "string \<Rightarrow> string" where
  "quote_if_needed s =
     (if \<not> list_all is_t_char s
      then [CHR 0x22] @ replace_char CHR 0x22 [CHR 0x5C, CHR 0x22] s @ [CHR 0x22]
      else s)"

definition append_string_for_forwarded_header ::
    "string \<Rightarrow> string \<Rightarrow> string option \<Rightarrow> string" where
  "append_string_for_forwarded_header sb k v =
     (case v of
        None \<Rightarrow> sb
      | Some unwrapped \<Rightarrow>
          (if sb \<noteq> [] then sb @ '';'' else sb) @ k @ ''='' @ quote_if_needed unwrapped)"

definition forwarded_to_string :: "forwarded_header \<Rightarrow> string" where
  "forwarded_to_string fh =
     (let sb = [];
          sb = append_string_for_forwarded_header sb ''by'' (fh_by fh);
          sb = append_string_for_forwarded_header sb ''for'' (fh_for_value fh);
          sb = append_string_for_forwarded_header sb ''host'' (fh_host fh);
          sb = append_string_for_forwarded_header sb ''proto'' (fh_proto fh)
      in case fh_extensions fh of
           None \<Rightarrow> sb
         | Some m \<Rightarrow> foldl (\<lambda>sb (k, v). append_string_for_forwarded_header sb k (Some v)) sb m)"

section \<open>The printer over name-value pairs\<close>

definition opt_pair :: "string \<Rightarrow> string option \<Rightarrow> (string \<times> string) list" where
  "opt_pair k v = (case v of None \<Rightarrow> [] | Some x \<Rightarrow> [(k, x)])"

definition fh_pairs :: "forwarded_header \<Rightarrow> (string \<times> string) list" where
  "fh_pairs fh = opt_pair ''by'' (fh_by fh) @ opt_pair ''for'' (fh_for_value fh) @
     opt_pair ''host'' (fh_host fh) @ opt_pair ''proto'' (fh_proto fh) @
     (case fh_extensions fh of None \<Rightarrow> [] | Some m \<Rightarrow> m)"

definition print_pair :: "string \<times> string \<Rightarrow> string" where
  "print_pair p = fst p @ ''='' @ quote_if_needed (snd p)"

definition add_pair :: "string \<Rightarrow> string \<times> string \<Rightarrow> string" where
  "add_pair sb p = (if sb \<noteq> [] then sb @ '';'' else sb) @ print_pair p"

lemma append_string_foldl:
  "append_string_for_forwarded_header sb k v = foldl add_pair sb (opt_pair k v)"
  by (cases v) (auto simp: append_string_for_forwarded_header_def opt_pair_def add_pair_def
    print_pair_def)

lemma forwarded_to_string_foldl: "forwarded_to_string fh = foldl add_pair [] (fh_pairs fh)"
proof -
  have "foldl (\<lambda>sb (k, v). append_string_for_forwarded_header sb k (Some v)) sb m =
      foldl add_pair sb m" for sb m
    by (induction m arbitrary: sb) (auto simp: append_string_foldl opt_pair_def)
  then show ?thesis
    by (cases "fh_extensions fh")
       (simp_all add: forwarded_to_string_def fh_pairs_def append_string_foldl Let_def)
qed

lemma foldl_add_pair:
  "foldl add_pair sb ps =
     (if ps = [] then sb else if sb = [] then join '';'' (map print_pair ps)
      else sb @ '';'' @ join '';'' (map print_pair ps))"
proof (induction ps arbitrary: sb)
  case (Cons p ps)
  have ne: "add_pair sb p \<noteq> []" by (simp add: add_pair_def print_pair_def)
  show ?case
    using Cons.IH [of "add_pair sb p"] ne
    by (cases ps) (auto simp: add_pair_def join_Cons_ne)
qed simp

lemma forwarded_to_string_pairs:
  "forwarded_to_string fh = join '';'' (map print_pair (fh_pairs fh))"
  by (simp add: forwarded_to_string_foldl foldl_add_pair)

section \<open>The parser on printed text\<close>

lemmas hvl_step = header_value_loop.simps(2)

lemma t_char_props:
  assumes "is_t_char c"
  shows "c \<noteq> CHR '',''" "c \<noteq> CHR ''=''" "c \<noteq> CHR '';''" "c \<noteq> CHR 0x22" "c \<noteq> CHR 0x5C"
    "\<not> is_ows c" "is_v_char c"
  using assms by (auto simp: is_t_char_def is_ows_def is_v_char_def code_def)

lemma hvl_last_char:
  "\<not> v_is_quoted_string s \<Longrightarrow> header_value_loop s l cs = header_value_loop s l' cs"
  by (cases cs) (simp_all add: hvl_step Let_def)

lemma hvl_name:
  "list_all is_t_char k \<Longrightarrow> v_state s = ParamName \<Longrightarrow> \<not> v_is_quoted_string s \<Longrightarrow>
   header_value_loop s l (k @ cs) = header_value_loop (s\<lparr>v_buffer := v_buffer s @ k\<rparr>) l cs"
proof (induction k arbitrary: s l)
  case (Cons c k)
  then have "header_value_loop s l ((c # k) @ cs) =
      header_value_loop (s\<lparr>v_buffer := v_buffer s @ [c]\<rparr>) c (k @ cs)"
    by (simp add: hvl_step t_char_props)
  also have "\<dots> = header_value_loop (s\<lparr>v_buffer := v_buffer s @ c # k\<rparr>) c cs"
    using Cons by simp
  also have "\<dots> = header_value_loop (s\<lparr>v_buffer := v_buffer s @ c # k\<rparr>) l cs"
    using Cons.prems by (intro hvl_last_char) simp
  finally show ?case .
qed simp

lemma hvl_raw_value:
  "list_all is_t_char v \<Longrightarrow> v_state s = ParamValue \<Longrightarrow> \<not> v_is_quoted_string s \<Longrightarrow>
   header_value_loop s l (v @ cs) = header_value_loop (s\<lparr>v_buffer := v_buffer s @ v\<rparr>) l cs"
proof (induction v arbitrary: s l)
  case (Cons c v)
  then have "header_value_loop s l ((c # v) @ cs) =
      header_value_loop (s\<lparr>v_buffer := v_buffer s @ [c]\<rparr>) c (v @ cs)"
    by (simp add: hvl_step t_char_props Let_def)
  also have "\<dots> = header_value_loop (s\<lparr>v_buffer := v_buffer s @ c # v\<rparr>) c cs"
    using Cons by simp
  also have "\<dots> = header_value_loop (s\<lparr>v_buffer := v_buffer s @ c # v\<rparr>) l cs"
    using Cons.prems by (intro hvl_last_char) simp
  finally show ?case .
qed simp

lemma hvl_quoted_value:
  "CHR 0x5C \<notin> set v \<Longrightarrow> v_state s = ParamValue \<Longrightarrow> v_is_quoted_string s \<Longrightarrow> l \<noteq> CHR 0x5C \<Longrightarrow>
   header_value_loop s l (replace_char CHR 0x22 [CHR 0x5C, CHR 0x22] v @ CHR 0x22 # cs) =
     header_value_loop (s\<lparr>v_buffer := v_buffer s @ v, v_is_quoted_string := False\<rparr>) CHR 0x22 cs"
proof (induction v arbitrary: s l)
  case Nil
  then show ?case by (simp add: replace_char_def hvl_step Let_def)
next
  case (Cons c v)
  let ?s = "s\<lparr>v_buffer := v_buffer s @ [c]\<rparr>"
  have "header_value_loop s l
      (replace_char CHR 0x22 [CHR 0x5C, CHR 0x22] (c # v) @ CHR 0x22 # cs) =
      header_value_loop ?s c (replace_char CHR 0x22 [CHR 0x5C, CHR 0x22] v @ CHR 0x22 # cs)"
    using Cons.prems by (cases "c = CHR 0x22") (auto simp: replace_char_def hvl_step Let_def)
  with Cons.IH [of ?s c] Cons.prems show ?case by auto
qed

lemma hvl_value:
  assumes "CHR 0x5C \<notin> set v" "v_state s = ParamValue" "\<not> v_is_quoted_string s" "v_buffer s = []"
  shows "header_value_loop s l (quote_if_needed v @ cs) =
           header_value_loop (s\<lparr>v_buffer := v\<rparr>) l cs"
proof (cases "list_all is_t_char v")
  case True
  with assms show ?thesis by (simp add: quote_if_needed_def hvl_raw_value)
next
  case False
  have "\<not> is_ows CHR 0x22" by (simp add: is_ows_def)
  with False assms have "header_value_loop s l (quote_if_needed v @ cs) =
      header_value_loop (s\<lparr>v_is_quoted_string := True\<rparr>) CHR 0x22
        (replace_char CHR 0x22 [CHR 0x5C, CHR 0x22] v @ CHR 0x22 # cs)"
    by (simp add: quote_if_needed_def hvl_step Let_def)
  also have "\<dots> = header_value_loop (s\<lparr>v_buffer := v\<rparr>) CHR 0x22 cs"
    using assms by (cases s) (simp add: hvl_quoted_value)
  also have "\<dots> = header_value_loop (s\<lparr>v_buffer := v\<rparr>) l cs"
    using assms by (intro hvl_last_char) simp
  finally show ?thesis .
qed

definition name_ok :: "string \<Rightarrow> bool" where
  "name_ok k \<longleftrightarrow> list_all is_t_char k \<and> to_lowercase k = k"

definition value_ok :: "string \<Rightarrow> bool" where
  "value_ok v \<longleftrightarrow> list_all is_ascii v \<and> CHR 0x5C \<notin> set v"

definition pair_ok :: "string \<times> string \<Rightarrow> bool" where
  "pair_ok p \<longleftrightarrow> name_ok (fst p) \<and> value_ok (snd p)"

text \<open>The variables between two parameters, and while the value of a pair has been read.\<close>

definition at_name :: "fh_vars \<Rightarrow> bool" where
  "at_name s \<longleftrightarrow> v_state s = ParamName \<and> v_buffer s = [] \<and> \<not> v_is_quoted_string s \<and>
     v_param_name s = None"

definition read_pair :: "fh_vars \<Rightarrow> string \<times> string \<Rightarrow> fh_vars" where
  "read_pair s p =
     s\<lparr>v_state := ParamValue, v_param_name := Some (fst p), v_buffer := snd p\<rparr>"

definition assign :: "fh_vars \<Rightarrow> string \<times> string \<Rightarrow> fh_vars" where
  "assign s p =
     (if fst p = ''by'' then s\<lparr>v_by := Some (snd p)\<rparr>
      else if fst p = ''for'' then s\<lparr>v_for_value := Some (snd p)\<rparr>
      else if fst p = ''host'' then s\<lparr>v_host := Some (snd p)\<rparr>
      else if fst p = ''proto'' then s\<lparr>v_proto := Some (snd p)\<rparr>
      else s\<lparr>v_extensions := linked_insert (v_extensions s) (fst p) (snd p)\<rparr>)"

definition header_of :: "fh_vars \<Rightarrow> forwarded_header" where
  "header_of s = \<lparr>fh_by = v_by s, fh_for_value = v_for_value s, fh_host = v_host s,
     fh_proto = v_proto s,
     fh_extensions = (if v_extensions s \<noteq> [] then Some (v_extensions s) else None)\<rparr>"

lemma hvl_pair:
  assumes "pair_ok p" "at_name s"
  shows "header_value_loop s l (print_pair p @ cs) = header_value_loop (read_pair s p) l cs"
proof -
  have "header_value_loop s l (print_pair p @ cs) =
      header_value_loop (s\<lparr>v_buffer := fst p\<rparr>) l (CHR ''='' # quote_if_needed (snd p) @ cs)"
    using assms hvl_name [of "fst p" s l]
    by (simp add: print_pair_def pair_ok_def name_ok_def at_name_def)
  also have "\<dots> = header_value_loop
      (s\<lparr>v_param_name := Some (fst p), v_buffer := [], v_state := ParamValue\<rparr>) CHR ''=''
      (quote_if_needed (snd p) @ cs)"
    using assms by (simp add: hvl_step at_name_def)
  also have "\<dots> = header_value_loop
      (read_pair s p) CHR ''='' cs"
    using assms unfolding read_pair_def
    by (cases s) (simp add: hvl_value pair_ok_def value_ok_def at_name_def)
  also have "\<dots> = header_value_loop (read_pair s p) l cs"
    using assms by (intro hvl_last_char) (simp add: at_name_def read_pair_def)
  finally show ?thesis .
qed

lemma store_read_pair:
  "pair_ok p \<Longrightarrow> store_param (read_pair s p) = Inr (assign (read_pair s p) p)"
  by (auto simp: store_param_def read_pair_def assign_def pair_ok_def name_ok_def Let_def)

lemma reset_assign:
  "at_name s \<Longrightarrow>
   (assign (read_pair s p) p)\<lparr>v_buffer := [], v_param_name := None, v_state := ParamName\<rparr> =
     assign s p"
  by (auto simp: assign_def read_pair_def at_name_def)

lemma at_name_assign: "at_name s \<Longrightarrow> at_name (assign s p)"
  by (auto simp: assign_def at_name_def)

lemma hvl_semicolon:
  assumes "pair_ok p" "at_name s"
  shows "header_value_loop (read_pair s p) l (CHR '';'' # cs) = header_value_loop (assign s p) l cs"
proof -
  have "v_state (read_pair s p) = ParamValue" "\<not> v_is_quoted_string (read_pair s p)"
    using assms by (auto simp: read_pair_def at_name_def)
  then have "header_value_loop (read_pair s p) l (CHR '';'' # cs) =
      header_value_loop (assign s p) CHR '';'' cs"
    using assms by (simp add: hvl_step Let_def is_ows_def store_read_pair reset_assign)
  also have "\<dots> = header_value_loop (assign s p) l cs"
    using at_name_assign [OF assms(2), of p] by (intro hvl_last_char) (simp add: at_name_def)
  finally show ?thesis .
qed

lemma finish_read_pair:
  "pair_ok p \<Longrightarrow> finish_header input (read_pair s p) = Inr (header_of (assign s p))"
  using store_read_pair [of p s]
  by (auto simp: finish_header_def read_pair_def assign_def header_of_def split: if_splits)

definition ends_header :: "string \<Rightarrow> string \<Rightarrow> bool" where
  "ends_header cs rest \<longleftrightarrow> cs = [] \<and> rest = [] \<or> cs = CHR '','' # rest"

lemma hvl_end:
  assumes "at_name s" "ends_header cs rest"
  shows "header_value_loop (read_pair s p) l cs = Inr (read_pair s p, rest)"
  using assms
  by (auto simp: ends_header_def hvl_step Let_def read_pair_def at_name_def is_ows_def)

lemma parse_pairs:
  "ps \<noteq> [] \<Longrightarrow> list_all pair_ok ps \<Longrightarrow> at_name s \<Longrightarrow> ends_header cs rest \<Longrightarrow>
   \<exists>s'. header_value_loop s l (join '';'' (map print_pair ps) @ cs) = Inr (s', rest) \<and>
        finish_header input s' = Inr (header_of (foldl assign s ps))"
proof (induction ps arbitrary: s)
  case (Cons p ps)
  show ?case
  proof (cases ps)
    case Nil
    with Cons.prems show ?thesis by (auto simp: hvl_pair hvl_end finish_read_pair)
  next
    case (Cons q qs)
    have "header_value_loop s l (join '';'' (map print_pair (p # ps)) @ cs) =
        header_value_loop (assign s p) l (join '';'' (map print_pair ps) @ cs)"
      using Cons.prems \<open>ps = q # qs\<close> by (simp add: hvl_pair hvl_semicolon)
    with Cons.IH [of "assign s p"] Cons.prems \<open>ps = q # qs\<close> show ?thesis
      by (simp add: at_name_assign)
  qed
qed simp

section \<open>Headers that survive printing\<close>

definition fh_ok :: "forwarded_header \<Rightarrow> bool" where
  "fh_ok fh \<longleftrightarrow> fh_pairs fh \<noteq> [] \<and> list_all pair_ok (fh_pairs fh) \<and>
     (case fh_extensions fh of
        None \<Rightarrow> True
      | Some m \<Rightarrow> m \<noteq> [] \<and> distinct (map fst m) \<and>
          list_all (\<lambda>k. k \<notin> {''by'', ''for'', ''host'', ''proto''}) (map fst m))"

lemma linked_insert_new: "k \<notin> fst ` set m \<Longrightarrow> linked_insert m k v = m @ [(k, v)]"
  unfolding linked_insert_def by (auto simp: filter_id_conv image_iff)

lemma foldl_assign_extensions:
  "distinct (map fst (v_extensions s @ m)) \<Longrightarrow>
   list_all (\<lambda>k. k \<notin> {''by'', ''for'', ''host'', ''proto''}) (map fst m) \<Longrightarrow>
   foldl assign s m = s\<lparr>v_extensions := v_extensions s @ m\<rparr>"
proof (induction m arbitrary: s)
  case (Cons p m)
  have "fst p \<notin> fst ` set (v_extensions s)" using Cons.prems by auto
  then have "assign s p = s\<lparr>v_extensions := v_extensions s @ [p]\<rparr>"
    using Cons.prems by (simp add: assign_def linked_insert_new)
  with Cons show ?case by simp
qed simp

lemma header_of_pairs:
  assumes "fh_ok fh"
  shows "header_of (foldl assign fh_vars_init (fh_pairs fh)) = fh"
proof -
  let ?exts = "case fh_extensions fh of None \<Rightarrow> [] | Some m \<Rightarrow> m"
  let ?s = "fh_vars_init\<lparr>v_by := fh_by fh, v_for_value := fh_for_value fh, v_host := fh_host fh,
    v_proto := fh_proto fh\<rparr>"
  have "foldl assign fh_vars_init (fh_pairs fh) = foldl assign ?s ?exts"
    by (cases "fh_by fh"; cases "fh_for_value fh"; cases "fh_host fh"; cases "fh_proto fh")
       (simp_all add: fh_pairs_def opt_pair_def assign_def fh_vars_init_def)
  also have "\<dots> = ?s\<lparr>v_extensions := ?exts\<rparr>"
    using assms
    by (subst foldl_assign_extensions) (auto simp: fh_ok_def fh_vars_init_def split: option.splits)
  finally show ?thesis
    using assms by (cases fh) (auto simp: header_of_def fh_ok_def fh_vars_init_def split: option.splits)
qed

lemma trim_not_empty: "is_ascii c \<Longrightarrow> \<not> ascii_ws c \<Longrightarrow> trim (c # cs) \<noteq> []"
proof
  assume c: "is_ascii c" "\<not> ascii_ws c" and "trim (c # cs) = []"
  have "chars (c # cs) = [c] # chars cs"
    using c(1) by (simp add: utf8_width_def is_ascii_def)
  moreover have "\<not> is_whitespace [c]" using c(2) by (simp add: is_whitespace_single)
  ultimately have "[c] \<in> set (rev (dropWhile is_whitespace
      (rev (dropWhile is_whitespace (chars (c # cs))))))"
    by (simp add: dropWhile_append del: chars.simps)
  with \<open>trim (c # cs) = []\<close> show False by (force simp: trim_def)
qed

lemma print_pair_head:
  assumes "pair_ok p"
  obtains c cs where "print_pair p = c # cs" "is_ascii c" "\<not> ascii_ws c"
proof (cases "fst p")
  case Nil
  then show ?thesis
    using that [of "CHR ''=''" "quote_if_needed (snd p)"]
    by (simp add: print_pair_def is_ascii_def ascii_ws_def code_def)
next
  case (Cons c k)
  with assms have "is_t_char c" by (simp add: pair_ok_def name_ok_def)
  then have "is_ascii c" "\<not> ascii_ws c"
    by (auto simp: is_t_char_def is_ascii_def ascii_ws_def code_def)
  with Cons that show ?thesis by (simp add: print_pair_def)
qed

lemma join_head: "ys \<noteq> [] \<Longrightarrow> hd ys = c # cs \<Longrightarrow> \<exists>r. join sep ys = c # r"
  by (cases ys; cases "tl ys") auto

lemma printed_head:
  assumes "fh_ok fh"
  shows "\<exists>c r. forwarded_to_string fh = c # r \<and> is_ascii c \<and> \<not> ascii_ws c"
proof -
  from assms obtain p ps where ps: "fh_pairs fh = p # ps" "pair_ok p"
    by (cases "fh_pairs fh") (auto simp: fh_ok_def)
  then show ?thesis
    using join_head [of "map print_pair (fh_pairs fh)"]
    by (metis print_pair_head forwarded_to_string_pairs list.map_sel(1) list.sel(1) list.simps(3)
        map_is_Nil_conv)
qed

lemma parse_one:
  assumes "fh_ok fh" "ends_header cs rest"
  shows "\<exists>s. header_value_loop fh_vars_init l (forwarded_to_string fh @ cs) = Inr (s, rest) \<and>
             finish_header input s = Inr fh"
proof -
  have "at_name fh_vars_init" by (simp add: at_name_def fh_vars_init_def)
  moreover have "fh_pairs fh \<noteq> []" "list_all pair_ok (fh_pairs fh)"
    using assms(1) by (simp_all add: fh_ok_def)
  ultimately show ?thesis
    using parse_pairs [of "fh_pairs fh" fh_vars_init cs rest l input] assms(2)
    by (simp add: forwarded_to_string_pairs header_of_pairs [OF assms(1)])
qed

lemma from_string_loop_printed:
  "list_all fh_ok fhs \<Longrightarrow>
   from_string_loop input (join '','' (map forwarded_to_string fhs)) acc = Inr (acc @ fhs)"
proof (induction fhs arbitrary: acc)
  case (Cons fh fhs)
  let ?rest = "join '','' (map forwarded_to_string fhs)"
  let ?cs = "if fhs = [] then [] else CHR '','' # ?rest"
  have printed: "join '','' (map forwarded_to_string (fh # fhs)) = forwarded_to_string fh @ ?cs"
    by (cases fhs) auto
  have "ends_header ?cs ?rest" by (auto simp: ends_header_def)
  then obtain s where s: "header_value_loop fh_vars_init CHR 0x00 (forwarded_to_string fh @ ?cs) =
      Inr (s, ?rest)" "finish_header input s = Inr fh"
    using parse_one [of fh ?cs ?rest] Cons.prems by auto
  obtain c r where "forwarded_to_string fh = c # r"
    using printed_head [of fh] Cons.prems by auto
  with s Cons have "from_string_loop input (forwarded_to_string fh @ ?cs) acc = Inr (acc @ fh # fhs)"
    by simp
  then show ?case unfolding printed .
qed simp

lemma fh_error_kind [simp]: "opt_err_kind (fh_error m) = Some ForwardedHeaderParserError_0008"
  by (simp add: fh_error_def)

lemma store_param_error:
  "store_param s = Inl e \<Longrightarrow> opt_err_kind e = Some ForwardedHeaderParserError_0008"
  by (auto simp: store_param_def Let_def split: option.splits)

lemma header_value_loop_error:
  "header_value_loop s l cs = Inl e \<Longrightarrow> opt_err_kind e = Some ForwardedHeaderParserError_0008"
proof (induction cs arbitrary: s l)
  case (Cons c cs)
  from Cons.prems show ?case
    unfolding hvl_step Let_def
    by (auto split: if_splits sum.splits dest: Cons.IH store_param_error)
qed simp

lemma finish_header_error:
  "finish_header input s = Inl e \<Longrightarrow> opt_err_kind e = Some ForwardedHeaderParserError_0008"
  by (auto simp: finish_header_def split: sum.splits fh_parse_state.splits if_splits
      dest: store_param_error)

section \<open>Properties\<close>

text \<open>
  Claim C12: printing a list of forwarded headers, separated by commas, and parsing the text gives
  the list back: every parameter, the order of the extensions, quoted values with quotes, commas,
  semicolons or blanks inside. It holds for headers with at least one parameter whose values are
  ASCII without backslashes and whose extension names are distinct lower-case tokens.
\<close>

theorem forwarded_roundtrip:
  assumes "fhs \<noteq> []" and "list_all fh_ok fhs"
  shows "from_string (join '','' (map forwarded_to_string fhs)) = Inr fhs"
proof -
  from assms obtain fh fhs' where f: "fhs = fh # fhs'" "fh_ok fh" by (cases fhs) auto
  then obtain c r where h: "forwarded_to_string fh = c # r" "is_ascii c" "\<not> ascii_ws c"
    using printed_head by blast
  then obtain r' where "join '','' (map forwarded_to_string fhs) = c # r'"
    using join_head [of "map forwarded_to_string fhs" c r] f by auto
  then have "trim (join '','' (map forwarded_to_string fhs)) \<noteq> []"
    using h trim_not_empty by simp
  then show ?thesis
    using from_string_loop_printed [OF assms(2), of _ "[]"] by (simp add: from_string_def)
qed

theorem forwarded_roundtrip_witness:
  "from_string (join '','' (map forwarded_to_string
     [\<lparr>fh_by = Some ''10.0.0.1'', fh_for_value = Some ''[::1]'', fh_host = Some ''example.org:8080'',
       fh_proto = Some ''https'', fh_extensions = Some [(''secret'', ''a,b;c'')]\<rparr>])) =
   Inr [\<lparr>fh_by = Some ''10.0.0.1'', fh_for_value = Some ''[::1]'', fh_host = Some ''example.org:8080'',
       fh_proto = Some ''https'', fh_extensions = Some [(''secret'', ''a,b;c'')]\<rparr>]"
  by (rule forwarded_roundtrip) (code_simp, code_simp)

text \<open>
  Every error of the parser carries the parser's error kind, so a caller can tell a
  malformed header from any other failure.
\<close>

lemma from_string_error_kind:
  assumes "from_string input = Inl e"
  shows "opt_err_kind e = Some ForwardedHeaderParserError_0008"
proof -
  have "from_string_loop input cs acc = Inl e \<Longrightarrow>
      opt_err_kind e = Some ForwardedHeaderParserError_0008" for cs acc
    by (induction input cs acc rule: from_string_loop.induct)
       (auto split: sum.splits dest: header_value_loop_error finish_header_error)
  with assms show ?thesis by (auto simp: from_string_def split: if_splits)
qed

theorem from_string_error_kind_witness:
  "\<exists>e. from_string ''ho st=x'' = Inl e \<and> opt_err_kind e = Some ForwardedHeaderParserError_0008"
proof -
  obtain e where e: "from_string ''ho st=x'' = Inl e"
    by (cases "from_string ''ho st=x''") (auto, code_simp)
  from from_string_error_kind [OF e] e show ?thesis by blast
qed

text \<open>
  A value that ends in a backslash is not escaped by the printer, so the closing quote is read as
  an escaped quote and the parameters after it are swallowed into the value.
\<close>

lemma backslash_swallows_parameters:
  "from_string (forwarded_to_string
     \<lparr>fh_by = None, fh_for_value = None, fh_host = Some [CHR ''h'', CHR 0x5C],
      fh_proto = Some ''http'', fh_extensions = None\<rparr>) =
   Inr [\<lparr>fh_by = None, fh_for_value = None,
         fh_host = Some ([CHR ''h'', CHR 0x22] @ '';proto=http''),
         fh_proto = None, fh_extensions = None\<rparr>]"
  by code_simp

end
