(* ===== verification/Http_Utils.thy ===== *)
theory Http_Utils
  imports Router_Config Forwarded
begin

text \<open>
  \<^verbatim>\<open>src/src/http_utils.rs\<close>: the headers the router sends to the target. The header collection is
  the parameter \<open>H\<close>; the request's address is its textual IP, its URI a record of what the
  accessors of the URI give.
\<close>

section \<open>Requests\<close>

record orig_uri =
  uri_path :: string
  uri_path_and_query :: "string option"
  uri_authority :: "string option"
  uri_host :: "string option"
  uri_scheme :: "string option"

section \<open>Reading headers\<close>

definition get_custom_hop_by_hop_headers :: "('m, 'v) header_ops \<Rightarrow> 'v option \<Rightarrow> string set" where
  "get_custom_hop_by_hop_headers H opt_conn_hdr =
     (case Option.bind opt_conn_hdr (hv_to_str H) of
        None \<Rightarrow> {}
      | Some conn_hdr_str \<Rightarrow>
          if conn_hdr_str = [] then {} else set (map trim (split_on CHR '','' conn_hdr_str)))"

definition header_map_get_all_ok_to_string :: "('m, 'v) header_ops \<Rightarrow> 'm \<Rightarrow> string \<Rightarrow> string list" where
  "header_map_get_all_ok_to_string H hdr hdr_key = List.map_filter (hv_to_str H) (hm_get_all H hdr hdr_key)"

definition get_x_forwarded_value :: "('m, 'v) header_ops \<Rightarrow> 'm \<Rightarrow> string \<Rightarrow> string list" where
  "get_x_forwarded_value H hdr xf_key =
     concat (map (\<lambda>i. map trim (split_on CHR '','' i)) (header_map_get_all_ok_to_string H hdr xf_key))"

definition get_new_via_value :: "string \<Rightarrow> string list \<Rightarrow> string" where
  "get_new_via_value this_server_via prev_via_list =
     join '', '' prev_via_list @ (if prev_via_list = [] then [] else '', '') @ this_server_via"

definition get_opt_host_from_uri_and_headers ::
    "('m, 'v) header_ops \<Rightarrow> orig_uri \<Rightarrow> 'm \<Rightarrow> string option" where
  "get_opt_host_from_uri_and_headers H original_uri headers =
     (case uri_host original_uri of
        Some h \<Rightarrow> Some h
      | None \<Rightarrow> map_option (\<lambda>h. hd (split_on CHR '':'' h)) (hm_get_str H headers ''host''))"

section \<open>Forwarded headers of the client\<close>

text \<open>
  The loop that looks for the colon before a trailing port; \<open>n\<close> is the loop variable \<open>idx\<close> plus
  one, so \<open>0\<close> stands for the loop having run past the first character.
\<close>

fun port_loop :: "string list \<Rightarrow> nat \<Rightarrow> nat res" where
  "port_loop host_clone 0 = Inr 0"
| "port_loop host_clone (Suc idx) =
     (let c = host_clone ! idx
      in if \<not> (length c = 1 \<and> list_all is_digit c)
         then (if c \<noteq> '':''
               then Inl (with_err_kind (crex_new ''Failed to parse port'') ForwardedHeaderParserError_0008)
               else Inr (Suc idx))
         else port_loop host_clone idx)"

text \<open>Slicing up to an index of -1 panics.\<close>

definition strip_port :: "string \<Rightarrow> string res outcome" where
  "strip_port host =
     (let host_clone = chars host
      in case port_loop host_clone (length host_clone) of
           Inl e \<Rightarrow> Ret (Inl e)
         | Inr 0 \<Rightarrow> Panic
         | Inr (Suc idx) \<Rightarrow> Ret (Inr (concat (take idx host_clone))))"

definition nth_opt :: "'a list \<Rightarrow> nat \<Rightarrow> 'a option" where
  "nth_opt xs i = (if i < length xs then Some (xs ! i) else None)"

definition use_default_port :: "string option \<Rightarrow> string option \<Rightarrow> bool" where
  "use_default_port port proto \<longleftrightarrow>
     (case port of
        None \<Rightarrow> True
      | Some po \<Rightarrow>
          (case proto of
             None \<Rightarrow> False
           | Some pr \<Rightarrow> (eq_ignore_ascii_case pr ''http'' \<and> po = ''80'') \<or>
                        (eq_ignore_ascii_case pr ''https'' \<and> po = ''443'')))"

text \<open>One turn of the loop over the legacy headers, for position \<open>i\<close>.\<close>

definition x_forwarded_entry ::
    "string list \<Rightarrow> string list \<Rightarrow> string list \<Rightarrow> string list \<Rightarrow> string option \<Rightarrow> nat \<Rightarrow> nat \<Rightarrow>
     forwarded_header res outcome" where
  "x_forwarded_entry hosts ports protos fors cur_host mx i =
     (let include_host = length hosts = mx;
          include_port = length ports = mx;
          host = (if include_host then nth_opt hosts i else None);
          port = (if include_port then nth_opt ports i else None);
          proto = (if length protos = mx then nth_opt protos i else None);
          for_value = (if length fors = mx then nth_opt fors i else None);
          host_to_use = (if include_host then host else if include_port then cur_host else None);
          entry = (\<lambda>h. \<lparr>fh_by = None, fh_for_value = for_value, fh_host = h, fh_proto = proto,
                        fh_extensions = None\<rparr>)
      in case host_to_use of
           None \<Rightarrow> Ret (Inr (entry None))
         | Some h \<Rightarrow>
             if use_default_port port proto then Ret (Inr (entry (Some h)))
             else bind_outcome (strip_port h) (\<lambda>r. case r of
                    Inl e \<Rightarrow> Ret (Inl e)
                  | Inr h' \<Rightarrow> Ret (Inr (entry (Some h')))))"

fun x_forwarded_loop ::
    "(nat \<Rightarrow> forwarded_header res outcome) \<Rightarrow> nat list \<Rightarrow> forwarded_header list \<Rightarrow>
     forwarded_header list res outcome" where
  "x_forwarded_loop entry [] res = Ret (Inr res)"
| "x_forwarded_loop entry (i # is) res =
     bind_outcome (entry i) (\<lambda>r. case r of
       Inl e \<Rightarrow> Ret (Inl e)
     | Inr fh \<Rightarrow> x_forwarded_loop entry is (res @ [fh]))"

fun parse_all_forwarded :: "string list \<Rightarrow> forwarded_header list \<Rightarrow> forwarded_header list res" where
  "parse_all_forwarded [] res = Inr res"
| "parse_all_forwarded (s # ss) res =
     (case from_string s of Inl e \<Rightarrow> Inl e | Inr fhs \<Rightarrow> parse_all_forwarded ss (res @ fhs))"

definition get_existing_forwarded_headers ::
    "('m, 'v) header_ops \<Rightarrow> 'm \<Rightarrow> forwarded_header list res outcome" where
  "get_existing_forwarded_headers H hdr =
     (let all = header_map_get_all_ok_to_string H hdr ''forwarded''
      in if all = [] then
           let hosts = get_x_forwarded_value H hdr ''x-forwarded-host'';
               ports = get_x_forwarded_value H hdr ''x-forwarded-port'';
               protos = get_x_forwarded_value H hdr ''x-forwarded-proto'';
               fors = get_x_forwarded_value H hdr ''x-forwarded-for'';
               mx = max (max (max (length hosts) (length protos)) (length fors)) (length ports);
               cur_host = (if length ports = mx \<and> length hosts \<noteq> mx
                           then hm_get_str H hdr ''host'' else None)
           in if mx = 0 then Ret (Inr [])
              else x_forwarded_loop (x_forwarded_entry hosts ports protos fors cur_host mx) [0..<mx] []
         else Ret (parse_all_forwarded all []))"

section \<open>Headers for the target\<close>

text \<open>\<open>local_ip\<close> is the address of this server, \<open>cli_ip\<close> that of the client.\<close>

definition create_forwarded_header_to_tgt ::
    "('m, 'v) header_ops \<Rightarrow> string \<Rightarrow> 'm \<Rightarrow> string \<Rightarrow> orig_uri \<Rightarrow> bool \<Rightarrow> forwarded_header" where
  "create_forwarded_header_to_tgt H local_ip cli_hdr cli_ip cli_req_uri is_tls =
     \<lparr>fh_by = Some local_ip, fh_for_value = Some cli_ip,
      fh_host = (case hm_get_str H cli_hdr ''host'' of Some h \<Rightarrow> Some h | None \<Rightarrow> uri_authority cli_req_uri),
      fh_proto = Some (if is_tls then ''https''
        else (case uri_scheme cli_req_uri of Some s \<Rightarrow> s | None \<Rightarrow> ''http'')),
      fh_extensions = None\<rparr>"

text \<open>The pattern \<^verbatim>\<open>if let Ok(p) = text.parse() { hdr.append(k, p); }\<close>, and the same with \<^verbatim>\<open>insert\<close>.\<close>

definition append_parsed :: "('m, 'v) header_ops \<Rightarrow> 'm \<Rightarrow> string \<Rightarrow> string \<Rightarrow> 'm" where
  "append_parsed H m k s = (case hv_parse H s of Some p \<Rightarrow> hm_append H m k p | None \<Rightarrow> m)"

definition insert_parsed :: "('m, 'v) header_ops \<Rightarrow> 'm \<Rightarrow> string \<Rightarrow> string option \<Rightarrow> 'm" where
  "insert_parsed H m k opt =
     (case Option.bind opt (hv_parse H) of Some p \<Rightarrow> hm_insert H m k p | None \<Rightarrow> m)"

definition set_x_forwarded_headers :: "('m, 'v) header_ops \<Rightarrow> 'm \<Rightarrow> forwarded_header \<Rightarrow> 'm" where
  "set_x_forwarded_headers H hdr fh =
     insert_parsed H
       (insert_parsed H
         (insert_parsed H hdr ''x-forwarded-proto'' (fh_proto fh))
         ''x-forwarded-host'' (fh_host fh))
       ''x-forwarded-for'' (fh_for_value fh)"

definition set_forwarded_headers ::
    "('m, 'v) header_ops \<Rightarrow> string \<Rightarrow> 'm \<Rightarrow> 'm \<Rightarrow> bool \<Rightarrow> bool \<Rightarrow> string \<Rightarrow> orig_uri \<Rightarrow> bool \<Rightarrow>
     ('m \<times> unit res) outcome" where
  "set_forwarded_headers H local_ip cli_hdr hdr_to_tgt discard legacy cli_ip cli_req_uri is_tls =
     bind_outcome (if discard then Ret (Inr []) else get_existing_forwarded_headers H cli_hdr)
       (\<lambda>r. case r of
          Inl e \<Rightarrow> Ret (hdr_to_tgt, Inl e)
        | Inr forwarded_headers \<Rightarrow>
            let hdr1 = foldl (\<lambda>m j. append_parsed H m ''forwarded'' (forwarded_to_string j))
                         hdr_to_tgt forwarded_headers;
                new_forwarded_hdr = create_forwarded_header_to_tgt H local_ip cli_hdr cli_ip cli_req_uri is_tls;
                hdr2 = append_parsed H hdr1 ''forwarded'' (forwarded_to_string new_forwarded_hdr);
                hdr3 = (if legacy
                        then set_x_forwarded_headers H hdr2
                               (if forwarded_headers = [] then new_forwarded_hdr else hd forwarded_headers)
                        else hdr2)
            in Ret (hdr3, Inr ()))"

text \<open>One step of the loop that copies the client's headers, with the flag it sets.\<close>

definition copy_header ::
    "('m, 'v) header_ops \<Rightarrow> string set \<Rightarrow> string set \<Rightarrow> 'm \<times> bool \<Rightarrow> string \<times> 'v \<Rightarrow> 'm \<times> bool" where
  "copy_header H do_not_proxy custom_hop_by_hop st kv =
     (case (st, kv) of ((hdr, has), (k, v)) \<Rightarrow>
        let lowercase_key = to_lowercase k
        in if lowercase_key \<in> do_not_proxy \<or> lowercase_key \<in> custom_hop_by_hop then (hdr, has)
           else (if lowercase_key = ''host'' then hm_insert H hdr k v else hm_append H hdr k v,
                 has \<or> lowercase_key = ''content-length'' \<or> lowercase_key = ''transfer-encoding''))"

text \<open>\<open>http_version\<close> is the debug text of the request's version.\<close>

definition set_target_request_headers ::
    "('m, 'v) header_ops \<Rightarrow> string \<Rightarrow> ('l, 'f) router_config \<Rightarrow> 'm \<Rightarrow> 'm \<Rightarrow> string \<Rightarrow> string \<Rightarrow> orig_uri \<Rightarrow> bool \<Rightarrow>
     ('m \<times> bool) outcome" where
  "set_target_request_headers H local_ip cfg cli_hdr hdr_to_tgt http_version cli_ip uri is_tls =
     (let custom_hop_by_hop = get_custom_hop_by_hop_headers H (hm_get H cli_hdr ''connection'');
          (hdr1, has) = foldl (copy_header H (do_not_proxy_headers cfg) custom_hop_by_hop)
                          (hdr_to_tgt, False) (hm_iter H cli_hdr);
          cli_all_via = header_map_get_all_ok_to_string H cli_hdr ''via'';
          new_via_val = get_new_via_value (http_version @ '' '' @ via_name cfg) cli_all_via;
          hdr2 = append_parsed H hdr1 ''via'' new_via_val
      in bind_outcome
           (set_forwarded_headers H local_ip cli_hdr hdr2 (discard_client_forwarded_headers cfg)
              (send_legacy_forwarded_headers cfg) cli_ip uri is_tls)
           (\<lambda>(hdr3, r). Ret (hdr3, has)))"

section \<open>Lemmas\<close>

text \<open>The names the router writes itself after copying the client's headers.\<close>

definition router_written :: "string set" where
  "router_written = {''via'', ''forwarded'', ''x-forwarded-proto'', ''x-forwarded-host'', ''x-forwarded-for''}"

lemma router_written_repressed: "router_written \<subseteq> REPRESSED_HEADERS"
  by (simp add: router_written_def REPRESSED_HEADERS_def)

lemma to_lowercase_written [simp]:
  "to_lowercase ''via'' = ''via''" "to_lowercase ''forwarded'' = ''forwarded''"
  "to_lowercase ''x-forwarded-proto'' = ''x-forwarded-proto''"
  "to_lowercase ''x-forwarded-host'' = ''x-forwarded-host''"
  "to_lowercase ''x-forwarded-for'' = ''x-forwarded-for''" "to_lowercase ''host'' = ''host''"
  by code_simp+

definition blocked :: "('m, 'v) header_ops \<Rightarrow> ('l, 'f) router_config \<Rightarrow> 'm \<Rightarrow> string \<Rightarrow> bool" where
  "blocked H cfg cli_hdr k \<longleftrightarrow> to_lowercase k \<in> do_not_proxy_headers cfg \<or>
     to_lowercase k \<in> get_custom_hop_by_hop_headers H (hm_get H cli_hdr ''connection'')"

text \<open>The forwarded headers the target is sent: the client's, then the router's own.\<close>

definition parsed_forwarded :: "('m, 'v) header_ops \<Rightarrow> forwarded_header list \<Rightarrow> 'v list" where
  "parsed_forwarded H fhs = List.map_filter (\<lambda>fh. hv_parse H (forwarded_to_string fh)) fhs"

lemma bex_fst_fixed:
  "(\<And>kv. kv \<in> S \<Longrightarrow> f (fst kv) = fst kv) \<Longrightarrow> (\<exists>kv \<in> S. f (fst kv) \<notin> B \<and> f (fst kv) \<in> A) \<longleftrightarrow> (\<exists>k \<in> fst ` S. k \<notin> B \<and> k \<in> A)"
  by force

context header_map
begin

lemma copy_headers_get_all:
  "hm_get_all H (fst (foldl (copy_header H D C) (m, has) kvs)) k =
   (let vs = map snd (filter (\<lambda>(k', _). to_lowercase k' = to_lowercase k) kvs)
    in if to_lowercase k \<in> D \<union> C \<or> vs = [] then hm_get_all H m k
       else if to_lowercase k = ''host'' then [last vs] else hm_get_all H m k @ vs)"
  by (induction kvs arbitrary: m has)
    (auto simp: copy_header_def Let_def get_all_insert get_all_append)

lemma copy_headers_flag:
  "snd (foldl (copy_header H D C) st kvs) \<longleftrightarrow>
   snd st \<or> (\<exists>kv \<in> set kvs. to_lowercase (fst kv) \<notin> D \<union> C \<and>
           to_lowercase (fst kv) \<in> {''content-length'', ''transfer-encoding''})"
proof (induction kvs arbitrary: st)
  case (Cons kv kvs)
  have step: "snd (copy_header H D C st kv) \<longleftrightarrow> snd st \<or> (to_lowercase (fst kv) \<notin> D \<union> C \<and>
           to_lowercase (fst kv) \<in> {''content-length'', ''transfer-encoding''})"
    by (cases st; cases kv) (simp add: copy_header_def Let_def)
  show ?case
    by (simp only: foldl.simps Cons.IH step list.set bex_simps disj_assoc)
qed simp

lemma get_all_append_parsed:
  "hm_get_all H (append_parsed H m k s) k' =
   (if to_lowercase k' = to_lowercase k
    then hm_get_all H m k' @ (case hv_parse H s of Some v \<Rightarrow> [v] | None \<Rightarrow> []) else hm_get_all H m k')"
  by (auto simp: append_parsed_def get_all_append split: option.splits)

lemma get_all_append_forwarded:
  "hm_get_all H (foldl (\<lambda>m j. append_parsed H m ''forwarded'' (forwarded_to_string j)) m fhs) k =
   (if to_lowercase k = ''forwarded'' then hm_get_all H m k @ parsed_forwarded H fhs else hm_get_all H m k)"
  by (induction fhs arbitrary: m)
    (auto simp: get_all_append_parsed parsed_forwarded_def map_filter_simps split: option.splits)

lemma get_all_insert_parsed_other:
  "to_lowercase k' \<noteq> to_lowercase k \<Longrightarrow> hm_get_all H (insert_parsed H m k opt) k' = hm_get_all H m k'"
  by (auto simp: insert_parsed_def get_all_insert split: option.splits)

lemma get_all_set_x_forwarded_other:
  "to_lowercase k \<notin> {''x-forwarded-proto'', ''x-forwarded-host'', ''x-forwarded-for''} \<Longrightarrow>
   hm_get_all H (set_x_forwarded_headers H m fh) k = hm_get_all H m k"
  by (simp add: set_x_forwarded_headers_def get_all_insert_parsed_other)

lemma set_forwarded_get_all:
  assumes "set_forwarded_headers H lip cli m discard legacy ip uri tls = Ret (hdr, r)"
    and "to_lowercase k \<notin> {''x-forwarded-proto'', ''x-forwarded-host'', ''x-forwarded-for''}"
  shows "hm_get_all H hdr k =
    hm_get_all H m k @
    (if to_lowercase k = ''forwarded''
     then (case (if discard then Ret (Inr []) else get_existing_forwarded_headers H cli) of
             Ret (Inr fhs) \<Rightarrow> parsed_forwarded H (fhs @ [create_forwarded_header_to_tgt H lip cli ip uri tls])
           | _ \<Rightarrow> [])
     else [])"
proof -
  from assms(1) obtain x where x: "(if discard then Ret (Inr []) else get_existing_forwarded_headers H cli) = Ret x"
    by (auto simp: set_forwarded_headers_def bind_outcome_Ret_iff)
  show ?thesis
  proof (cases x)
    case (Inl e)
    with assms(1) x show ?thesis
      by (simp add: set_forwarded_headers_def del: if_split_asm)
  next
    case (Inr fhs)
    with assms x show ?thesis
      by (auto simp: set_forwarded_headers_def Let_def get_all_set_x_forwarded_other get_all_append_parsed
          get_all_append_forwarded parsed_forwarded_def map_filter_def)
  qed
qed

lemma get_all_iter_lower:
  "map snd (filter (\<lambda>(k', _). to_lowercase k' = to_lowercase k) (hm_iter H m)) = hm_get_all H m k"
proof -
  have "filter (\<lambda>(k', _). to_lowercase k' = to_lowercase k) (hm_iter H m) =
        filter (\<lambda>(k', _). k' = to_lowercase k) (hm_iter H m)"
    by (rule filter_cong) (auto dest: iter_lowercase)
  then show ?thesis by (simp add: get_all_iter)
qed

lemma target_headers_get_all:
  assumes "set_target_request_headers H lip cfg cli m ver ip uri tls = Ret (hdr, has)"
    and "to_lowercase k \<notin> {''x-forwarded-proto'', ''x-forwarded-host'', ''x-forwarded-for''}"
  shows "hm_get_all H hdr k =
    (let vs = hm_get_all H cli k
     in if blocked H cfg cli k \<or> vs = [] then hm_get_all H m k
        else if to_lowercase k = ''host'' then [last vs] else hm_get_all H m k @ vs) @
    (if to_lowercase k = ''via''
     then (case hv_parse H (get_new_via_value (ver @ '' '' @ via_name cfg)
             (header_map_get_all_ok_to_string H cli ''via'')) of Some v \<Rightarrow> [v] | None \<Rightarrow> []) else []) @
    (if to_lowercase k = ''forwarded''
     then (case (if discard_client_forwarded_headers cfg then Ret (Inr []) else get_existing_forwarded_headers H cli) of
             Ret (Inr fhs) \<Rightarrow> parsed_forwarded H (fhs @ [create_forwarded_header_to_tgt H lip cli ip uri tls])
           | _ \<Rightarrow> [])
     else [])"
proof -
  let ?C = "get_custom_hop_by_hop_headers H (hm_get H cli ''connection'')"
  let ?cp = "foldl (copy_header H (do_not_proxy_headers cfg) ?C) (m, False) (hm_iter H cli)"
  let ?via = "get_new_via_value (ver @ '' '' @ via_name cfg) (header_map_get_all_ok_to_string H cli ''via'')"
  from assms(1) obtain r where
    "set_forwarded_headers H lip cli (append_parsed H (fst ?cp) ''via'' ?via)
       (discard_client_forwarded_headers cfg) (send_legacy_forwarded_headers cfg) ip uri tls = Ret (hdr, r)"
    by (auto simp: set_target_request_headers_def Let_def split_def bind_outcome_Ret_iff)
  note forwarded = set_forwarded_get_all [OF this assms(2)]
  have copied: "hm_get_all H (fst ?cp) k =
    (if blocked H cfg cli k \<or> hm_get_all H cli k = [] then hm_get_all H m k
     else if to_lowercase k = ''host'' then [last (hm_get_all H cli k)]
     else hm_get_all H m k @ hm_get_all H cli k)"
    unfolding copy_headers_get_all get_all_iter_lower Let_def blocked_def Un_iff ..
  show ?thesis
    unfolding forwarded get_all_append_parsed copied Let_def to_lowercase_written by simp
qed

lemma visible_all_ok:
  "list_all (list_all visible) (header_map_get_all_ok_to_string H m k)"
  using to_str_visible
  by (fastforce simp: header_map_get_all_ok_to_string_def list_all_iff map_filter_def)

lemma target_headers_flag:
  assumes "set_target_request_headers H lip cfg cli m ver ip uri tls = Ret (hdr, has)"
  shows "has \<longleftrightarrow> (\<exists>k \<in> {''content-length'', ''transfer-encoding''}.
           hm_contains_key H cli k \<and> \<not> blocked H cfg cli k)"
proof -
  let ?C = "get_custom_hop_by_hop_headers H (hm_get H cli ''connection'')"
  have low: "to_lowercase ''content-length'' = ''content-length''"
    "to_lowercase ''transfer-encoding'' = ''transfer-encoding''"
    by code_simp+
  from assms have "has = snd (foldl (copy_header H (do_not_proxy_headers cfg) ?C) (m, False) (hm_iter H cli))"
    by (auto simp: set_target_request_headers_def Let_def split_def bind_outcome_Ret_iff)
  also have "\<dots> \<longleftrightarrow> (\<exists>kv \<in> set (hm_iter H cli). to_lowercase (fst kv) \<notin> do_not_proxy_headers cfg \<union> ?C \<and>
           to_lowercase (fst kv) \<in> {''content-length'', ''transfer-encoding''})"
    unfolding copy_headers_flag by simp
  also have "\<dots> \<longleftrightarrow> (\<exists>k \<in> fst ` set (hm_iter H cli). k \<notin> do_not_proxy_headers cfg \<union> ?C \<and>
           k \<in> {''content-length'', ''transfer-encoding''})"
    by (rule bex_fst_fixed) (metis iter_lowercase prod.collapse)
  also have "\<dots> \<longleftrightarrow> (\<exists>k \<in> {''content-length'', ''transfer-encoding''}.
           k \<in> fst ` set (hm_iter H cli) \<and> k \<notin> do_not_proxy_headers cfg \<union> ?C)"
    by blast
  also have "\<dots> \<longleftrightarrow> (\<exists>k \<in> {''content-length'', ''transfer-encoding''}.
           hm_contains_key H cli k \<and> \<not> blocked H cfg cli k)"
    unfolding contains_key_iff blocked_def by (simp only: bex_simps low Un_iff de_Morgan_disj)
  finally show ?thesis .
qed

end

lemma host_not_written: "''host'' \<notin> router_written"
  by (simp add: router_written_def)

lemma blocked_written: "built cfg \<Longrightarrow> to_lowercase k \<in> router_written \<Longrightarrow> blocked H cfg cli k"
  using built_config_ok [of cfg] router_written_repressed by (auto simp: config_ok_def blocked_def)

lemma visible_join: "list_all (list_all visible) xs \<Longrightarrow> list_all visible sep \<Longrightarrow> list_all visible (join sep xs)"
  by (induction sep xs rule: join.induct) auto

lemma visible_allowed_via: "list_all visible allowed_via_chars"
  by (simp add: allowed_via_chars_def visible_def code_def)

lemma visible_via_name: "built cfg \<Longrightarrow> list_all visible (via_name cfg)"
  using built_config_ok [of cfg] visible_allowed_via by (auto simp: config_ok_def list_all_iff)

lemma visible_sep: "list_all visible '', ''" "list_all visible '' ''"
  by (simp_all add: visible_def code_def)

text \<open>What the port loop leaves: it drops trailing digits and stops at the first other character.\<close>

definition digit_char :: "string \<Rightarrow> bool" where
  "digit_char g \<longleftrightarrow> length g = 1 \<and> list_all is_digit g"

lemma port_loop_spec:
  "n \<le> length cs \<Longrightarrow>
   port_loop cs n =
     (case dropWhile digit_char (rev (take n cs)) of
        [] \<Rightarrow> Inr 0
      | g # gs \<Rightarrow> if g = '':'' then Inr (Suc (length gs))
                 else Inl (with_err_kind (crex_new ''Failed to parse port'') ForwardedHeaderParserError_0008))"
proof (induction n)
  case (Suc n)
  then have "rev (take (Suc n) cs) = cs ! n # rev (take n cs)" "length (take n cs) = n"
    by (auto simp: take_Suc_conv_app_nth)
  with Suc show ?case
    by (simp add: Let_def digit_char_def)
qed simp

lemma discarding_returns:
  "discard_client_forwarded_headers cfg \<Longrightarrow>
   \<exists>hdr has. set_target_request_headers H lip cfg cli m ver ip uri tls = Ret (hdr, has)"
  by (simp add: set_target_request_headers_def set_forwarded_headers_def Let_def split_def)

text \<open>A client request for the witnesses.\<close>

abbreviation (input) sample_request :: "(string \<times> string) list" where
  "sample_request \<equiv> [(''Host'', ''h:80''), (''Accept'', ''a''), (''Connection'', ''x-hop''), (''X-Hop'', ''1''),
     (''accept'', ''b''), (''Via'', ''1.0 p''), (''Content-Length'', ''5'')]"

abbreviation (input) sample_uri :: orig_uri where
  "sample_uri \<equiv> \<lparr>uri_path = ''/a'', uri_path_and_query = Some ''/a'', uri_authority = None,
     uri_host = None, uri_scheme = None\<rparr>"

abbreviation (input) sample_config :: "(unit, unit) router_config" where
  "sample_config \<equiv> with_discard_client_forwarded_headers (builder_new ()) True"

lemma built_discarding: "built sample_config"
  by (intro built.intros)

lemma sample_returns:
  "\<exists>hdr has. set_target_request_headers lhm ''10.0.0.9'' sample_config
     sample_request (hm_new lhm) ''HTTP/1.1'' ''10.0.0.1'' sample_uri False = Ret (hdr, has)"
  by (rule discarding_returns) (simp add: with_discard_client_forwarded_headers_def)

section \<open>Properties\<close>



text \<open>
  The target receives exactly one Via header, which lists what the client's Via headers
  said followed by this router's protocol version and name; nothing of the client's chain is lost
  and the router's entry comes last.
\<close>

lemma target_headers_via:
  assumes "header_map H" and "built cfg" and "list_all visible ver"
    and "set_target_request_headers H lip cfg cli (hm_new H) ver ip uri tls = Ret (hdr, has)"
  shows "\<exists>v. hm_get_all H hdr ''Via'' = [v] \<and>
    hv_to_str H v = Some (join '', '' (header_map_get_all_ok_to_string H cli ''via'' @ [ver @ '' '' @ via_name cfg]))"
proof -
  let ?prev = "header_map_get_all_ok_to_string H cli ''via''"
  let ?own = "ver @ '' '' @ via_name cfg"
  have low: "to_lowercase ''Via'' = ''via''" by code_simp
  have joined: "get_new_via_value ?own ?prev = join '', '' (?prev @ [?own])"
    unfolding get_new_via_value_def by (rule join_snoc [symmetric])
  have vis: "list_all visible (join '', '' (?prev @ [?own]))"
    using header_map.visible_all_ok [OF assms(1), of cli "''via''"] assms(3) visible_via_name [OF assms(2)] visible_sep
    by (intro visible_join) simp_all
  then obtain v where v: "hv_parse H (join '', '' (?prev @ [?own])) = Some v"
    using header_map.parse_visible [OF assms(1)] by blast
  have "blocked H cfg cli ''Via''"
    by (rule blocked_written [OF assms(2)]) (simp add: low router_written_def)
  with header_map.target_headers_get_all [OF assms(1,4), of "''Via''"] joined v
  have "hm_get_all H hdr ''Via'' = [v]"
    by (simp add: low header_map.get_all_new [OF assms(1)])
  with header_map.to_str_parse [OF assms(1) v vis] show ?thesis by blast
qed

lemma target_headers_via_witness:
  "\<exists>hdr has v. set_target_request_headers lhm ''10.0.0.9'' sample_config
       sample_request (hm_new lhm) ''HTTP/1.1'' ''10.0.0.1'' sample_uri False = Ret (hdr, has) \<and>
     hm_get_all lhm hdr ''Via'' = [v] \<and> hv_to_str lhm v = Some ''1.0 p, HTTP/1.1 scr-axum''"
proof -
  obtain hdr has where ret: "set_target_request_headers lhm ''10.0.0.9'' sample_config
       sample_request (hm_new lhm) ''HTTP/1.1'' ''10.0.0.1'' sample_uri False = Ret (hdr, has)"
    using sample_returns by blast
  have "list_all visible ''HTTP/1.1''" "header_map_get_all_ok_to_string lhm sample_request ''via'' = [''1.0 p'']"
    by code_simp+
  moreover have "via_name sample_config = ''scr-axum''"
    by (simp add: with_discard_client_forwarded_headers_def builder_new_def)
  ultimately show ?thesis
    using target_headers_via [OF header_map_lhm built_discarding _ ret] ret by auto
qed

text \<open>
  The Forwarded headers the target receives are the client's, reprinted in order, and
  last the router's own with the client's address; with the discarding configuration only the
  router's own. When the client's cannot be read, the target receives no Forwarded header at all,
  not even the router's.
\<close>

lemma target_headers_forwarded:
  assumes "header_map H" and "built cfg"
    and "set_target_request_headers H lip cfg cli (hm_new H) ver ip uri tls = Ret (hdr, has)"
  shows "hm_get_all H hdr ''Forwarded'' =
    (let own = create_forwarded_header_to_tgt H lip cli ip uri tls
     in if discard_client_forwarded_headers cfg then parsed_forwarded H [own]
        else case get_existing_forwarded_headers H cli of
               Ret (Inr fhs) \<Rightarrow> parsed_forwarded H (fhs @ [own])
             | _ \<Rightarrow> [])"
proof -
  have low: "to_lowercase ''Forwarded'' = ''forwarded''" by code_simp
  have "blocked H cfg cli ''Forwarded''"
    by (rule blocked_written [OF assms(2)]) (simp add: low router_written_def)
  with header_map.target_headers_get_all [OF assms(1,3), of "''Forwarded''"] show ?thesis
    by (simp add: low header_map.get_all_new [OF assms(1)] Let_def)
qed

text \<open>
  Removing the port from a forwarded host drops the colon and the digits after it. A
  host that ends in anything but a colon and digits is refused, so a plain host name is; and one
  that consists of digits only, the empty one included, makes the router panic.
\<close>

lemma strip_port_behaviour:
  "strip_port host =
     (case dropWhile digit_char (rev (chars host)) of
        [] \<Rightarrow> Panic
      | g # gs \<Rightarrow> Ret (if g = '':'' then Inr (concat (rev gs))
                      else Inl (with_err_kind (crex_new ''Failed to parse port'') ForwardedHeaderParserError_0008)))"
proof (cases "dropWhile digit_char (rev (chars host))")
  case (Cons g gs)
  then have "chars host = rev gs @ [g] @ rev (takeWhile digit_char (rev (chars host)))"
    by (metis append_Cons append_Nil append_assoc rev.simps(2) rev_append rev_rev_ident takeWhile_dropWhile_id)
  then have "take (length gs) (chars host) = rev gs"
    by (metis append_eq_conv_conj length_rev)
  with Cons show ?thesis
    by (simp add: strip_port_def Let_def port_loop_spec)
next
  case Nil
  show ?thesis
    unfolding strip_port_def Let_def port_loop_spec [OF order_refl] take_all [OF order_refl] Nil by simp
qed

end
