(* ===== verification/Websocket_Farm.thy ===== *)
theory Websocket_Farm
  imports Http_Utils Route_Resolver Router_Config
begin

text \<open>
  The farm of registered sockets (\<^verbatim>\<open>websocket_farm.rs\<close>), the filters a user may choose sockets by
  (\<^verbatim>\<open>router_socket_filter.rs\<close>) and hosts in dark mode (\<^verbatim>\<open>dark_host.rs\<close>, \<^verbatim>\<open>dark_mode_manager.rs\<close>).

  Sockets are shared by reference: the farm's registry holds the counted references, its queues weak
  ones. A reference is an index into a store of sockets; a weak one still leads to its socket while
  the registry or a running task (\<open>f_held\<close>) holds it. Queues are shared too, as a task that waits
  keeps the queue it found. Work the code spawns is recorded in \<open>f_tasks\<close> and done by a step of its
  own. Maps are iterated in the order of the association lists that model them.
\<close>

section \<open>Hosts in dark mode\<close>

record dark_host =
  dh_address :: string
  dh_date_enabled :: i64
  dh_reason :: string

definition same_host :: "dark_host \<Rightarrow> string \<Rightarrow> bool" where
  "same_host h another \<longleftrightarrow> dh_address h = another"

section \<open>Sockets as the farm sees them\<close>

record rsock =
  rs_id :: string
  rs_route :: string
  rs_domain :: string
  rs_component :: string
  rs_connector :: string
  rs_ip :: string
  rs_port :: int
  rs_version :: string
  rs_removed :: bool
  rs_active :: bool
  rs_inflight :: i32

definition is_dark_mode_on :: "dark_host list \<Rightarrow> rsock \<Rightarrow> bool" where
  "is_dark_mode_on dark_hosts s \<longleftrightarrow> list_ex (\<lambda>h. same_host h (rs_ip s)) dark_hosts"

section \<open>Filters\<close>

record 'm req_info =
  rq_target_path :: string
  rq_method :: string
  rq_original_uri :: orig_uri
  rq_headers :: 'm
  rq_addr :: socket_addr

record 'm sock_filter =
  should_use :: "'m req_info \<Rightarrow> rsock \<Rightarrow> bool"
  should_fallback_to_first_path_matched :: bool
  should_fallback_to_catch_all :: bool

definition DefaultRouterSocketFilter :: "'m sock_filter" where
  "DefaultRouterSocketFilter = \<lparr>should_use = (\<lambda>_ _. True), should_fallback_to_first_path_matched = False, should_fallback_to_catch_all = True\<rparr>"

definition DomainRouterSocketFilter :: "('m, 'v) header_ops \<Rightarrow> 'm sock_filter" where
  "DomainRouterSocketFilter H =
     \<lparr>should_use = (\<lambda>rq s.
        case get_opt_host_from_uri_and_headers H (rq_original_uri rq) (rq_headers rq) of
          Some host \<Rightarrow> rs_domain s = ''*'' \<or> rs_domain s = host
        | None \<Rightarrow> False),
      should_fallback_to_first_path_matched = True, should_fallback_to_catch_all = True\<rparr>"

section \<open>The state of the farm\<close>

datatype farm_task =
    Remove_Socket string string nat
  | Add_Socket nat
  | De_Register string string
  | Clean_Routes i64

record farm =
  f_socks :: "rsock list"
  f_held :: "nat list"
  f_chans :: "nat list list"
  route_to_socket_chan :: "(string \<times> nat) list"
  router_socket_map :: "(string \<times> (string \<times> nat) list) list"
  route_last_removal_times :: "(string \<times> i64) list"
  f_idle_count :: i32
  waiting_tasks :: "(string \<times> string list) list"
  waiting_task_count :: i32
  dark_hosts :: "dark_host list"
  max_wait_in_millis :: int
  f_notified :: "string list"
  f_tasks :: "farm_task list"
  f_closes :: "nat list"
  f_terminated :: "nat list"
  f_acquire_failures :: "(string \<times> i64) list"

text \<open>\<open>f_notified\<close> is the log of the broadcast channel, \<open>f_closes\<close> the sockets sent a close frame,
  \<open>f_terminated\<close> those told to end all requests, \<open>f_acquire_failures\<close> what the listeners were told.\<close>

definition farm_new :: "int \<Rightarrow> farm" where
  "farm_new max_wait =
     \<lparr>f_socks = [], f_held = [], f_chans = [], route_to_socket_chan = [], router_socket_map = [],
      route_last_removal_times = [], f_idle_count = 0, waiting_tasks = [], waiting_task_count = 0, dark_hosts = [],
      max_wait_in_millis = max_wait, f_notified = [], f_tasks = [], f_closes = [], f_terminated = [], f_acquire_failures = []\<rparr>"

definition sock :: "farm \<Rightarrow> nat \<Rightarrow> rsock" where
  "sock f r = f_socks f ! r"

definition upd_sock :: "nat \<Rightarrow> (rsock \<Rightarrow> rsock) \<Rightarrow> farm \<Rightarrow> farm" where
  "upd_sock r g f = f\<lparr>f_socks := (f_socks f)[r := g (f_socks f ! r)]\<rparr>"

definition registered_refs :: "farm \<Rightarrow> nat list" where
  "registered_refs f = map snd (concat (map snd (router_socket_map f)))"

definition upgrades :: "farm \<Rightarrow> nat \<Rightarrow> bool" where
  "upgrades f r \<longleftrightarrow> r \<in> set (f_held f) \<or> r \<in> set (registered_refs f)"

definition queue :: "farm \<Rightarrow> nat \<Rightarrow> nat list" where
  "queue f i = f_chans f ! i"

definition set_queue :: "nat \<Rightarrow> nat list \<Rightarrow> farm \<Rightarrow> farm" where
  "set_queue i q f = f\<lparr>f_chans := (f_chans f)[i := q]\<rparr>"

definition spawn :: "farm_task \<Rightarrow> farm \<Rightarrow> farm" where
  "spawn t f = f\<lparr>f_tasks := f_tasks f @ [t]\<rparr>"

section \<open>Registering and removing\<close>

definition remove_router_socket_in_background :: "string \<Rightarrow> string \<Rightarrow> nat \<Rightarrow> farm \<Rightarrow> farm" where
  "remove_router_socket_in_background route router_socket_id is_removed f = spawn (Remove_Socket route router_socket_id is_removed) f"

definition add_router_socket_in_background :: "nat \<Rightarrow> farm \<Rightarrow> farm" where
  "add_router_socket_in_background r f = spawn (Add_Socket r) f"

definition de_register_router_socket_in_background :: "string \<Rightarrow> string \<Rightarrow> farm \<Rightarrow> farm" where
  "de_register_router_socket_in_background route connector_id f = spawn (De_Register route connector_id) f"

definition clean_routes_in_background :: "i64 \<Rightarrow> i64 \<Rightarrow> farm \<Rightarrow> farm" where
  "clean_routes_in_background now routes_keep_time f = spawn (Clean_Routes (now - routes_keep_time)) f"

definition run_remove :: "i64 \<Rightarrow> string \<Rightarrow> string \<Rightarrow> nat \<Rightarrow> farm \<Rightarrow> farm" where
  "run_remove now route router_socket_id is_removed f =
     (let f1 = f\<lparr>route_last_removal_times := am_put (route_last_removal_times f) route now\<rparr>
      in case am_get (router_socket_map f1) route of
           None \<Rightarrow> f1
         | Some sub \<Rightarrow>
             (case am_get sub router_socket_id of
                None \<Rightarrow> f1
              | Some _ \<Rightarrow>
                  upd_sock is_removed (\<lambda>s. s\<lparr>rs_removed := True\<rparr>)
                    (f1\<lparr>router_socket_map := am_put (router_socket_map f1) route (am_del sub router_socket_id),
                        f_idle_count := f_idle_count f1 + (-1)\<rparr>)))"

definition run_add :: "nat \<Rightarrow> farm \<Rightarrow> farm" where
  "run_add r f =
     (let route = rs_route (sock f r);
          sub = (case am_get (router_socket_map f) route of Some sub \<Rightarrow> sub | None \<Rightarrow> []);
          f1 = f\<lparr>router_socket_map := am_put (router_socket_map f) route (am_put sub (rs_id (sock f r)) r)\<rparr>;
          (i, f2) = (case am_get (route_to_socket_chan f1) route of
             Some i \<Rightarrow> (i, f1)
           | None \<Rightarrow> (length (f_chans f1), f1\<lparr>f_chans := f_chans f1 @ [[]],
                        route_to_socket_chan := am_put (route_to_socket_chan f1) route (length (f_chans f1))\<rparr>));
          f3 = set_queue i (queue f2 i @ [r]) f2
      in f3\<lparr>f_idle_count := f_idle_count f3 + 1, f_notified := f_notified f3 @ [route]\<rparr>)"

text \<open>An idle socket of the connector is marked and closed, one that still serves requests is left.\<close>

definition de_register_socket :: "nat \<Rightarrow> farm \<Rightarrow> farm" where
  "de_register_socket r f =
     (if \<not> rs_active (sock f r)
      then (upd_sock r (\<lambda>s. s\<lparr>rs_removed := True\<rparr>) f)\<lparr>f_idle_count := f_idle_count f + (-1), f_closes := f_closes f @ [r]\<rparr>
      else f)"

definition run_de_register :: "i64 \<Rightarrow> string \<Rightarrow> string \<Rightarrow> farm \<Rightarrow> farm" where
  "run_de_register now route connector_id f =
     (case am_get (router_socket_map f) route of
        None \<Rightarrow> f
      | Some sub \<Rightarrow>
          let sockets_to_close = filter (\<lambda>r. rs_connector (sock f r) = connector_id) (map snd sub);
              f1 = f\<lparr>route_last_removal_times := am_put (route_last_removal_times f) route now,
                     router_socket_map := am_put (router_socket_map f) route (filter (\<lambda>(_, r). rs_connector (sock f r) \<noteq> connector_id) sub)\<rparr>
          in foldl (\<lambda>f r. de_register_socket r f) f1 sockets_to_close)"

definition should_clean :: "i64 \<Rightarrow> farm \<Rightarrow> string \<times> (string \<times> nat) list \<Rightarrow> bool" where
  "should_clean cut_off_time f e \<longleftrightarrow> snd e = [] \<and>
     (case am_get (route_last_removal_times f) (fst e) of Some t \<Rightarrow> sint t < sint cut_off_time | None \<Rightarrow> False)"

definition run_clean :: "i64 \<Rightarrow> farm \<Rightarrow> farm" where
  "run_clean cut_off_time f =
     f\<lparr>router_socket_map := filter (\<lambda>e. \<not> should_clean cut_off_time f e) (router_socket_map f),
       route_to_socket_chan := foldl (\<lambda>m e. am_del m (fst e)) (route_to_socket_chan f) (filter (should_clean cut_off_time f) (router_socket_map f))\<rparr>"

fun run_task :: "i64 \<Rightarrow> farm_task \<Rightarrow> farm \<Rightarrow> farm" where
  "run_task now (Remove_Socket route router_socket_id is_removed) f = run_remove now route router_socket_id is_removed f"
| "run_task now (Add_Socket r) f = run_add r f"
| "run_task now (De_Register route connector_id) f = run_de_register now route connector_id f"
| "run_task now (Clean_Routes cut_off_time) f = run_clean cut_off_time f"

definition terminate_all :: "bool \<Rightarrow> farm \<Rightarrow> farm" where
  "terminate_all force f =
     (if force then f\<lparr>f_terminated := f_terminated f @ registered_refs f, router_socket_map := []\<rparr>
      else f\<lparr>router_socket_map := []\<rparr>)"

section \<open>Dark mode\<close>

definition enable_dark_mode :: "dark_host \<Rightarrow> farm \<Rightarrow> farm" where
  "enable_dark_mode h f =
     (if list_ex (same_host h \<circ> dh_address) (dark_hosts f) then f else f\<lparr>dark_hosts := dark_hosts f @ [h]\<rparr>)"

definition disable_dark_mode :: "dark_host \<Rightarrow> farm \<Rightarrow> farm" where
  "disable_dark_mode h f =
     (if list_ex (same_host h \<circ> dh_address) (dark_hosts f)
      then f\<lparr>dark_hosts := filter (\<lambda>i. \<not> same_host h (dh_address i)) (dark_hosts f), f_notified := f_notified f @ [''*'']\<rparr>
      else f)"

text \<open>
  The manager a user is given refers to the farm weakly; \<open>None\<close> when the farm is gone.
\<close>

definition manager_enable_dark_mode :: "dark_host \<Rightarrow> farm option \<Rightarrow> farm option" where
  "manager_enable_dark_mode h wsf = map_option (enable_dark_mode h) wsf"

definition manager_disable_dark_mode :: "dark_host \<Rightarrow> farm option \<Rightarrow> farm option" where
  "manager_disable_dark_mode h wsf = map_option (disable_dark_mode h) wsf"

definition manager_get_dark_hosts :: "farm option \<Rightarrow> dark_host list outcome" where
  "manager_get_dark_hosts wsf = (case wsf of Some f \<Rightarrow> Ret (dark_hosts f) | None \<Rightarrow> Panic)"

definition find_host :: "string \<Rightarrow> farm option \<Rightarrow> dark_host option outcome" where
  "find_host address wsf =
     bind_outcome (manager_get_dark_hosts wsf) (\<lambda>hosts. Ret (List.find (\<lambda>i. dh_address i = address) hosts))"

section \<open>Reports\<close>

definition get_sockets :: "farm \<Rightarrow> (string \<times> nat list) list" where
  "get_sockets f = map (\<lambda>(route, sub). (route, map snd sub)) (router_socket_map f)"

section \<open>Acquiring a socket\<close>

text \<open>A socket found removed is taken out of the farm in the background, and passed over.\<close>

definition remove_if_removed :: "nat \<Rightarrow> farm \<Rightarrow> farm" where
  "remove_if_removed r f =
     (if rs_removed (sock f r) then remove_router_socket_in_background (rs_route (sock f r)) (rs_id (sock f r)) r f else f)"

text \<open>Is there a socket of the host among these? The search ends at the first.\<close>

fun scan_domain :: "string \<Rightarrow> nat list \<Rightarrow> farm \<Rightarrow> bool \<times> farm" where
  "scan_domain host [] f = (False, f)"
| "scan_domain host (r # rs) f =
     (if rs_removed (sock f r) then scan_domain host rs (remove_if_removed r f)
      else if rs_domain (sock f r) = host then (True, f)
      else scan_domain host rs f)"

definition route_refs :: "string \<Rightarrow> farm \<Rightarrow> nat list" where
  "route_refs route f = (case am_get (router_socket_map f) route of Some sub \<Rightarrow> map snd sub | None \<Rightarrow> [])"

fun collect_routes :: "string \<Rightarrow> string list \<Rightarrow> farm \<Rightarrow> string list \<times> farm" where
  "collect_routes host [] f = ([], f)"
| "collect_routes host (route # routes) f =
     (let (found, f1) = scan_domain host (route_refs route f) f;
          (rest, f2) = collect_routes host routes f1
      in (if found then route # rest else rest, f2))"

record ('m, 'v) get_env =
  ge_ops :: "('m, 'v) header_ops"
  ge_filter :: "'m sock_filter"
  ge_allow_catch_all :: bool
  ge_req :: "'m req_info"
  ge_resolve :: "string set \<Rightarrow> string \<Rightarrow> string outcome"

definition ge_host :: "('m, 'v) get_env \<Rightarrow> string option" where
  "ge_host G = get_opt_host_from_uri_and_headers (ge_ops G) (rq_original_uri (ge_req G)) (rq_headers (ge_req G))"

text \<open>
  A running acquisition: in the loop over the queue, with the ids visited and whether sockets of the
  very host exist; waiting for a notification; or done.
\<close>

datatype get_pc = G_Scan "string list" bool | G_Notify | G_Done "nat res"

record getter =
  g_route :: string
  g_chan :: nat
  g_pos :: nat
  g_start :: i64
  g_pc :: get_pc

definition enter_main :: "('m, 'v) get_env \<Rightarrow> getter \<Rightarrow> farm \<Rightarrow> getter \<times> farm" where
  "enter_main G g f =
     (let (has_precise_match, f1) =
        (case ge_host G of Some host \<Rightarrow> scan_domain host (route_refs (g_route g) f) f | None \<Rightarrow> (False, f))
      in (g\<lparr>g_pc := G_Scan [] has_precise_match\<rparr>, f1))"

definition current_routes :: "('m, 'v) get_env \<Rightarrow> farm \<Rightarrow> string list \<times> farm" where
  "current_routes G f =
     (case ge_host G of
        None \<Rightarrow> (map fst (route_to_socket_chan f), f)
      | Some host \<Rightarrow>
          (case scan_domain host (registered_refs f) f of
             (True, f1) \<Rightarrow> collect_routes host (map fst (route_to_socket_chan f1)) f1
           | (False, f1) \<Rightarrow> (map fst (route_to_socket_chan f1), f1)))"

text \<open>The error when no socket was ever registered for the route.\<close>

definition no_route_error :: "string \<Rightarrow> crex" where
  "no_route_error target_path =
     with_err_kind (with_status_code (crex_new (''no router socket registered for this path yet: '' @ target_path)) 404)
       NoRouterSocketAvailable_0002"

definition get_begin :: "('m, 'v) get_env \<Rightarrow> i64 \<Rightarrow> farm \<Rightarrow> (farm \<times> getter res) outcome" where
  "get_begin G now f =
     (let (routes, f1) = current_routes G f
      in bind_outcome (ge_resolve G (set routes) (rq_target_path (ge_req G))) (\<lambda>resolved_route.
           case am_get (route_to_socket_chan f1) resolved_route of
             None \<Rightarrow> Ret (f1, Inl (no_route_error (rq_target_path (ge_req G))))
           | Some i \<Rightarrow>
               let f2 = f1\<lparr>waiting_task_count := waiting_task_count f1 + 1\<rparr>;
                   (g, f3) = enter_main G \<lparr>g_route = resolved_route, g_chan = i, g_pos = length (f_notified f2),
                     g_start = now, g_pc = G_Notify\<rparr> f2
               in Ret (f3, Inr g)))"

text \<open>Neither gone nor in dark mode.\<close>

definition usable :: "farm \<Rightarrow> nat \<Rightarrow> bool" where
  "usable f r \<longleftrightarrow> upgrades f r \<and> \<not> rs_removed (sock f r) \<and> \<not> is_dark_mode_on (dark_hosts f) (sock f r)"

definition is_v3 :: "farm \<Rightarrow> nat \<Rightarrow> bool" where
  "is_v3 f r \<longleftrightarrow> rs_version (sock f r) = CRANKER_V_3_0"

text \<open>
  The loop over a queue of the fallback: gives the socket taken, what is left in the queue once the
  sockets in dark mode and a version 3 socket taken are put back, and those found removed.
\<close>

fun fallback_loop :: "farm \<Rightarrow> nat list \<Rightarrow> nat list \<Rightarrow> nat list \<Rightarrow> nat option \<times> nat list \<times> nat list" where
  "fallback_loop f [] skipped gone = (None, skipped, gone)"
| "fallback_loop f (r # q) skipped gone =
     (if \<not> upgrades f r then fallback_loop f q skipped gone
      else if rs_removed (sock f r) then fallback_loop f q skipped (gone @ [r])
      else if is_dark_mode_on (dark_hosts f) (sock f r) then fallback_loop f q (skipped @ [r]) gone
      else (Some r, q @ skipped @ (if is_v3 f r then [r] else []), gone))"

definition fallback_from :: "nat \<Rightarrow> farm \<Rightarrow> nat option \<times> farm" where
  "fallback_from i f =
     (case fallback_loop f (queue f i) [] [] of
        (res, q, gone) \<Rightarrow> (res, foldl (\<lambda>f r. remove_if_removed r f) (set_queue i q f) gone))"

definition try_fallback_sockets :: "('m, 'v) get_env \<Rightarrow> nat \<Rightarrow> farm \<Rightarrow> nat option \<times> farm" where
  "try_fallback_sockets G i f =
     (case (if should_fallback_to_first_path_matched (ge_filter G) then fallback_from i f else (None, f)) of
        (Some r, f1) \<Rightarrow> (Some r, f1)
      | (None, f1) \<Rightarrow>
          if ge_allow_catch_all G \<and> should_fallback_to_catch_all (ge_filter G)
          then (case am_get (route_to_socket_chan f1) ''*'' of
                  None \<Rightarrow> (None, f1)
                | Some ca \<Rightarrow> fallback_from ca f1)
          else (None, f1))"

text \<open>The task that gets a socket holds it.\<close>

definition hand_out :: "nat \<Rightarrow> getter \<Rightarrow> farm \<Rightarrow> getter \<times> farm" where
  "hand_out r g f = (g\<lparr>g_pc := G_Done (Inr r)\<rparr>, f\<lparr>f_held := r # f_held f, waiting_task_count := waiting_task_count f + (-1)\<rparr>)"

text \<open>After the loop over the queue.\<close>

definition after_scan :: "('m, 'v) get_env \<Rightarrow> getter \<Rightarrow> farm \<Rightarrow> getter \<times> farm" where
  "after_scan G g f =
     (case try_fallback_sockets G (g_chan g) f of
        (Some r, f1) \<Rightarrow> hand_out r g f1
      | (None, f1) \<Rightarrow> (g\<lparr>g_pc := G_Notify\<rparr>, f1))"

text \<open>One turn of the loop over the queue. It waits while the queue is empty.\<close>

definition scan_turn :: "('m, 'v) get_env \<Rightarrow> string list \<Rightarrow> bool \<Rightarrow> getter \<Rightarrow> farm \<Rightarrow> getter \<times> farm" where
  "scan_turn G visited has_precise_match g f =
     (case queue f (g_chan g) of
        [] \<Rightarrow> (g, f)
      | r # rest \<Rightarrow>
          let s = sock f r;
              popped = set_queue (g_chan g) rest f;
              put_back = set_queue (g_chan g) (rest @ [r]) f
          in if \<not> upgrades f r then (g, popped)
             else if rs_id s \<in> set visited then after_scan G g put_back
             else if rs_removed s then (g, remove_if_removed r popped)
             else let g' = g\<lparr>g_pc := G_Scan (rs_id s # visited) has_precise_match\<rparr>
                  in if is_dark_mode_on (dark_hosts f) s then (g', put_back)
                     else if has_precise_match \<and> rs_domain s = ''*'' then (g', put_back)
                     else if should_use (ge_filter G) (ge_req G) s
                       then hand_out r g (if is_v3 f r then put_back else popped)
                     else (g', put_back))"

text \<open>
  A message of the broadcast channel, which keeps the last 128. A receiver that lags behind more than
  that starts again as well.
\<close>

definition notify_turn :: "('m, 'v) get_env \<Rightarrow> getter \<Rightarrow> farm \<Rightarrow> getter \<times> farm" where
  "notify_turn G g f =
     (if g_pos g + 128 < length (f_notified f)
      then enter_main G (g\<lparr>g_pos := length (f_notified f) - 128\<rparr>) f
      else if g_pos g < length (f_notified f)
      then let route = f_notified f ! g_pos g; g' = g\<lparr>g_pos := Suc (g_pos g)\<rparr>
           in if route = g_route g \<or> route = ''*'' then enter_main G g' f else (g', f)
      else (g, f))"

definition get_turn :: "('m, 'v) get_env \<Rightarrow> getter \<Rightarrow> farm \<Rightarrow> getter \<times> farm" where
  "get_turn G g f =
     (case g_pc g of
        G_Scan visited has_precise_match \<Rightarrow> scan_turn G visited has_precise_match g f
      | G_Notify \<Rightarrow> notify_turn G g f
      | G_Done r \<Rightarrow> (g, f))"

definition timeout_error :: "('m, 'v) get_env \<Rightarrow> farm \<Rightarrow> crex" where
  "timeout_error G f =
     with_err_kind (with_status_code (crex_new (''No cranker connector available within '' @ show_int (max_wait_in_millis f) @
       '' ms. target path = '' @ rq_target_path (ge_req G) @ '' '')) 503) NoRouterSocketAvailable_0002"

definition get_timeout :: "('m, 'v) get_env \<Rightarrow> i64 \<Rightarrow> getter \<Rightarrow> farm \<Rightarrow> getter \<times> farm" where
  "get_timeout G now g f =
     (let f1 = f\<lparr>waiting_task_count := waiting_task_count f + (-1)\<rparr>
      in case try_fallback_sockets G (g_chan g) f1 of
           (Some r, f2) \<Rightarrow> (g\<lparr>g_pc := G_Done (Inr r)\<rparr>, f2\<lparr>f_held := r # f_held f2\<rparr>)
         | (None, f2) \<Rightarrow>
             (g\<lparr>g_pc := G_Done (Inl (timeout_error G f2))\<rparr>,
              f2\<lparr>f_acquire_failures := f_acquire_failures f2 @ [(g_route g, now - g_start g)]\<rparr>))"

fun get_run :: "('m, 'v) get_env \<Rightarrow> nat \<Rightarrow> getter \<Rightarrow> farm \<Rightarrow> getter \<times> farm" where
  "get_run G 0 g f = (g, f)"
| "get_run G (Suc n) g f = (case get_turn G g f of (g', f') \<Rightarrow> get_run G n g' f')"

section \<open>Dark mode decides what is usable\<close>

lemma find_map_Some: "List.find P xs = None \<longleftrightarrow> \<not> list_ex P xs"
  by (induction xs) auto

text \<open>What the manager finds is what the search for a socket passes over.\<close>

lemma dark_mode_found: "find_host (rs_ip s) (Some f) = Ret None \<longleftrightarrow> \<not> is_dark_mode_on (dark_hosts f) s"
  by (simp add: find_host_def manager_get_dark_hosts_def find_map_Some is_dark_mode_on_def same_host_def)

lemma enable_blocks:
  "usable (enable_dark_mode h f) r \<longleftrightarrow> usable f r \<and> rs_ip (sock f r) \<noteq> dh_address h"
  by (auto simp: enable_dark_mode_def usable_def upgrades_def registered_refs_def sock_def is_dark_mode_on_def same_host_def list_ex_iff)

lemma disable_unblocks:
  "usable (disable_dark_mode h f) r \<longleftrightarrow>
     usable f r \<or> upgrades f r \<and> \<not> rs_removed (sock f r) \<and> rs_ip (sock f r) = dh_address h"
  by (auto simp: disable_dark_mode_def usable_def upgrades_def registered_refs_def sock_def is_dark_mode_on_def same_host_def list_ex_iff)

section \<open>What acquiring leaves alone\<close>

text \<open>The two states agree on everything the choice of a socket depends on but the queues.\<close>

definition same_view :: "farm \<Rightarrow> farm \<Rightarrow> bool" where
  "same_view f f' \<longleftrightarrow> f_socks f' = f_socks f \<and> f_held f' = f_held f \<and> router_socket_map f' = router_socket_map f \<and>
     route_to_socket_chan f' = route_to_socket_chan f \<and> dark_hosts f' = dark_hosts f"

lemma same_view_refl [simp]: "same_view f f"
  by (simp add: same_view_def)

lemma same_view_trans: "same_view f f' \<Longrightarrow> same_view f' f'' \<Longrightarrow> same_view f f''"
  by (simp add: same_view_def)

lemma same_view_sock: "same_view f f' \<Longrightarrow> sock f' r = sock f r"
  by (simp add: same_view_def sock_def)

lemma same_view_upgrades: "same_view f f' \<Longrightarrow> upgrades f' = upgrades f"
  by (simp add: same_view_def upgrades_def registered_refs_def fun_eq_iff)

lemma same_view_usable: "same_view f f' \<Longrightarrow> usable f' = usable f"
  by (rule ext) (simp add: usable_def same_view_upgrades same_view_sock, simp add: same_view_def)

lemma view_set_queue [simp]: "same_view f (set_queue i q f)"
  by (simp add: same_view_def set_queue_def)

lemma view_remove [simp]: "same_view f (remove_if_removed r f)" "queue (remove_if_removed r f) i = queue f i"
  "f_chans (remove_if_removed r f) = f_chans f"
  by (simp_all add: same_view_def remove_if_removed_def remove_router_socket_in_background_def spawn_def queue_def)

lemma queue_set_queue: "i < length (f_chans f) \<Longrightarrow> queue (set_queue i q f) j = (if j = i then q else queue f j)"
  by (simp add: queue_def set_queue_def)

lemma view_fold_remove: "same_view f (foldl (\<lambda>f r. remove_if_removed r f) f gone)"
proof (induction gone arbitrary: f)
  case (Cons r gone)
  show ?case using same_view_trans [OF view_remove(1) Cons.IH] by simp
qed simp

section \<open>Fallback\<close>

lemma fallback_loop_takes:
  "fallback_loop f q skipped gone = (Some r, q', gone') \<Longrightarrow> r \<in> set q \<and> usable f r"
  by (induction f q skipped gone rule: fallback_loop.induct) (auto simp: usable_def split: if_splits)

lemma fallback_from_takes:
  "fallback_from i f = (res, f') \<Longrightarrow> same_view f f' \<and> (\<forall>r. res = Some r \<longrightarrow> r \<in> set (queue f i) \<and> usable f r)"
  using fallback_loop_takes [of f "queue f i" "[]" "[]"] same_view_trans [OF view_set_queue view_fold_remove]
  by (auto simp: fallback_from_def split: prod.splits)

text \<open>A fallback is allowed, and gives this socket.\<close>

definition fallback_ok :: "('m, 'v) get_env \<Rightarrow> nat \<Rightarrow> farm \<Rightarrow> nat \<Rightarrow> bool" where
  "fallback_ok G i f r \<longleftrightarrow> usable f r \<and>
     (should_fallback_to_first_path_matched (ge_filter G) \<or>
      ge_allow_catch_all G \<and> should_fallback_to_catch_all (ge_filter G) \<and> am_get (route_to_socket_chan f) ''*'' \<noteq> None)"

lemma try_fallback_takes:
  assumes "try_fallback_sockets G i f = (Some r, f')"
  shows "fallback_ok G i f r"
proof (cases "should_fallback_to_first_path_matched (ge_filter G)")
  case True
  obtain res f1 where f1: "fallback_from i f = (res, f1)" by (cases "fallback_from i f")
  note view = fallback_from_takes [OF f1]
  show ?thesis
  proof (cases res)
    case None
    with True assms f1 obtain ca where "am_get (route_to_socket_chan f1) ''*'' = Some ca" "fallback_from ca f1 = (Some r, f')"
      by (auto simp: try_fallback_sockets_def split: if_splits option.splits)
    moreover have "usable f1 = usable f" using view same_view_usable by blast
    ultimately show ?thesis
      using fallback_from_takes [of ca f1 "Some r" f'] True by (simp add: fallback_ok_def)
  next
    case (Some r')
    with True assms f1 view show ?thesis by (simp add: try_fallback_sockets_def fallback_ok_def)
  qed
next
  case False
  with assms obtain ca where "am_get (route_to_socket_chan f) ''*'' = Some ca" "fallback_from ca f = (Some r, f')"
    "ge_allow_catch_all G" "should_fallback_to_catch_all (ge_filter G)"
    by (auto simp: try_fallback_sockets_def split: if_splits option.splits)
  with fallback_from_takes [of ca f "Some r" f'] show ?thesis by (simp add: fallback_ok_def)
qed

section \<open>The socket that is handed out\<close>

text \<open>The choice of the loop over the queue.\<close>

definition suitable :: "('m, 'v) get_env \<Rightarrow> bool \<Rightarrow> farm \<Rightarrow> nat \<Rightarrow> bool" where
  "suitable G has_precise_match f r \<longleftrightarrow> usable f r \<and> \<not> (has_precise_match \<and> rs_domain (sock f r) = ''*'') \<and>
     should_use (ge_filter G) (ge_req G) (sock f r)"

lemma set_queue_fallback_ok: "fallback_ok G i (set_queue j q f) r \<longleftrightarrow> fallback_ok G i f r"
  by (simp add: fallback_ok_def same_view_usable [OF view_set_queue]) (simp add: set_queue_def)

text \<open>
  Claim C10: a request is only ever given a socket that is alive, was not removed and whose host is not
  in dark mode. While the queue of the route is searched it is one the filter accepts, and one of the
  request's very domain when there are such; otherwise the filter asked for a fallback, to the first
  socket of the route or to the catch-all route.
\<close>

theorem acquired_socket_usable:
  assumes "\<forall>x. g_pc g \<noteq> G_Done x" "(g', f') \<in> {get_turn G g f, get_timeout G now g f}" "g_pc g' = G_Done (Inr r)"
  shows "usable f r \<and>
    ((\<exists>visited hp. g_pc g = G_Scan visited hp \<and> suitable G hp f r \<and> r \<in> set (queue f (g_chan g))) \<or> fallback_ok G (g_chan g) f r)"
proof -
  have enter: "g_pc (fst (enter_main G h f)) \<noteq> G_Done x" for h x
    by (simp add: enter_main_def split: prod.splits option.splits)
  have after: "fallback_ok G (g_chan g) f r" if "after_scan G g (set_queue j q f) = (g', f')" for j q
    using that try_fallback_takes [of G "g_chan g" "set_queue j q f" r] assms(1,3)
    by (auto simp: after_scan_def hand_out_def set_queue_fallback_ok split: prod.splits option.splits)
  consider (turn) "get_turn G g f = (g', f')" | (timeout) "get_timeout G now g f = (g', f')"
    using assms(2) by auto
  then show ?thesis
  proof cases
    case timeout
    let ?f = "f\<lparr>waiting_task_count := waiting_task_count f + (-1)\<rparr>"
    have "same_view f ?f" by (simp add: same_view_def)
    then show ?thesis
      using timeout try_fallback_takes [of G "g_chan g" ?f r] assms(3)
      by (auto simp: get_timeout_def Let_def fallback_ok_def same_view_usable split: prod.splits option.splits)
  next
    case turn
    show ?thesis
    proof (cases "g_pc g")
      case (G_Scan visited hp)
      then have scan: "scan_turn G visited hp g f = (g', f')" using turn by (simp add: get_turn_def)
      then obtain x rest where x: "queue f (g_chan g) = x # rest"
        using assms(1,3) by (cases "queue f (g_chan g)") (auto simp: scan_turn_def)
      consider (after) j q where "after_scan G g (set_queue j q f) = (g', f')" | (chosen) "x = r" "suitable G hp f x"
        using scan x assms(1,3)
        by (auto simp: scan_turn_def Let_def hand_out_def suitable_def usable_def split: if_splits)
      then show ?thesis
      proof cases
        case after
        from \<open>\<And>j q. after_scan G g (set_queue j q f) = (g', f') \<Longrightarrow> _\<close> [OF after] show ?thesis by (simp add: fallback_ok_def)
      next
        case chosen
        then show ?thesis using G_Scan x by (auto simp: suitable_def)
      qed
    next
      case G_Notify
      then show ?thesis
        using turn assms(1,3) enter by (auto simp: get_turn_def notify_turn_def Let_def split: if_splits) (metis fst_conv)+
    qed (use assms(1) in simp)
  qed
qed

section \<open>Sockets are taken in turn\<close>

text \<open>A socket that is alive and was not removed: passing it over puts it back at the end.\<close>

definition stays :: "farm \<Rightarrow> nat \<Rightarrow> bool" where
  "stays f r \<longleftrightarrow> upgrades f r \<and> \<not> rs_removed (sock f r)"

lemma suitable_stays: "suitable G hp f r \<Longrightarrow> stays f r"
  by (simp add: suitable_def usable_def stays_def)

lemma same_view_suitable: "same_view f f' \<Longrightarrow> suitable G hp f' = suitable G hp f"
  by (rule ext) (simp add: suitable_def same_view_usable same_view_sock)

lemma same_view_stays: "same_view f f' \<Longrightarrow> stays f' = stays f"
  by (rule ext) (simp add: stays_def same_view_upgrades same_view_sock)

text \<open>A turn at a socket that does not suit.\<close>

lemma scan_pass:
  assumes "g_pc g = G_Scan visited hp" "queue f (g_chan g) = x # rest" "g_chan g < length (f_chans f)"
    and "\<not> suitable G hp f x" "upgrades f x \<Longrightarrow> rs_id (sock f x) \<notin> set visited"
  shows "\<exists>f' visited'. get_turn G g f = (g\<lparr>g_pc := G_Scan visited' hp\<rparr>, f') \<and> same_view f f' \<and>
    length (f_chans f') = length (f_chans f) \<and> queue f' (g_chan g) = rest @ (if stays f x then [x] else []) \<and>
    set visited' = set visited \<union> (if stays f x then {rs_id (sock f x)} else {})"
proof (cases "stays f x")
  case True
  let ?f = "set_queue (g_chan g) (rest @ [x]) f"
  have "get_turn G g f = (g\<lparr>g_pc := G_Scan (rs_id (sock f x) # visited) hp\<rparr>, ?f)"
    using True assms by (auto simp: get_turn_def scan_turn_def Let_def stays_def suitable_def usable_def)
  moreover have "length (f_chans ?f) = length (f_chans f)" by (simp add: set_queue_def)
  ultimately show ?thesis
    using True assms(3) by (intro exI [of _ ?f] exI [of _ "rs_id (sock f x) # visited"]) (simp add: queue_set_queue)
next
  case False
  define f' where "f' = (if upgrades f x then remove_if_removed x (set_queue (g_chan g) rest f) else set_queue (g_chan g) rest f)"
  have "get_turn G g f = (g, f')"
    using False assms by (auto simp: get_turn_def scan_turn_def Let_def stays_def f'_def)
  moreover have "g\<lparr>g_pc := G_Scan visited hp\<rparr> = g" using assms(1) by simp
  moreover have "same_view f f'"
    by (simp add: f'_def same_view_trans [OF view_set_queue view_remove(1)])
  moreover have "length (f_chans f') = length (f_chans f)" "queue f' (g_chan g) = rest"
    using assms(3) by (simp_all add: f'_def queue_set_queue) (simp add: set_queue_def)
  ultimately show ?thesis
    using False by (intro exI [of _ f'] exI [of _ visited]) simp
qed

text \<open>
  Claim C7: sockets are taken in turn and none is lost. If a socket of the queue suits the request, the
  search hands out the first that does, after one turn for each socket before it; those before it
  that are alive and not removed are moved to the end in their order, the others are dropped, and
  the socket itself follows them if it can serve several requests at a time.
\<close>

theorem first_suitable_in_turn:
  assumes "g_pc g = G_Scan [] hp" "queue f (g_chan g) = xs @ r # ys" "g_chan g < length (f_chans f)"
    and "\<forall>x \<in> set xs. \<not> suitable G hp f x" "suitable G hp f r"
    and "distinct (map (\<lambda>x. rs_id (sock f x)) (xs @ [r]))"
  shows "\<exists>f'. get_run G (Suc (length xs)) g f = (g\<lparr>g_pc := G_Done (Inr r)\<rparr>, f') \<and>
    queue f' (g_chan g) = ys @ filter (stays f) xs @ (if is_v3 f r then [r] else [])"
proof -
  have "\<exists>f'. get_run G (Suc (length xs)) g f = (g\<lparr>g_pc := G_Done (Inr r)\<rparr>, f') \<and>
      queue f' (g_chan g) = zs @ filter (stays f) xs @ (if is_v3 f r then [r] else [])"
    if "g_pc g = G_Scan visited hp" "queue f (g_chan g) = xs @ r # zs" "g_chan g < length (f_chans f)"
      "\<forall>x \<in> set xs. \<not> suitable G hp f x" "suitable G hp f r"
      "distinct (map (\<lambda>x. rs_id (sock f x)) (xs @ [r]))" "set visited \<inter> (\<lambda>x. rs_id (sock f x)) ` set (xs @ [r]) = {}"
    for visited zs f g
    using that
  proof (induction xs arbitrary: g f visited zs)
    case Nil
    then show ?case
      by (auto simp: get_turn_def scan_turn_def Let_def hand_out_def suitable_def usable_def queue_def set_queue_def)
  next
    case (Cons x xs)
    then obtain f' visited' where f': "get_turn G g f = (g\<lparr>g_pc := G_Scan visited' hp\<rparr>, f')" "same_view f f'"
      "length (f_chans f') = length (f_chans f)" "queue f' (g_chan g) = (xs @ r # zs) @ (if stays f x then [x] else [])"
      "set visited' = set visited \<union> (if stays f x then {rs_id (sock f x)} else {})"
      using scan_pass [of g visited hp f x "xs @ r # zs" G] by auto
    note view = same_view_suitable [OF f'(2)] same_view_stays [OF f'(2)] same_view_sock [OF f'(2)]
    have "\<exists>f''. get_run G (Suc (length xs)) (g\<lparr>g_pc := G_Scan visited' hp\<rparr>) f' = (g\<lparr>g_pc := G_Scan visited' hp, g_pc := G_Done (Inr r)\<rparr>, f'') \<and>
      queue f'' (g_chan (g\<lparr>g_pc := G_Scan visited' hp\<rparr>)) = (zs @ (if stays f x then [x] else [])) @ filter (stays f') xs @ (if is_v3 f' r then [r] else [])"
      by (rule Cons.IH [where visited = visited']) (use Cons.prems f' in \<open>auto simp: view split: if_splits\<close>)
    then show ?case
      using f'(1) by (auto simp: view is_v3_def)
  qed
  from this [of g "[]" f ys] assms show ?thesis by simp
qed

text \<open>
  Two sockets of one route, the first of a host in dark mode, and a request served by the route.
\<close>

definition sample_farm :: farm where
  "sample_farm = enable_dark_mode \<lparr>dh_address = ''10.0.0.1'', dh_date_enabled = 0, dh_reason = ''patching''\<rparr>
     (run_add 1 (run_add 0 ((farm_new 5000)\<lparr>f_socks :=
       [\<lparr>rs_id = ''a'', rs_route = ''web'', rs_domain = ''*'', rs_component = ''web'', rs_connector = ''c1'', rs_ip = ''10.0.0.1'',
         rs_port = 1, rs_version = CRANKER_V_3_0, rs_removed = False, rs_active = False, rs_inflight = 0\<rparr>,
        \<lparr>rs_id = ''b'', rs_route = ''web'', rs_domain = ''*'', rs_component = ''web'', rs_connector = ''c2'', rs_ip = ''10.0.0.2'',
         rs_port = 1, rs_version = CRANKER_V_3_0, rs_removed = False, rs_active = False, rs_inflight = 0\<rparr>]\<rparr>)))"

definition sample_get :: "((string \<times> string) list, string) get_env" where
  "sample_get = \<lparr>ge_ops = lhm, ge_filter = DefaultRouterSocketFilter, ge_allow_catch_all = True,
     ge_req = \<lparr>rq_target_path = ''/web/x'', rq_method = ''GET'', rq_original_uri = sample_uri, rq_headers = [], rq_addr = \<lparr>sa_ip = ''10.0.0.7'', sa_port = 4000\<rparr>\<rparr>,
     ge_resolve = (\<lambda>routes path. Ret (default_resolve routes path))\<rparr>"

definition sample_getter :: getter where
  "sample_getter = \<lparr>g_route = ''web'', g_chan = 0, g_pos = 2, g_start = 0, g_pc = G_Scan [] False\<rparr>"

lemma sample_farm_simps:
  "queue sample_farm 0 = [0, 1]" "length (f_chans sample_farm) = 1" "rs_id (sock sample_farm 0) = ''a''" "rs_id (sock sample_farm 1) = ''b''"
  "\<not> suitable sample_get False sample_farm 0" "suitable sample_get False sample_farm 1" "is_v3 sample_farm 1" "stays sample_farm 0"
  by (simp_all add: sample_farm_def enable_dark_mode_def run_add_def farm_new_def sock_def queue_def set_queue_def Let_def am_get_Cons
      suitable_def usable_def stays_def upgrades_def registered_refs_def is_dark_mode_on_def same_host_def sample_get_def
      DefaultRouterSocketFilter_def is_v3_def)

theorem first_suitable_in_turn_witness:
  "\<exists>f'. get_run sample_get 2 sample_getter sample_farm = (sample_getter\<lparr>g_pc := G_Done (Inr 1)\<rparr>, f') \<and> queue f' 0 = [0, 1]"
  using first_suitable_in_turn [of sample_getter False sample_farm "[0]" 1 "[]" sample_get] sample_farm_simps
  by (simp add: sample_getter_def numeral_2_eq_2)

theorem acquired_socket_usable_witness:
  "usable (set_queue 0 [1, 0] sample_farm) 1"
proof -
  let ?f = "set_queue 0 [1, 0] sample_farm"
  have "suitable sample_get False ?f 1"
    using sample_farm_simps(6) same_view_suitable [OF view_set_queue] by metis
  moreover have "queue ?f 0 = [1, 0]" using sample_farm_simps(2) by (simp add: queue_set_queue)
  ultimately have "g_pc (fst (get_turn sample_get sample_getter ?f)) = G_Done (Inr 1)"
    by (auto simp: sample_getter_def get_turn_def scan_turn_def Let_def hand_out_def suitable_def usable_def)
  then show ?thesis
    using acquired_socket_usable [of sample_getter "fst (get_turn sample_get sample_getter ?f)" "snd (get_turn sample_get sample_getter ?f)"
        sample_get ?f 0 1] by (simp add: sample_getter_def)
qed

end
