(* ===== verification/Router_Info.thy ===== *)
theory Router_Info
  imports Websocket_Farm "HOL-Library.Char_ord" "HOL-Library.List_Lexorder" "HOL-Library.Multiset"
begin

text \<open>
  The report on the connected services (\<^verbatim>\<open>router_info.rs\<close>, \<^verbatim>\<open>connector_service.rs\<close>,
  \<^verbatim>\<open>connector_instance.rs\<close>, \<^verbatim>\<open>connector_connection.rs\<close>) and the functions of \<^verbatim>\<open>lib.rs\<close> that give it out.
  A report reads the farm through weak references, so the state in which they are followed is an
  argument. Strings are compared byte by byte, as the order of char lists does.
\<close>

section \<open>What is reported\<close>

record connector_connection =
  cc_domain :: string
  cc_port :: int
  cc_router_socket_id :: string
  cc_protocol :: string
  cc_inflight :: i32

record connector_instance =
  ic_connection_count :: nat
  ic_dark_mode :: bool
  ic_connector_id :: string
  ic_connections :: "connector_connection list"
  ic_ip :: string
  ic_component_name :: string

record connector_service =
  sv_route :: string
  sv_component_name :: string
  sv_connectors :: "connector_instance list"
  sv_is_catch_all :: bool

record router_info =
  ri_services :: "connector_service list"
  ri_dark_hosts :: "dark_host list"
  ri_waiting_tasks :: "(string \<times> string list) list"

text \<open>The fields left out of the serialised form.\<close>

definition skip_domain :: "string \<Rightarrow> bool" where
  "skip_domain domain \<longleftrightarrow> domain = ''*''"

definition skip_inflight :: "i32 \<Rightarrow> bool" where
  "skip_inflight ifl \<longleftrightarrow> sint ifl < 0"

section \<open>Collecting\<close>

definition connection_of :: "rsock \<Rightarrow> connector_connection" where
  "connection_of s = \<lparr>cc_domain = rs_domain s, cc_port = rs_port s, cc_router_socket_id = rs_id s,
     cc_protocol = rs_version s, cc_inflight = rs_inflight s\<rparr>"

definition instance_of :: "dark_host list \<Rightarrow> rsock \<Rightarrow> connector_instance" where
  "instance_of dark s = \<lparr>ic_connection_count = 0, ic_dark_mode = is_dark_mode_on dark s, ic_connector_id = rs_connector s,
     ic_connections = [], ic_ip = rs_ip s, ic_component_name = rs_component s\<rparr>"

definition push_connection :: "rsock \<Rightarrow> connector_instance \<Rightarrow> connector_instance" where
  "push_connection s i = i\<lparr>ic_connections := ic_connections i @ [connection_of s], ic_connection_count := ic_connection_count i + 1\<rparr>"

fun service_loop :: "farm \<Rightarrow> dark_host list \<Rightarrow> nat list \<Rightarrow> (string \<times> connector_instance) list \<Rightarrow> string option \<Rightarrow>
    (string \<times> connector_instance) list \<times> string option" where
  "service_loop f dark [] instance_map component_name = (instance_map, component_name)"
| "service_loop f dark (r # rs) instance_map component_name =
     (if upgrades f r
      then let s = sock f r;
               connector_instance = (case am_get instance_map (rs_connector s) of None \<Rightarrow> instance_of dark s | Some i \<Rightarrow> i)
           in service_loop f dark rs (am_put instance_map (rs_connector s) (push_connection s connector_instance)) (Some (rs_component s))
      else service_loop f dark rs instance_map component_name)"

definition first_protocol :: "connector_instance \<Rightarrow> string" where
  "first_protocol i = (case ic_connections i of [] \<Rightarrow> [] | c # _ \<Rightarrow> cc_protocol c)"

definition connector_service_of :: "farm \<Rightarrow> dark_host list \<Rightarrow> string \<Rightarrow> nat list \<Rightarrow> connector_service" where
  "connector_service_of f dark route rs =
     (let (instance_map, component_name) = service_loop f dark rs [] None
      in \<lparr>sv_route = route, sv_component_name = (case component_name of Some n \<Rightarrow> n | None \<Rightarrow> ''[UNKNOWN]''),
          sv_connectors = sort_key first_protocol (map snd instance_map), sv_is_catch_all = (route = ''*'')\<rparr>)"

definition get_connector_service_list :: "farm \<Rightarrow> (string \<times> nat list) list \<Rightarrow> dark_host list \<Rightarrow> connector_service list" where
  "get_connector_service_list f sockets dark = map (\<lambda>(route, rs). connector_service_of f dark route rs) sockets"

definition get_waiting_tasks :: "farm \<Rightarrow> (string \<times> string list) list" where
  "get_waiting_tasks f = map (\<lambda>(route, tasks). (route, tasks)) (waiting_tasks f)"

definition collect_info :: "farm \<Rightarrow> router_info" where
  "collect_info f =
     \<lparr>ri_services = get_connector_service_list f (get_sockets f) (dark_hosts f), ri_dark_hosts = dark_hosts f,
      ri_waiting_tasks = get_waiting_tasks f\<rparr>"

definition idle_connection_count :: "farm \<Rightarrow> i32" where
  "idle_connection_count f = f_idle_count f"

text \<open>The body of the answer to \<^verbatim>\<open>/health/connectors\<close>, before it is serialised.\<close>

definition connector_info_handler :: "farm \<Rightarrow> nat \<times> (string \<times> (string \<times> connector_service) list) list" where
  "connector_info_handler f =
     (200, [(''services'', foldl (\<lambda>m cs. am_put m (sv_route cs) cs) [] (ri_services (collect_info f)))])"

definition health_root :: "nat \<times> string" where
  "health_root = (200, ''{\"isAvailable\":true}'')"

section \<open>Lemmas\<close>

text \<open>What the instance of one connector reports once the sockets \<open>rs\<close> were seen.\<close>

definition instance_reports :: "farm \<Rightarrow> dark_host list \<Rightarrow> nat list \<Rightarrow> connector_instance \<Rightarrow> bool" where
  "instance_reports f dark rs i \<longleftrightarrow>
     (let own = filter (\<lambda>s. rs_connector s = ic_connector_id i) (map (sock f) rs)
      in own \<noteq> [] \<and> ic_connections i = map connection_of own \<and> ic_connection_count i = length own \<and>
         ic_ip i = rs_ip (hd own) \<and> ic_component_name i = rs_component (hd own) \<and> ic_dark_mode i = is_dark_mode_on dark (hd own))"

definition map_reports :: "farm \<Rightarrow> dark_host list \<Rightarrow> nat list \<Rightarrow> (string \<times> connector_instance) list \<Rightarrow> bool" where
  "map_reports f dark rs m \<longleftrightarrow> am_ok m \<and> fst ` set m = rs_connector ` sock f ` set rs \<and>
     (\<forall>k i. am_get m k = Some i \<longrightarrow> ic_connector_id i = k \<and> instance_reports f dark rs i)"

lemma map_reports_Nil: "map_reports f dark [] []"
  by (simp add: map_reports_def)

lemma own_step:
  "filter (\<lambda>s. rs_connector s = k) (map (sock f) (rs @ [r])) =
   filter (\<lambda>s. rs_connector s = k) (map (sock f) rs) @ (if rs_connector (sock f r) = k then [sock f r] else [])"
  by simp

lemma map_reports_step:
  fixes f dark rs m r
  assumes "map_reports f dark rs m"
  defines "s \<equiv> sock f r"
  defines "i \<equiv> (case am_get m (rs_connector s) of None \<Rightarrow> instance_of dark s | Some i \<Rightarrow> i)"
  shows "map_reports f dark (rs @ [r]) (am_put m (rs_connector s) (push_connection s i))"
proof -
  have m: "am_ok m" "fst ` set m = rs_connector ` sock f ` set rs"
    "\<And>k i. am_get m k = Some i \<Longrightarrow> ic_connector_id i = k \<and> instance_reports f dark rs i"
    using assms(1) by (auto simp: map_reports_def)
  have "ic_connector_id (push_connection s i) = rs_connector s \<and> instance_reports f dark (rs @ [r]) (push_connection s i)"
  proof (cases "am_get m (rs_connector s)")
    case None
    then have "rs_connector s \<notin> rs_connector ` sock f ` set rs"
      using m(2) by (simp add: am_get_None_iff am_keys_def)
    then have "filter (\<lambda>t. rs_connector t = rs_connector s) (map (sock f) rs) = []"
      unfolding filter_empty_conv by (metis image_eqI list.set_map)
    with None show ?thesis
      by (simp only: i_def option.case instance_reports_def)
        (simp add: push_connection_def instance_of_def s_def)
  next
    case (Some j)
    from m(3) [OF this] have "ic_connector_id j = rs_connector s" "instance_reports f dark rs j" by simp_all
    with Some show ?thesis
      by (simp add: i_def instance_reports_def push_connection_def Let_def s_def [symmetric])
  qed
  moreover have "instance_reports f dark (rs @ [r]) j" if "instance_reports f dark rs j" "ic_connector_id j \<noteq> rs_connector s" for j
    using that by (simp add: instance_reports_def Let_def s_def)
  ultimately show ?thesis
    using m by (auto simp: map_reports_def s_def split: if_splits)
qed

lemma service_loop_reports:
  assumes "map_reports f dark done m" and "list_all (upgrades f) rs"
  shows "map_reports f dark (done @ rs) (fst (service_loop f dark rs m c)) \<and>
    snd (service_loop f dark rs m c) = (if rs = [] then c else Some (rs_component (sock f (last rs))))"
  using assms
proof (induction rs arbitrary: "done" m c)
  case (Cons r rs)
  from Cons.IH [OF map_reports_step [OF Cons.prems(1), of r]] Cons.prems(2) show ?case
    by (simp add: Let_def)
qed simp

lemma sorted_first_protocol: "sorted (map first_protocol (sort_key first_protocol is))"
  by (rule sorted_sort_key)

text \<open>What the entry of one route reports of the sockets \<open>rs\<close> registered under it.\<close>

definition service_reports :: "farm \<Rightarrow> dark_host list \<Rightarrow> string \<Rightarrow> nat list \<Rightarrow> connector_service \<Rightarrow> bool" where
  "service_reports f dark route rs s \<longleftrightarrow> sv_route s = route \<and> sv_is_catch_all s = (route = ''*'') \<and>
     sv_component_name s = (if rs = [] then ''[UNKNOWN]'' else rs_component (sock f (last rs))) \<and>
     distinct (map ic_connector_id (sv_connectors s)) \<and>
     ic_connector_id ` set (sv_connectors s) = rs_connector ` sock f ` set rs \<and>
     list_all (instance_reports f dark rs) (sv_connectors s) \<and> sorted (map first_protocol (sv_connectors s))"

lemma service_of_reports:
  assumes "list_all (upgrades f) rs"
  shows "service_reports f dark route rs (connector_service_of f dark route rs)"
proof -
  obtain m c where l: "service_loop f dark rs [] None = (m, c)" by fastforce
  with service_loop_reports [OF map_reports_Nil assms, of dark None]
  have m: "map_reports f dark rs m" and c: "c = (if rs = [] then None else Some (rs_component (sock f (last rs))))" by simp_all
  have ids: "map ic_connector_id (map snd m) = map fst m"
    using m am_get_iff_in_set [of m] by (auto simp: map_reports_def)
  have reports: "\<forall>i \<in> set (map snd m). instance_reports f dark rs i"
    using m am_get_iff_in_set [of m] by (auto simp: map_reports_def)
  let ?sorted = "sort_key first_protocol (map snd m)"
  have "ic_connector_id ` set ?sorted = rs_connector ` sock f ` set rs"
    using m arg_cong [OF ids, of set] by (simp add: map_reports_def image_comp comp_def)
  moreover have "distinct (map ic_connector_id ?sorted)"
  proof -
    have "mset (map ic_connector_id ?sorted) = mset (map fst m)" by (simp add: ids [symmetric] image_mset.compositionality comp_def)
    moreover have "distinct (map fst m)" using m by (simp add: map_reports_def am_ok_def)
    ultimately show ?thesis by (metis mset_eq_imp_distinct_iff)
  qed
  ultimately show ?thesis
    using reports l c by (simp add: connector_service_of_def service_reports_def list_all_iff)
qed

lemma registered_upgrade: "(route, sub) \<in> set (router_socket_map f) \<Longrightarrow> list_all (upgrades f) (map snd sub)"
  by (force simp: list_all_iff upgrades_def registered_refs_def)

section \<open>Property\<close>

text \<open>
  Claim C39: the report has one entry per registered route, in which every registered socket of the
  route is reported exactly once, with its connector: the instances are the connectors of the route,
  each once, with exactly their own sockets, in order, and the count of them; instances are sorted by
  protocol, and the dark mode, the address and the component are those of the connector's first socket.
\<close>

theorem collect_info_complete:
  "list_all2 (\<lambda>(route, sub) s. service_reports f (dark_hosts f) route (map snd sub) s)
     (router_socket_map f) (ri_services (collect_info f)) \<and>
   ri_dark_hosts (collect_info f) = dark_hosts f"
proof -
  have "list_all2 (\<lambda>(route, sub) s. service_reports f (dark_hosts f) route (map snd sub) s) es
      (map (\<lambda>e. connector_service_of f (dark_hosts f) (fst e) (map snd (snd e))) es)"
    if "set es \<subseteq> set (router_socket_map f)" for es
    using that by (induction es) (auto intro!: service_of_reports intro: registered_upgrade)
  from this [OF subset_refl] show ?thesis
    by (simp add: collect_info_def get_connector_service_list_def get_sockets_def comp_def split_beta)
qed

end
