(* ===== verification/Farm_Laws.thy ===== *)
theory Farm_Laws
  imports Websocket_Farm "HOL-Library.Multiset"
begin

text \<open>
  What holds of the farm in every state it can reach: the registry and its counter, and which routes
  are forgotten.
\<close>

section \<open>The references of a registry\<close>

definition refs_of :: "('k \<times> ('j \<times> nat) list) list \<Rightarrow> nat multiset" where
  "refs_of m = mset (map snd (concat (map snd m)))"

lemma refs_of_Nil [simp]: "refs_of [] = {#}"
  by (simp add: refs_of_def)

lemma refs_of_Cons [simp]: "refs_of (e # m) = mset (map snd (snd e)) + refs_of m"
  by (simp add: refs_of_def)

lemma refs_of_registered: "mset (registered_refs f) = refs_of (router_socket_map f)"
  by (simp add: refs_of_def registered_refs_def)

lemma refs_of_put:
  "refs_of (am_put m k v) + (case am_get m k of Some old \<Rightarrow> mset (map snd old) | None \<Rightarrow> {#}) = refs_of m + mset (map snd v)"
  by (induction m k v rule: am_put.induct) (auto simp: am_get_Cons split: option.splits)

lemma mset_am_put_new: "am_get m k = None \<Longrightarrow> mset (map snd (am_put m k v)) = add_mset v (mset (map snd m))"
  by (induction m k v rule: am_put.induct) (auto simp: am_get_Cons split: if_splits)

lemma am_del_Cons: "am_del ((k', v) # m) k = (if k' = k then am_del m k else (k', v) # am_del m k)"
  by (simp add: am_del_def)

lemma am_del_absent: "k \<notin> fst ` set m \<Longrightarrow> am_del m k = m"
  by (induction m) (auto simp: am_del_Cons am_del_def)

lemma mset_am_del:
  "am_ok m \<Longrightarrow> am_get m k = Some v \<Longrightarrow> mset (map snd m) = add_mset v (mset (map snd (am_del m k)))"
  by (induction m) (auto simp: am_del_Cons am_get_Cons am_ok_def am_del_absent split: if_splits)

section \<open>The states of the farm\<close>

text \<open>
  Everything that can happen to a farm, in any order. The second argument counts the sockets that left
  the registry without being counted down: those de-registered while they serve requests, and those
  of a farm that is shut down.
\<close>

definition active_of :: "string \<Rightarrow> string \<Rightarrow> farm \<Rightarrow> nat" where
  "active_of route connector_id f =
     length (filter (\<lambda>r. rs_connector (sock f r) = connector_id \<and> rs_active (sock f r)) (route_refs route f))"

fun uncounted :: "farm_task \<Rightarrow> farm \<Rightarrow> nat" where
  "uncounted (De_Register route connector_id) f = active_of route connector_id f"
| "uncounted t f = 0"

inductive farm_reach :: "('m, 'v) get_env set \<Rightarrow> farm \<Rightarrow> nat \<Rightarrow> bool" for Gs where
  start: "farm_reach Gs (farm_new max_wait) 0"
| new_socket: "farm_reach Gs f n \<Longrightarrow> rs_id s \<notin> rs_id ` set (f_socks f) \<Longrightarrow>
    farm_reach Gs (add_router_socket_in_background (length (f_socks f)) (f\<lparr>f_socks := f_socks f @ [s], f_held := length (f_socks f) # f_held f\<rparr>)) n"
| task: "farm_reach Gs f n \<Longrightarrow> f_tasks f = ts @ t # ts' \<Longrightarrow> f' = f\<lparr>f_tasks := ts @ ts'\<rparr> \<Longrightarrow>
    farm_reach Gs (run_task now t f') (n + uncounted t f')"
| socket_closes: "farm_reach Gs f n \<Longrightarrow> farm_reach Gs (remove_router_socket_in_background (rs_route (sock f r)) (rs_id (sock f r)) r f) n"
| connector_leaves: "farm_reach Gs f n \<Longrightarrow> farm_reach Gs (de_register_router_socket_in_background route connector_id f) n"
| tick: "farm_reach Gs f n \<Longrightarrow> farm_reach Gs (clean_routes_in_background now keep f) n"
| acquire: "farm_reach Gs f n \<Longrightarrow> G \<in> Gs \<Longrightarrow> get_begin G now f = Ret (f', r) \<Longrightarrow> farm_reach Gs f' n"
| turn: "farm_reach Gs f n \<Longrightarrow> G \<in> Gs \<Longrightarrow> g_chan g < length (f_chans f) \<Longrightarrow> farm_reach Gs (snd (get_turn G g f)) n"
| timeout: "farm_reach Gs f n \<Longrightarrow> G \<in> Gs \<Longrightarrow> g_chan g < length (f_chans f) \<Longrightarrow> farm_reach Gs (snd (get_timeout G now g f)) n"
| socket_changes: "farm_reach Gs f n \<Longrightarrow>
    farm_reach Gs (upd_sock r (\<lambda>s. s\<lparr>rs_removed := b, rs_active := b', rs_inflight := i\<rparr>) f) n"
| dark: "farm_reach Gs f n \<Longrightarrow> farm_reach Gs (enable_dark_mode h f) n"
| light: "farm_reach Gs f n \<Longrightarrow> farm_reach Gs (disable_dark_mode h f) n"
| release: "farm_reach Gs f n \<Longrightarrow> farm_reach Gs (f\<lparr>f_held := filter P (f_held f)\<rparr>) n"
| shutdown: "farm_reach Gs f n \<Longrightarrow> farm_reach Gs (terminate_all force f) (n + length (registered_refs f))"

section \<open>The invariant of the farm\<close>

fun adds :: "farm_task list \<Rightarrow> nat list" where
  "adds [] = []"
| "adds (Add_Socket r # ts) = r # adds ts"
| "adds (_ # ts) = adds ts"

lemma adds_append [simp]: "adds (ts @ ts') = adds ts @ adds ts'"
  by (induction ts rule: adds.induct) simp_all

definition entry_ok :: "farm \<Rightarrow> string \<Rightarrow> string \<times> nat \<Rightarrow> bool" where
  "entry_ok f route e \<longleftrightarrow> snd e < length (f_socks f) \<and> rs_id (sock f (snd e)) = fst e \<and> rs_route (sock f (snd e)) = route"

definition farm_ok :: "farm \<Rightarrow> nat \<Rightarrow> bool" where
  "farm_ok f n \<longleftrightarrow> am_ok (router_socket_map f) \<and>
     (\<forall>(route, sub) \<in> set (router_socket_map f). am_ok sub \<and> (\<forall>e \<in> set sub. entry_ok f route e)) \<and>
     distinct (map rs_id (f_socks f)) \<and>
     (\<forall>r. count (mset (adds (f_tasks f)) + refs_of (router_socket_map f)) r \<le> 1) \<and>
     (\<forall>r \<in> set (adds (f_tasks f)). r < length (f_socks f)) \<and>
     f_idle_count f = of_nat (size (refs_of (router_socket_map f)) + n)"

text \<open>Two states that agree on what the invariant is about.\<close>

definition same_core :: "farm \<Rightarrow> farm \<Rightarrow> bool" where
  "same_core f f' \<longleftrightarrow> router_socket_map f' = router_socket_map f \<and> f_idle_count f' = f_idle_count f \<and>
     map (\<lambda>s. (rs_id s, rs_route s)) (f_socks f') = map (\<lambda>s. (rs_id s, rs_route s)) (f_socks f) \<and>
     adds (f_tasks f') = adds (f_tasks f) \<and> route_to_socket_chan f' = route_to_socket_chan f \<and>
     length (f_chans f') = length (f_chans f) \<and> waiting_tasks f' = waiting_tasks f"

text \<open>The same but for the queues.\<close>

definition same_registry :: "farm \<Rightarrow> farm \<Rightarrow> bool" where
  "same_registry f f' \<longleftrightarrow> router_socket_map f' = router_socket_map f \<and> f_idle_count f' = f_idle_count f \<and>
     map (\<lambda>s. (rs_id s, rs_route s)) (f_socks f') = map (\<lambda>s. (rs_id s, rs_route s)) (f_socks f) \<and>
     adds (f_tasks f') = adds (f_tasks f)"

lemma same_core_refl [simp]: "same_core f f"
  by (simp add: same_core_def)

lemma same_core_trans: "same_core f f' \<Longrightarrow> same_core f' f'' \<Longrightarrow> same_core f f''"
  by (simp add: same_core_def)

lemma farm_ok_registry:
  assumes "same_registry f f'" "farm_ok f n"
  shows "farm_ok f' n"
proof -
  let ?p = "\<lambda>s. (rs_id s, rs_route s)"
  have eq: "map ?p (f_socks f') = map ?p (f_socks f)" using assms(1) by (simp add: same_registry_def)
  have len: "length (f_socks f') = length (f_socks f)"
    using arg_cong [OF eq, of length] by simp
  have "map fst (map ?p (f_socks f')) = map fst (map ?p (f_socks f))" by (simp only: eq)
  then have ids: "map rs_id (f_socks f') = map rs_id (f_socks f)" by (simp add: comp_def)
  have "?p (sock f' r) = ?p (sock f r)" if "r < length (f_socks f)" for r
    using arg_cong [OF eq, of "\<lambda>l. l ! r"] that len by (simp add: sock_def)
  then have "entry_ok f' route e \<longleftrightarrow> entry_ok f route e" for route e
    by (auto simp: entry_ok_def len)
  with assms len ids show ?thesis
    by (simp add: farm_ok_def same_registry_def)
qed

lemma farm_ok_core: "same_core f f' \<Longrightarrow> farm_ok f n \<Longrightarrow> farm_ok f' n"
  by (rule farm_ok_registry) (simp_all add: same_core_def same_registry_def)

section \<open>What acquiring a socket may do\<close>

text \<open>
  A relation between farms that allows what acquiring does: asking for the removal of a socket, counting
  those who wait, telling the listeners of a failure, changing the order of a queue or dropping from it,
  and taking a socket out of a queue to hold it. Then all of the acquisition is allowed.
\<close>

definition routes_valid :: "farm \<Rightarrow> bool" where
  "routes_valid f \<longleftrightarrow> (\<forall>e \<in> set (route_to_socket_chan f). snd e < length (f_chans f))"

lemma routes_validD: "routes_valid f \<Longrightarrow> am_get (route_to_socket_chan f) route = Some i \<Longrightarrow> i < length (f_chans f)"
  by (force simp: routes_valid_def dest: am_get_in_set)

lemma held_remove:
  "remove_if_removed r (f\<lparr>f_held := h\<rparr>) = (remove_if_removed r f)\<lparr>f_held := h\<rparr>" "f_held (remove_if_removed r f) = f_held f"
  by (simp_all add: remove_if_removed_def remove_router_socket_in_background_def spawn_def sock_def)

lemma held_fold_remove:
  "foldl (\<lambda>f r. remove_if_removed r f) (f\<lparr>f_held := h\<rparr>) gone = (foldl (\<lambda>f r. remove_if_removed r f) f gone)\<lparr>f_held := h\<rparr> \<and>
   f_held (foldl (\<lambda>f r. remove_if_removed r f) f gone) = f_held f"
  by (induction gone arbitrary: f) (simp_all add: held_remove)

lemma fallback_loop_set:
  "fallback_loop f q skipped gone = (x, q', gone') \<Longrightarrow> set q' \<subseteq> set q \<union> set skipped \<and> (\<forall>r. x = Some r \<longrightarrow> r \<in> set q)"
  by (induction f q skipped gone rule: fallback_loop.induct) (auto split: if_splits)

locale farm_order =
  fixes R :: "farm \<Rightarrow> farm \<Rightarrow> bool"
  assumes refl: "R f f"
    and trans: "R f f' \<Longrightarrow> R f' f'' \<Longrightarrow> R f f''"
    and routes: "R f f' \<Longrightarrow> route_to_socket_chan f' = route_to_socket_chan f \<and> length (f_chans f') = length (f_chans f)"
    and removal: "R f (spawn (Remove_Socket route k r) f)"
    and waiting: "R f (f\<lparr>waiting_task_count := w\<rparr>)"
    and failure: "R f (f\<lparr>f_acquire_failures := x\<rparr>)"
    and requeue: "i < length (f_chans f) \<Longrightarrow> set q \<subseteq> set (queue f i) \<Longrightarrow> R f (set_queue i q f)"
    and take: "i < length (f_chans f) \<Longrightarrow> r \<in> set (queue f i) \<Longrightarrow> set q \<subseteq> set (queue f i) \<Longrightarrow>
      R f ((set_queue i q f)\<lparr>f_held := r # f_held f\<rparr>)"
begin

lemma valid: "R f f' \<Longrightarrow> routes_valid f \<Longrightarrow> routes_valid f'"
  using routes by (simp add: routes_valid_def)

lemma remove: "R f (remove_if_removed r f)"
  by (simp add: remove_if_removed_def remove_router_socket_in_background_def removal refl)

lemma fold_remove: "R f (foldl (\<lambda>f r. remove_if_removed r f) f gone)"
proof (induction gone arbitrary: f)
  case (Cons r gone)
  show ?case using trans [OF remove Cons.IH] by simp
qed (simp add: refl)

lemma scan_domain: "R f (snd (scan_domain host rs f))"
proof (induction host rs f rule: scan_domain.induct)
  case (2 host r rs f)
  show ?case
  proof (cases "rs_removed (sock f r)")
    case True
    from trans [OF remove "2.IH"(1) [OF True]] True show ?thesis by simp
  next
    case False
    with "2.IH"(2) show ?thesis by (simp add: refl)
  qed
qed (simp add: refl)

lemma collect_routes: "R f (snd (collect_routes host routes f))"
proof (induction host routes f rule: collect_routes.induct)
  case (2 host route routes f)
  obtain found f1 where f1: "scan_domain host (route_refs route f) f = (found, f1)" by fastforce
  have "R f f1" using scan_domain [of f host "route_refs route f"] f1 by simp
  with 2 [OF f1 [symmetric] HOL.refl] show ?case
    by (auto simp: f1 Let_def intro: trans split: prod.splits)
qed (simp add: refl)

lemma enter_main: "R f (snd (enter_main G g f))"
proof (cases "ge_host G")
  case (Some host)
  have "snd (enter_main G g f) = snd (scan_domain host (route_refs (g_route g) f) f)" using Some by (simp add: enter_main_def split_beta)
  then show ?thesis by (simp add: scan_domain)
qed (simp add: enter_main_def refl)

lemma current_routes: "R f (snd (current_routes G f))"
proof (cases "ge_host G")
  case (Some host)
  obtain found f1 where f1: "scan_domain host (registered_refs f) f = (found, f1)" by fastforce
  have "R f f1" using scan_domain [of f host "registered_refs f"] f1 by simp
  with Some f1 collect_routes [of f1 host] show ?thesis
    by (cases found) (auto simp: current_routes_def intro: trans)
qed (simp add: current_routes_def refl)

lemma get_begin:
  assumes "get_begin G now f = Ret (f', r)"
  shows "R f f'"
proof -
  obtain routes f1 where f1: "current_routes G f = (routes, f1)" by fastforce
  have c1: "R f f1" using current_routes [of f G] f1 by simp
  have c2: "R f (snd (enter_main G g (f1\<lparr>waiting_task_count := w\<rparr>)))" for g w
    by (rule trans [OF trans [OF c1 waiting] enter_main])
  show ?thesis
    using assms c1 c2 unfolding get_begin_def f1 Let_def prod.case split_beta
    by (auto simp: bind_outcome_Ret_iff split: option.splits)
qed

lemma fallback:
  assumes "i < length (f_chans f)" "fallback_from i f = (x, f')"
  shows "R f f'" and "x = Some r \<Longrightarrow> R f (f'\<lparr>f_held := r # f_held f'\<rparr>)"
proof -
  obtain q gone where l: "fallback_loop f (queue f i) [] [] = (x, q, gone)"
    and f': "f' = foldl (\<lambda>f r. remove_if_removed r f) (set_queue i q f) gone"
    using assms(2) by (auto simp: fallback_from_def split: prod.splits)
  have q: "set q \<subseteq> set (queue f i)" "x = Some r \<Longrightarrow> r \<in> set (queue f i)" for r using fallback_loop_set [OF l] by auto
  show "R f f'" unfolding f' by (rule trans [OF requeue [OF assms(1) q(1)] fold_remove])
  assume "x = Some r"
  from trans [OF take [OF assms(1) q(2) [OF this] q(1)] fold_remove, of gone]
  show "R f (f'\<lparr>f_held := r # f_held f'\<rparr>)"
    unfolding f' by (simp add: held_fold_remove) (simp add: set_queue_def)
qed

lemma try_fallback:
  assumes "routes_valid f" "i < length (f_chans f)" "try_fallback_sockets G i f = (x, f')"
  shows "R f f'" and "x = Some r \<Longrightarrow> R f (f'\<lparr>f_held := r # f_held f'\<rparr>)"
proof -
  obtain y f1 where y: "(if should_fallback_to_first_path_matched (ge_filter G) then fallback_from i f else (None, f)) = (y, f1)"
    by fastforce
  have f1: "R f f1" "y = Some r \<Longrightarrow> R f (f1\<lparr>f_held := r # f_held f1\<rparr>)" for r
    using y fallback [OF assms(2)] refl by (auto split: if_splits)
  have "routes_valid f1" by (rule valid [OF f1(1) assms(1)])
  then have f2: "R f1 f2" "z = Some r \<Longrightarrow> R f1 (f2\<lparr>f_held := r # f_held f2\<rparr>)"
    if "am_get (route_to_socket_chan f1) ''*'' = Some ca" "fallback_from ca f1 = (z, f2)" for ca z f2 r
    using fallback [OF routes_validD [OF _ that(1)] that(2)] by blast+
  show "R f f'"
    using assms(3) f1(1) trans [OF f1(1) f2(1)] unfolding try_fallback_sockets_def y by (auto split: option.splits if_splits)
  assume "x = Some r"
  then show "R f (f'\<lparr>f_held := r # f_held f'\<rparr>)"
    using assms(3) f1(2) trans [OF f1(1) f2(2)] unfolding try_fallback_sockets_def y by (auto split: option.splits if_splits)
qed

lemma after_scan:
  assumes "routes_valid f" "g_chan g < length (f_chans f)"
  shows "R f (snd (after_scan G g f))"
proof -
  obtain x f1 where x: "try_fallback_sockets G (g_chan g) f = (x, f1)" by fastforce
  from try_fallback [OF assms x] show ?thesis
    by (cases x) (auto simp: after_scan_def x hand_out_def intro: trans [OF _ waiting])
qed

lemma scan_turn:
  assumes "routes_valid f" "g_chan g < length (f_chans f)"
  shows "R f (snd (scan_turn G visited hp g f))"
proof (cases "queue f (g_chan g)")
  case (Cons r rest)
  let ?pop = "set_queue (g_chan g) rest f" and ?kept = "set_queue (g_chan g) (rest @ [r]) f"
  have pop: "R f ?pop" and put: "R f ?kept" by (rule requeue [OF assms(2)], use Cons in auto)+
  have "R f (snd (after_scan G g ?kept))"
    by (rule trans [OF put after_scan [OF valid [OF put assms(1)]]]) (use assms(2) in \<open>simp add: set_queue_def\<close>)
  moreover have "R f (remove_if_removed r ?pop)" by (rule trans [OF pop remove])
  moreover have "R f ((set_queue (g_chan g) q f)\<lparr>f_held := r # f_held f, waiting_task_count := w\<rparr>)" if "set q \<subseteq> set (queue f (g_chan g))" for q w
    by (rule trans [OF take [OF assms(2) _ that] waiting]) (simp add: Cons)
  ultimately show ?thesis
    using pop put Cons by (simp add: scan_turn_def Let_def hand_out_def) (simp add: set_queue_def subset_insertI)
qed (simp add: scan_turn_def refl)

lemma get_turn:
  assumes "routes_valid f" "g_chan g < length (f_chans f)"
  shows "R f (snd (get_turn G g f))"
  by (simp add: get_turn_def notify_turn_def Let_def scan_turn [OF assms] enter_main refl split: get_pc.split)

lemma get_timeout:
  assumes "routes_valid f" "g_chan g < length (f_chans f)"
  shows "R f (snd (get_timeout G now g f))"
proof -
  define f0 where "f0 = f\<lparr>waiting_task_count := waiting_task_count f + (-1)\<rparr>"
  have w: "R f f0" unfolding f0_def by (rule waiting)
  have "g_chan g < length (f_chans f0)" using assms(2) by (simp add: f0_def)
  moreover obtain x f1 where x: "try_fallback_sockets G (g_chan g) f0 = (x, f1)" by fastforce
  ultimately have f1: "R f f1" "x = Some r \<Longrightarrow> R f (f1\<lparr>f_held := r # f_held f1\<rparr>)" for r
    using try_fallback [OF valid [OF w assms(1)]] trans [OF w] by blast+
  from trans [OF f1(1) failure] f1(2) show ?thesis
    unfolding get_timeout_def Let_def f0_def [symmetric] x by (auto split: option.split)
qed

end

interpretation core: farm_order same_core
  by unfold_locales (auto simp: same_core_def spawn_def set_queue_def)

lemma core_spawn: "adds [t] = [] \<Longrightarrow> same_core f (spawn t f)"
  by (simp add: same_core_def spawn_def)

lemma core_fields [simp]:
  "same_core f (f'\<lparr>f_held := h\<rparr>) = same_core f f'" "same_core f (f'\<lparr>dark_hosts := d\<rparr>) = same_core f f'"
  "same_core f (f'\<lparr>f_notified := ns\<rparr>) = same_core f f'"
  by (simp_all add: same_core_def)

section \<open>The tasks keep the invariant\<close>

lemma entry_upd [simp]:
  "(\<And>s. rs_id (h s) = rs_id s) \<Longrightarrow> (\<And>s. rs_route (h s) = rs_route s) \<Longrightarrow> entry_ok (upd_sock r h f) route e = entry_ok f route e"
  by (cases "snd e = r") (auto simp: entry_ok_def upd_sock_def sock_def nth_list_update)

lemma upd_sock_ids: "(\<And>s. rs_id (h s) = rs_id s) \<Longrightarrow> (\<And>s. rs_route (h s) = rs_route s) \<Longrightarrow> same_core f (upd_sock r h f)"
  by (cases "r < length (f_socks f)") (auto simp: same_core_def upd_sock_def nth_list_update intro!: nth_equalityI)

lemma farm_ok_sub:
  "farm_ok f n \<Longrightarrow> am_get (router_socket_map f) route = Some sub \<Longrightarrow> am_ok sub \<and> (\<forall>e \<in> set sub. entry_ok f route e)"
  unfolding farm_ok_def by (auto dest!: am_get_in_set)

lemma am_put_elem: "e \<in> set (am_put m k v) \<Longrightarrow> e \<in> set m \<or> e = (k, v)"
  by (induction m k v rule: am_put.induct) (auto split: if_splits)

text \<open>Replacing the sockets of a route by some of them.\<close>

lemma shrink_ok:
  assumes "farm_ok f n" "am_get (router_socket_map f) route = Some sub" "am_ok sub'" "set sub' \<subseteq> set sub"
    and "mset (map snd sub) = mset (map snd sub') + d" "m \<le> size d"
  shows "farm_ok (f\<lparr>router_socket_map := am_put (router_socket_map f) route sub',
      f_idle_count := f_idle_count f + (- of_nat m)\<rparr>) (n + size d - m)"
proof -
  let ?m = "am_put (router_socket_map f) route sub'"
  have refs: "refs_of (router_socket_map f) = refs_of ?m + d"
    using refs_of_put [of "router_socket_map f" route sub'] assms(2,5) by simp
  have subs: "\<forall>(route', s) \<in> set ?m. am_ok s \<and> (\<forall>e \<in> set s. entry_ok f route' e)"
    using assms(1,3,4) farm_ok_sub [OF assms(1,2)] am_put_elem [of _ "router_socket_map f" route sub'] unfolding farm_ok_def by fast
  have entry: "entry_ok (f\<lparr>router_socket_map := ?m, f_idle_count := x\<rparr>) = entry_ok f" for x
    by (simp add: entry_ok_def fun_eq_iff sock_def)
  have "f_idle_count f + (- of_nat m) = of_nat (size (refs_of ?m) + (n + size d - m))"
    using assms(1,6) by (simp add: farm_ok_def refs)
  moreover have "count (mset (adds (f_tasks f)) + refs_of ?m) r \<le> 1" for r
  proof -
    have "count (mset (adds (f_tasks f)) + (refs_of ?m + d)) r \<le> 1"
      using assms(1) by (simp add: farm_ok_def refs)
    then show ?thesis by simp
  qed
  ultimately show ?thesis
    using assms(1) subs unfolding farm_ok_def entry by simp
qed

lemma run_remove_ok:
  assumes "farm_ok f n"
  shows "farm_ok (run_remove now route k r f) n"
proof -
  define f1 where "f1 = f\<lparr>route_last_removal_times := am_put (route_last_removal_times f) route now\<rparr>"
  have ok: "farm_ok f1 n" by (rule farm_ok_core [OF _ assms]) (simp add: f1_def same_core_def)
  show ?thesis
  proof (cases "am_get (router_socket_map f1) route")
    case None
    then show ?thesis using ok by (simp add: run_remove_def f1_def [symmetric] Let_def)
  next
    case (Some sub)
    show ?thesis
    proof (cases "am_get sub k")
      case None
      with Some ok show ?thesis by (simp add: run_remove_def f1_def [symmetric] Let_def)
    next
      case (Some v)
      let ?f = "f1\<lparr>router_socket_map := am_put (router_socket_map f1) route (am_del sub k), f_idle_count := f_idle_count f1 + (- of_nat 1)\<rparr>"
      have sub: "am_ok sub" using farm_ok_sub [OF ok \<open>am_get (router_socket_map f1) route = Some sub\<close>] by simp
      have "farm_ok ?f (n + size {#v#} - 1)"
        by (rule shrink_ok [OF ok \<open>am_get (router_socket_map f1) route = Some sub\<close>])
          (use sub mset_am_del [OF sub Some] in \<open>auto simp: am_del_def\<close>)
      then have "farm_ok (upd_sock r (\<lambda>s. s\<lparr>rs_removed := True\<rparr>) ?f) n"
        by (intro farm_ok_core [OF upd_sock_ids]) simp_all
      then show ?thesis
        using Some \<open>am_get (router_socket_map f1) route = Some sub\<close> by (simp add: run_remove_def f1_def [symmetric] Let_def)
    qed
  qed
qed

text \<open>Closing the sockets of a connector.\<close>

lemma de_register_fold:
  "let f' = foldl (\<lambda>f r. de_register_socket r f) f rs in
   router_socket_map f' = router_socket_map f \<and> f_tasks f' = f_tasks f \<and>
   map (\<lambda>s. (rs_id s, rs_route s, rs_active s)) (f_socks f') = map (\<lambda>s. (rs_id s, rs_route s, rs_active s)) (f_socks f) \<and>
   f_idle_count f' = f_idle_count f + (- of_nat (length (filter (\<lambda>r. \<not> rs_active (sock f r)) rs)))"
proof (induction rs arbitrary: f)
  case (Cons r rs)
  let ?f = "de_register_socket r f"
  have ids: "map (\<lambda>s. (rs_id s, rs_route s, rs_active s)) (f_socks ?f) = map (\<lambda>s. (rs_id s, rs_route s, rs_active s)) (f_socks f)"
    by (cases "r < length (f_socks f)") (auto simp: de_register_socket_def upd_sock_def nth_list_update intro!: nth_equalityI)
  have "rs_active (sock ?f x) = rs_active (sock f x)" for x
    by (cases "r < length (f_socks f)"; cases "x = r") (auto simp: de_register_socket_def upd_sock_def sock_def list_update_beyond not_less)
  with Cons.IH [of ?f] ids show ?case
    by (auto simp: Let_def de_register_socket_def upd_sock_def)
qed simp

lemma run_de_register_ok:
  assumes "farm_ok f n"
  shows "farm_ok (run_de_register now route connector_id f) (n + active_of route connector_id f)"
proof (cases "am_get (router_socket_map f) route")
  case None
  then show ?thesis using assms by (simp add: run_de_register_def active_of_def route_refs_def)
next
  case (Some sub)
  let ?own = "\<lambda>r. rs_connector (sock f r) = connector_id"
  define rs where "rs = filter ?own (map snd sub)"
  define sub' where "sub' = filter (\<lambda>(_, r). \<not> ?own r) sub"
  define m where "m = length (filter (\<lambda>r. \<not> rs_active (sock f r)) rs)"
  define f0 where "f0 = f\<lparr>route_last_removal_times := am_put (route_last_removal_times f) route now\<rparr>"
  define f1 where "f1 = f0\<lparr>router_socket_map := am_put (router_socket_map f) route sub'\<rparr>"
  define f2 where "f2 = foldl (\<lambda>f r. de_register_socket r f) f1 rs"
  have ok: "farm_ok f0 n" by (rule farm_ok_core [OF _ assms]) (simp add: f0_def same_core_def)
  have sub: "am_ok sub" using farm_ok_sub [OF assms Some] by simp
  have split: "mset (map snd sub) = mset (map snd sub') + mset rs"
    unfolding rs_def sub'_def by (induction sub) auto
  have "active_of route connector_id f = length (filter (\<lambda>r. rs_active (sock f r)) rs)"
    by (simp add: active_of_def route_refs_def Some rs_def conj_commute)
  then have active: "n + size (mset rs) - m = n + active_of route connector_id f"
    using sum_length_filter_compl [of "\<lambda>r. rs_active (sock f r)" rs] by (simp add: m_def)
  have "farm_ok (f0\<lparr>router_socket_map := am_put (router_socket_map f0) route sub', f_idle_count := f_idle_count f0 + (- of_nat m)\<rparr>)
      (n + size (mset rs) - m)"
    by (rule shrink_ok [OF ok, of route sub]) (use Some sub split in \<open>auto simp: f0_def sub'_def m_def\<close>)
  moreover have "sock f1 = sock f" by (simp add: fun_eq_iff sock_def f1_def f0_def)
  then have fold: "router_socket_map f2 = router_socket_map f1" "f_tasks f2 = f_tasks f1"
    "map (\<lambda>s. (rs_id s, rs_route s, rs_active s)) (f_socks f2) = map (\<lambda>s. (rs_id s, rs_route s, rs_active s)) (f_socks f1)"
    "f_idle_count f2 = f_idle_count f1 + (- of_nat m)"
    using de_register_fold [of f1 rs] by (simp_all add: Let_def f2_def m_def)
  have "map (\<lambda>s. (rs_id s, rs_route s)) (f_socks f2) = map (\<lambda>s. (rs_id s, rs_route s)) (f_socks f1)"
    using arg_cong [OF fold(3), of "map (\<lambda>(x, y, z). (x, y))"] by (simp add: comp_def)
  then have "same_registry (f0\<lparr>router_socket_map := am_put (router_socket_map f0) route sub', f_idle_count := f_idle_count f0 + (- of_nat m)\<rparr>) f2"
    using fold by (simp add: same_registry_def f1_def f0_def)
  ultimately have "farm_ok f2 (n + active_of route connector_id f)"
    unfolding active [symmetric] by (blast intro: farm_ok_registry)
  moreover have "run_de_register now route connector_id f = f2"
    by (simp add: run_de_register_def Some f2_def f1_def f0_def rs_def sub'_def Let_def)
  ultimately show ?thesis by simp
qed

lemma drop_task_ok:
  assumes "farm_ok f n" "f_tasks f = ts @ t # ts'"
  shows "farm_ok (f\<lparr>f_tasks := ts @ ts'\<rparr>) n"
proof -
  have entry: "entry_ok (f\<lparr>f_tasks := ts @ ts'\<rparr>) = entry_ok f"
    by (simp add: entry_ok_def fun_eq_iff sock_def)
  have split: "mset (adds (f_tasks f)) = mset (adds (ts @ ts')) + mset (adds [t])"
    unfolding assms(2) by (cases t) simp_all
  have "set (adds (ts @ ts')) \<subseteq> set (adds (f_tasks f))"
    unfolding assms(2) by (cases t) auto
  moreover have "count (mset (adds (ts @ ts')) + refs_of (router_socket_map f)) r \<le> 1" for r
  proof -
    have "count (mset (adds (f_tasks f)) + refs_of (router_socket_map f)) r \<le> 1"
      using assms(1) unfolding farm_ok_def by blast
    then show ?thesis unfolding split by simp
  qed
  ultimately show ?thesis
    using assms(1) unfolding farm_ok_def entry by (simp add: subset_iff del: adds_append)
qed

lemma run_clean_ok:
  assumes "farm_ok f n"
  shows "farm_ok (run_clean cut_off f) n"
proof -
  let ?m = "filter (\<lambda>e. \<not> should_clean cut_off f e) (router_socket_map f)"
  have refs: "refs_of (filter (\<lambda>e. \<not> should_clean cut_off f e) m) = refs_of m" for m
    by (induction m) (auto simp: should_clean_def)
  have entry: "entry_ok (run_clean cut_off f) = entry_ok f"
    by (simp add: entry_ok_def fun_eq_iff sock_def run_clean_def)
  have "am_ok ?m" "set ?m \<subseteq> set (router_socket_map f)"
    using assms by (simp_all add: farm_ok_def)
  moreover have "router_socket_map (run_clean cut_off f) = ?m" "f_socks (run_clean cut_off f) = f_socks f"
    "f_tasks (run_clean cut_off f) = f_tasks f" "f_idle_count (run_clean cut_off f) = f_idle_count f"
    by (simp_all add: run_clean_def)
  ultimately show ?thesis
    using assms unfolding farm_ok_def entry by (simp only: refs) blast
qed

text \<open>A socket that is registered nowhere has no entry under its id.\<close>

lemma fresh_entry:
  assumes "farm_ok f n" "r < length (f_socks f)" "count (mset (adds (f_tasks f)) + refs_of (router_socket_map f)) r = 0"
    and "\<forall>e \<in> set sub. entry_ok f route e" "\<And>k x. (k, x) \<in> set sub \<Longrightarrow> x \<in># refs_of (router_socket_map f)"
  shows "am_get sub (rs_id (sock f r)) = None"
proof (rule ccontr)
  assume "am_get sub (rs_id (sock f r)) \<noteq> None"
  then obtain x where x: "(rs_id (sock f r), x) \<in> set sub" by (auto dest: am_get_in_set)
  then have "x < length (f_socks f)" "rs_id (sock f x) = rs_id (sock f r)" using assms(4) by (auto simp: entry_ok_def)
  moreover have "distinct (map rs_id (f_socks f))" using assms(1) by (simp add: farm_ok_def)
  ultimately have "x = r" using assms(2) by (auto simp: distinct_conv_nth sock_def)
  with x assms(5) have "r \<in># refs_of (router_socket_map f)" by blast
  with assms(3) show False by (simp add: count_eq_zero_iff)
qed

text \<open>Entering a socket into the registry: the entries of its route, and the state after it.\<close>

definition route_entries :: "nat \<Rightarrow> farm \<Rightarrow> (string \<times> nat) list" where
  "route_entries r f = (case am_get (router_socket_map f) (rs_route (sock f r)) of Some sub \<Rightarrow> sub | None \<Rightarrow> [])"

definition entered :: "nat \<Rightarrow> farm \<Rightarrow> farm" where
  "entered r f = f\<lparr>router_socket_map := am_put (router_socket_map f) (rs_route (sock f r)) (am_put (route_entries r f) (rs_id (sock f r)) r),
     f_idle_count := f_idle_count f + 1\<rparr>"

lemma route_entries_in: "(rs_route (sock f r), route_entries r f) \<in> set (router_socket_map f) \<or> route_entries r f = []"
  by (simp add: route_entries_def am_get_in_set split: option.split)

lemma entered_refs:
  assumes "farm_ok f n" "r < length (f_socks f)" "count (mset (adds (f_tasks f)) + refs_of (router_socket_map f)) r = 0"
  shows "refs_of (router_socket_map (entered r f)) = add_mset r (refs_of (router_socket_map f))"
proof -
  have sub: "\<forall>e \<in> set (route_entries r f). entry_ok f (rs_route (sock f r)) e"
    using route_entries_in [of f r] assms(1) unfolding farm_ok_def by auto
  have "x \<in># refs_of (router_socket_map f)" if "(k, x) \<in> set (route_entries r f)" for k x
    using route_entries_in [of f r] that by (force simp: refs_of_def)
  from fresh_entry [OF assms sub this] have "am_get (route_entries r f) (rs_id (sock f r)) = None" .
  from mset_am_put_new [OF this, of r] show ?thesis
    using refs_of_put [of "router_socket_map f" "rs_route (sock f r)" "am_put (route_entries r f) (rs_id (sock f r)) r"]
    by (auto simp: entered_def route_entries_def split: option.splits)
qed

lemma entered_subs:
  assumes "farm_ok f n" "r < length (f_socks f)"
  shows "\<forall>(route, s) \<in> set (router_socket_map (entered r f)). am_ok s \<and> (\<forall>e \<in> set s. entry_ok f route e)"
proof -
  have "am_ok (route_entries r f)" "\<forall>e \<in> set (route_entries r f). entry_ok f (rs_route (sock f r)) e"
    using route_entries_in [of f r] assms(1) unfolding farm_ok_def by auto
  moreover have "entry_ok f (rs_route (sock f r)) (rs_id (sock f r), r)" using assms(2) by (simp add: entry_ok_def)
  ultimately show ?thesis
    using assms(1) am_put_elem [of _ "router_socket_map f" "rs_route (sock f r)" "am_put (route_entries r f) (rs_id (sock f r)) r"]
      am_put_elem [of _ "route_entries r f" "rs_id (sock f r)" r]
    unfolding farm_ok_def entered_def by fastforce
qed

lemma entered_ok:
  assumes "farm_ok f n" "r < length (f_socks f)" "count (mset (adds (f_tasks f)) + refs_of (router_socket_map f)) r = 0"
  shows "farm_ok (entered r f) n"
proof -
  note refs = entered_refs [OF assms]
  have entry: "entry_ok (entered r f) = entry_ok f" by (simp add: entry_ok_def fun_eq_iff sock_def entered_def)
  have tasks: "f_tasks (entered r f) = f_tasks f" by (simp add: entered_def)
  have "count (mset (adds (f_tasks f)) + refs_of (router_socket_map f)) x \<le> 1" for x using assms(1) unfolding farm_ok_def by blast
  with assms(3) have "count (mset (adds (f_tasks (entered r f))) + refs_of (router_socket_map (entered r f))) x \<le> 1" for x
    unfolding tasks refs by (cases "x = r") simp_all
  moreover have "am_ok (router_socket_map (entered r f))" "f_idle_count (entered r f) = of_nat (size (refs_of (router_socket_map (entered r f))) + n)"
    using assms(1) unfolding refs by (simp_all add: farm_ok_def entered_def)
  moreover have "distinct (map rs_id (f_socks (entered r f)))" "\<forall>r' \<in> set (adds (f_tasks (entered r f))). r' < length (f_socks (entered r f))"
    using assms(1) by (simp_all add: farm_ok_def entered_def)
  ultimately show ?thesis
    using entered_subs [OF assms(1,2)] unfolding farm_ok_def entry by blast
qed

lemma run_add_ok:
  assumes "farm_ok f n" "f_tasks f = ts @ Add_Socket r # ts'"
  shows "farm_ok (run_add r (f\<lparr>f_tasks := ts @ ts'\<rparr>)) n"
proof -
  let ?f = "f\<lparr>f_tasks := ts @ ts'\<rparr>"
  have "count (mset (adds (f_tasks f)) + refs_of (router_socket_map f)) r \<le> 1" using assms(1) unfolding farm_ok_def by blast
  then have "count (mset (adds (f_tasks ?f)) + refs_of (router_socket_map ?f)) r = 0" by (simp add: assms(2))
  moreover have "r < length (f_socks ?f)" using assms by (simp add: farm_ok_def)
  ultimately have "farm_ok (entered r ?f) n" using entered_ok [OF drop_task_ok [OF assms]] by blast
  moreover have "same_registry (entered r ?f) (run_add r ?f)"
    by (simp add: same_registry_def run_add_def Let_def entered_def route_entries_def set_queue_def queue_def split: option.split)
  ultimately show ?thesis using farm_ok_registry by blast
qed

text \<open>Every route leads to a queue, and the table of waiting tasks is never filled.\<close>

definition queues_ok :: "farm \<Rightarrow> bool" where
  "queues_ok f \<longleftrightarrow> routes_valid f \<and> waiting_tasks f = []"

lemma queues_core: "same_core f f' \<Longrightarrow> queues_ok f \<Longrightarrow> queues_ok f'"
  by (simp add: same_core_def queues_ok_def routes_valid_def)

lemma queues_fields [simp]:
  "queues_ok (f\<lparr>f_tasks := ts\<rparr>) = queues_ok f" "queues_ok (f\<lparr>f_socks := ss\<rparr>) = queues_ok f" "queues_ok (f\<lparr>f_held := h\<rparr>) = queues_ok f"
  "queues_ok (f\<lparr>router_socket_map := m\<rparr>) = queues_ok f" "queues_ok (f\<lparr>f_idle_count := c\<rparr>) = queues_ok f"
  "queues_ok (f\<lparr>f_terminated := x\<rparr>) = queues_ok f" "queues_ok (f\<lparr>f_closes := x\<rparr>) = queues_ok f"
  "queues_ok (f\<lparr>route_last_removal_times := l\<rparr>) = queues_ok f" "queues_ok (upd_sock r g f) = queues_ok f"
  "queues_ok (spawn t f) = queues_ok f" "queues_ok (f\<lparr>f_notified := ns\<rparr>) = queues_ok f" "queues_ok (set_queue i q f) = queues_ok f"
  by (simp_all add: queues_ok_def routes_valid_def upd_sock_def spawn_def set_queue_def)

lemma queues_de_register: "queues_ok (foldl (\<lambda>f r. de_register_socket r f) f rs) = queues_ok f"
  by (induction rs arbitrary: f) (simp_all add: de_register_socket_def)

lemma queues_run_add: "queues_ok f \<Longrightarrow> queues_ok (run_add r f)"
  by (auto simp: run_add_def Let_def queues_ok_def routes_valid_def set_queue_def dest!: am_put_elem split: option.split)

lemma am_del_fold: "set (foldl (\<lambda>m e. am_del m (fst e)) m es) \<subseteq> set m"
proof (induction es arbitrary: m)
  case (Cons e es)
  show ?case using Cons.IH [of "am_del m (fst e)"] by (auto simp: am_del_def)
qed simp

lemma queues_run_clean: "queues_ok f \<Longrightarrow> queues_ok (run_clean cut_off f)"
  using am_del_fold [of "route_to_socket_chan f"] by (fastforce simp: queues_ok_def routes_valid_def run_clean_def)

lemma queues_run_task: "queues_ok f \<Longrightarrow> queues_ok (run_task now t f)"
  by (cases t) (simp_all add: queues_run_add queues_run_clean run_remove_def run_de_register_def queues_de_register Let_def split: option.split)

lemma farm_reach_queues: "farm_reach Gs f n \<Longrightarrow> queues_ok f"
proof (induction rule: farm_reach.induct)
  case (start max_wait)
  then show ?case by (simp add: queues_ok_def routes_valid_def farm_new_def)
next
  case (task f n ts t ts' f' now)
  then show ?case by (simp add: queues_run_task)
next
  case (acquire f n G now f' r)
  then show ?case using queues_core core.get_begin by blast
next
  case (turn f n G g)
  from turn.IH have "routes_valid f" by (simp add: queues_ok_def)
  from queues_core [OF core.get_turn [OF this turn.hyps(3)] turn.IH] show ?case .
next
  case (timeout f n G now g)
  from timeout.IH have "routes_valid f" by (simp add: queues_ok_def)
  from queues_core [OF core.get_timeout [OF this timeout.hyps(3)] timeout.IH] show ?case .
qed (simp_all add: add_router_socket_in_background_def remove_router_socket_in_background_def de_register_router_socket_in_background_def
    clean_routes_in_background_def enable_dark_mode_def disable_dark_mode_def terminate_all_def queues_ok_def [symmetric], simp_all add: queues_ok_def routes_valid_def)

lemma farm_reach_routes: "farm_reach Gs f n \<Longrightarrow> routes_valid f"
  by (drule farm_reach_queues) (simp add: queues_ok_def)

lemma new_socket_ok:
  assumes "farm_ok f n" "rs_id s \<notin> rs_id ` set (f_socks f)"
  shows "farm_ok (add_router_socket_in_background (length (f_socks f)) (f\<lparr>f_socks := f_socks f @ [s], f_held := length (f_socks f) # f_held f\<rparr>)) n"
proof -
  let ?r = "length (f_socks f)"
  let ?f = "add_router_socket_in_background ?r (f\<lparr>f_socks := f_socks f @ [s], f_held := ?r # f_held f\<rparr>)"
  have f: "router_socket_map ?f = router_socket_map f" "f_socks ?f = f_socks f @ [s]" "f_idle_count ?f = f_idle_count f"
    "f_tasks ?f = f_tasks f @ [Add_Socket ?r]"
    by (simp_all add: add_router_socket_in_background_def spawn_def)
  have entry: "entry_ok f route e \<Longrightarrow> entry_ok ?f route e" for route e
    by (auto simp: entry_ok_def sock_def f(2) nth_append)
  have "x < ?r" if "x \<in># refs_of (router_socket_map f)" for x
    using that assms(1) by (auto simp: farm_ok_def refs_of_def entry_ok_def split_beta)
  moreover have "x < ?r" if "x \<in> set (adds (f_tasks f))" for x
    using that assms(1) by (simp add: farm_ok_def)
  ultimately have fresh: "count (mset (adds (f_tasks f)) + refs_of (router_socket_map f)) ?r = 0"
    by (auto simp: count_eq_zero_iff)
  have "count (mset (adds (f_tasks ?f)) + refs_of (router_socket_map ?f)) x \<le> 1" for x
  proof (cases "x = ?r")
    case True
    then show ?thesis using fresh by (simp add: f)
  next
    case False
    have "count (mset (adds (f_tasks f)) + refs_of (router_socket_map f)) x \<le> 1" using assms(1) unfolding farm_ok_def by blast
    with False show ?thesis by (simp add: f)
  qed
  moreover have "\<forall>(route, sub) \<in> set (router_socket_map f). am_ok sub \<and> (\<forall>e \<in> set sub. entry_ok ?f route e)"
    using assms(1) entry unfolding farm_ok_def by fast
  moreover have "distinct (map rs_id (f_socks f @ [s]))"
    using assms(1) assms(2) by (simp add: farm_ok_def)
  moreover have "\<forall>r \<in> set (adds (f_tasks f)). r < length (f_socks f @ [s])"
    using assms(1) by (auto simp: farm_ok_def)
  ultimately show ?thesis
    using assms(1) unfolding farm_ok_def f by simp
qed

lemma shutdown_ok:
  assumes "farm_ok f n"
  shows "farm_ok (terminate_all force f) (n + length (registered_refs f))"
proof -
  have "entry_ok (terminate_all force f) = entry_ok f"
    by (simp add: entry_ok_def fun_eq_iff sock_def terminate_all_def)
  have "count (mset (adds (f_tasks f))) r \<le> 1" for r
  proof -
    have "count (mset (adds (f_tasks f)) + refs_of (router_socket_map f)) r \<le> 1" using assms unfolding farm_ok_def by blast
    then show ?thesis by simp
  qed
  moreover have "length (registered_refs f) = size (refs_of (router_socket_map f))"
    using arg_cong [OF refs_of_registered [of f], of size] by simp
  ultimately show ?thesis
    using assms by (simp add: farm_ok_def terminate_all_def)
qed

lemma farm_reach_ok: "farm_reach Gs f n \<Longrightarrow> farm_ok f n"
proof (induction rule: farm_reach.induct)
  case (start max_wait)
  then show ?case by (simp add: farm_ok_def farm_new_def)
next
  case (new_socket f n s)
  show ?case by (rule new_socket_ok [OF new_socket.IH new_socket.hyps(2)])
next
  case (task f n ts t ts' f' now)
  note f' = drop_task_ok [OF task.IH task.hyps(2), folded task.hyps(3)]
  show ?case
  proof (cases t)
    case (Add_Socket r)
    then show ?thesis using run_add_ok [OF task.IH, of ts r ts'] task.hyps by simp
  qed (use f' in \<open>simp_all add: run_remove_ok run_de_register_ok run_clean_ok\<close>)
next
  case (shutdown f n force)
  show ?case by (rule shutdown_ok [OF shutdown.IH])
next
  case (acquire f n G now f' r)
  then show ?case using farm_ok_core core.get_begin by blast
next
  case (socket_changes f n r b b' i)
  then show ?case by (intro farm_ok_core [OF upd_sock_ids]) simp_all
next
  case (socket_closes f n r)
  show ?case
    unfolding remove_router_socket_in_background_def by (rule farm_ok_core [OF core_spawn socket_closes.IH]) simp
next
  case (connector_leaves f n route connector_id)
  show ?case
    unfolding de_register_router_socket_in_background_def by (rule farm_ok_core [OF core_spawn connector_leaves.IH]) simp
next
  case (tick f n now keep)
  show ?case unfolding clean_routes_in_background_def by (rule farm_ok_core [OF core_spawn tick.IH]) simp
next
  case (turn f n G g)
  show ?case by (rule farm_ok_core [OF core.get_turn [OF farm_reach_routes [OF turn.hyps(1)] turn.hyps(3)] turn.IH])
next
  case (timeout f n G now g)
  show ?case by (rule farm_ok_core [OF core.get_timeout [OF farm_reach_routes [OF timeout.hyps(1)] timeout.hyps(3)] timeout.IH])
next
  case (dark f n h)
  show ?case by (rule farm_ok_core [OF _ dark.IH]) (simp add: enable_dark_mode_def)
next
  case (light f n h)
  show ?case by (rule farm_ok_core [OF _ light.IH]) (simp add: disable_dark_mode_def)
next
  case (release f n P)
  show ?case by (rule farm_ok_core [OF _ release.IH]) simp
qed

lemma farm_ok_entry:
  assumes "farm_ok f n" "(route, sub) \<in> set (router_socket_map f)" "(k, r) \<in> set sub"
  shows "r < length (f_socks f) \<and> rs_id (sock f r) = k \<and> rs_route (sock f r) = route"
proof -
  have "entry_ok f route (k, r)" using assms unfolding farm_ok_def by fast
  then show ?thesis by (simp add: entry_ok_def)
qed

lemma distinct_count: "(\<And>x. count (mset xs) x \<le> 1) \<Longrightarrow> distinct xs"
proof (induction xs)
  case (Cons y xs)
  have "count (mset xs) x \<le> count (mset (y # xs)) x" for x by simp
  then have "count (mset xs) x \<le> 1" for x using Cons.prems [of x] by (rule le_trans)
  moreover have "count (mset xs) y = 0" using Cons.prems [of y] by simp
  ultimately show ?case using Cons.IH by (simp add: count_eq_zero_iff)
qed simp


text \<open>One socket, de-registered while it serves a request: the registry is empty, the count stays one.\<close>

definition sample_sock :: rsock where
  "sample_sock = \<lparr>rs_id = ''a'', rs_route = ''web'', rs_domain = ''*'', rs_component = ''web'', rs_connector = ''c1'', rs_ip = ''10.0.0.1'',
     rs_port = 1, rs_version = CRANKER_V_3_0, rs_removed = False, rs_active = True, rs_inflight = 1\<rparr>"

definition sample_one :: farm where
  "sample_one = run_add 0 ((farm_new 5000)\<lparr>f_socks := [sample_sock], f_held := [0]\<rparr>)"

definition sample_left :: farm where
  "sample_left = run_de_register 7 ''web'' ''c1'' sample_one"

lemma sample_left_reach: "farm_reach {sample_get} sample_left 1"
proof -
  let ?f0 = "add_router_socket_in_background 0 ((farm_new 5000)\<lparr>f_socks := [sample_sock], f_held := [0]\<rparr>)"
  have "farm_reach {sample_get} ?f0 0"
    using farm_reach.new_socket [OF farm_reach.start [of "{sample_get}" 5000], of sample_sock] by (simp add: farm_new_def)
  from farm_reach.task [OF this, of "[]" "Add_Socket 0" "[]" "?f0\<lparr>f_tasks := []\<rparr>" 0]
  have "farm_reach {sample_get} sample_one 0"
    by (simp add: sample_one_def add_router_socket_in_background_def spawn_def farm_new_def)
  from farm_reach.connector_leaves [OF this, of "''web''" "''c1''"]
  have "farm_reach {sample_get} (de_register_router_socket_in_background ''web'' ''c1'' sample_one) 0" .
  moreover have "f_tasks sample_one = []"
    by (simp add: sample_one_def run_add_def Let_def set_queue_def farm_new_def)
  moreover have "active_of ''web'' ''c1'' sample_one = 1"
    by (simp add: active_of_def route_refs_def sample_one_def run_add_def Let_def set_queue_def farm_new_def sock_def sample_sock_def am_get_Cons)
  ultimately show ?thesis
    using farm_reach.task [of "{sample_get}" "de_register_router_socket_in_background ''web'' ''c1'' sample_one" 0 "[]"
        "De_Register ''web'' ''c1''" "[]" sample_one 7]
    by (simp add: de_register_router_socket_in_background_def spawn_def sample_left_def)
qed


section \<open>Forgotten routes\<close>

text \<open>
  Claim C37: the periodic cleaning forgets exactly the routes that have no socket and whose last removal
  is older than the cut-off; every other route keeps its sockets and its queue. A request whose path
  resolves to a route without a queue is refused at once with status 404, and to a route with a queue
  never.
\<close>

theorem cleaning_and_not_found:
  assumes "am_ok (router_socket_map f)"
  shows "am_get (route_to_socket_chan (run_clean cut_off f)) route =
      (if am_get (router_socket_map f) route = Some [] \<and>
          (\<exists>t. am_get (route_last_removal_times f) route = Some t \<and> sint t < sint cut_off)
       then None else am_get (route_to_socket_chan f) route) \<and>
    (get_begin G now f' = Ret (f'', Inl e) \<longleftrightarrow>
      (\<exists>routes resolved. current_routes G f' = (routes, f'') \<and> ge_resolve G (set routes) (rq_target_path (ge_req G)) = Ret resolved \<and>
         am_get (route_to_socket_chan f'') resolved = None) \<and> e = no_route_error (rq_target_path (ge_req G))) \<and>
    opt_status_code (no_route_error path) = Some 404"
proof -
  have fold: "am_get (foldl (\<lambda>m e. am_del m (fst e)) m es) k = (if k \<in> fst ` set es then None else am_get m k)"
    for m :: "(string \<times> nat) list" and es :: "(string \<times> (string \<times> nat) list) list" and k
    by (induction es arbitrary: m) auto
  have "route \<in> fst ` set (filter (should_clean cut_off f) (router_socket_map f)) \<longleftrightarrow>
      am_get (router_socket_map f) route = Some [] \<and> (\<exists>t. am_get (route_last_removal_times f) route = Some t \<and> sint t < sint cut_off)"
  proof -
    have "route \<in> fst ` set (filter (should_clean cut_off f) (router_socket_map f)) \<longleftrightarrow>
        (\<exists>sub. am_get (router_socket_map f) route = Some sub \<and> should_clean cut_off f (route, sub))"
      unfolding am_get_iff_in_set [OF assms] by force
    then show ?thesis by (auto simp: should_clean_def split: option.splits)
  qed
  then have "am_get (route_to_socket_chan (run_clean cut_off f)) route =
      (if am_get (router_socket_map f) route = Some [] \<and> (\<exists>t. am_get (route_last_removal_times f) route = Some t \<and> sint t < sint cut_off)
       then None else am_get (route_to_socket_chan f) route)"
    by (simp add: run_clean_def fold)
  moreover obtain routes f1 where "current_routes G f' = (routes, f1)" by fastforce
  then have "get_begin G now f' = Ret (f'', Inl e) \<longleftrightarrow>
      (\<exists>routes resolved. current_routes G f' = (routes, f'') \<and> ge_resolve G (set routes) (rq_target_path (ge_req G)) = Ret resolved \<and>
         am_get (route_to_socket_chan f'') resolved = None) \<and> e = no_route_error (rq_target_path (ge_req G))"
    by (auto simp: get_begin_def bind_outcome_Ret_iff Let_def split_beta split: option.splits)
  moreover have "opt_status_code (no_route_error path) = Some 404"
    by (simp add: no_route_error_def with_err_kind_def with_status_code_def)
  ultimately show ?thesis by blast
qed

theorem cleaning_and_not_found_witness:
  "am_ok (router_socket_map sample_left) \<and> am_get (route_to_socket_chan (run_clean 8 sample_left)) ''web'' = None \<and>
   am_get (route_to_socket_chan (run_clean 7 sample_left)) ''web'' \<noteq> None"
proof -
  have left: "router_socket_map sample_left = [(''web'', [])]" "route_last_removal_times sample_left = [(''web'', 7)]"
    "route_to_socket_chan sample_left = [(''web'', 0)]"
    by (simp_all add: sample_left_def run_de_register_def sample_one_def run_add_def Let_def set_queue_def farm_new_def sock_def
        sample_sock_def am_get_Cons de_register_socket_def)
  then have "am_ok (router_socket_map sample_left)" by (simp add: am_ok_def)
  with cleaning_and_not_found [of sample_left 8 "''web''" sample_get 0 sample_left sample_left "crex_new []" "[]"]
    cleaning_and_not_found [of sample_left 7 "''web''" sample_get 0 sample_left sample_left "crex_new []" "[]"] left
  show ?thesis by (simp add: am_get_Cons)
qed

end
