(* ===== verification/Farm_Refs.thy ===== *)
theory Farm_Refs
  imports Farm_Laws
begin

text \<open>
  References in the farm are indices: of queues into the store of queues, of sockets into the store of
  sockets. In every state the farm can reach, each of them leads somewhere, so no definition of the farm
  reads a store out of its range.
\<close>

section \<open>References\<close>

text \<open>Nothing is queued or held that was not before.\<close>

definition queued :: "farm \<Rightarrow> nat set" where
  "queued f = \<Union> (set ` set (f_chans f))"

definition moves :: "farm \<Rightarrow> farm \<Rightarrow> bool" where
  "moves f f' \<longleftrightarrow> f_socks f' = f_socks f \<and> route_to_socket_chan f' = route_to_socket_chan f \<and> length (f_chans f') = length (f_chans f) \<and>
     queued f' \<subseteq> queued f \<and> set (f_held f') \<subseteq> set (f_held f) \<union> queued f"

lemma queued_fields [simp]:
  "queued (f\<lparr>f_held := h\<rparr>) = queued f" "queued (f\<lparr>waiting_task_count := w\<rparr>) = queued f" "queued (f\<lparr>f_acquire_failures := x\<rparr>) = queued f"
  "queued (f\<lparr>f_tasks := ts\<rparr>) = queued f"
  by (simp_all add: queued_def)

lemma queue_queued: "i < length (f_chans f) \<Longrightarrow> set (queue f i) \<subseteq> queued f"
  using nth_mem by (auto simp: queued_def queue_def)

lemma queued_set_queue: "queued (set_queue i q f) \<subseteq> queued f \<union> set q"
  using set_update_subset_insert [of "f_chans f" i q] by (auto simp: queued_def set_queue_def)

interpretation mv: farm_order moves
proof unfold_locales
  show "moves f (set_queue i q f)" if "i < length (f_chans f)" "set q \<subseteq> set (queue f i)" for f i q
    using queued_set_queue [of i q f] queue_queued [OF that(1)] that(2) by (auto simp: moves_def set_queue_def)
  show "moves f ((set_queue i q f)\<lparr>f_held := r # f_held f\<rparr>)"
    if "i < length (f_chans f)" "r \<in> set (queue f i)" "set q \<subseteq> set (queue f i)" for f i q r
    using queued_set_queue [of i q f] queue_queued [OF that(1)] that(2,3) by (auto simp: moves_def set_queue_def)
qed (auto simp: moves_def spawn_def)

section \<open>Every reference is valid\<close>

definition refs_valid :: "farm \<Rightarrow> bool" where
  "refs_valid f \<longleftrightarrow> queued f \<union> set (f_held f) \<subseteq> {..<length (f_socks f)}"

lemma moves_refs: "moves f f' \<Longrightarrow> refs_valid f \<Longrightarrow> refs_valid f'"
  by (auto simp: moves_def refs_valid_def)

lemma refs_valid_fields [simp]:
  "refs_valid (f\<lparr>f_tasks := ts\<rparr>) = refs_valid f" "refs_valid (f\<lparr>router_socket_map := m\<rparr>) = refs_valid f"
  "refs_valid (f\<lparr>f_idle_count := c\<rparr>) = refs_valid f" "refs_valid (f\<lparr>f_closes := x\<rparr>) = refs_valid f"
  "refs_valid (f\<lparr>f_terminated := x\<rparr>) = refs_valid f" "refs_valid (f\<lparr>route_last_removal_times := l\<rparr>) = refs_valid f"
  "refs_valid (f\<lparr>route_to_socket_chan := rc\<rparr>) = refs_valid f" "refs_valid (f\<lparr>dark_hosts := d\<rparr>) = refs_valid f"
  "refs_valid (f\<lparr>f_notified := ns\<rparr>) = refs_valid f" "refs_valid (spawn t f) = refs_valid f" "refs_valid (upd_sock r g f) = refs_valid f"
  by (simp_all add: refs_valid_def queued_def spawn_def upd_sock_def)

lemma refs_de_register: "refs_valid (foldl (\<lambda>f r. de_register_socket r f) f rs) = refs_valid f"
  by (induction rs arbitrary: f) (simp_all add: de_register_socket_def)

lemma refs_run_add:
  assumes "refs_valid f" "routes_valid f" "r < length (f_socks f)"
  shows "refs_valid (run_add r f)"
proof (cases "am_get (route_to_socket_chan f) (rs_route (sock f r))")
  case None
  then have "queued (run_add r f) = insert r (queued f)" "f_held (run_add r f) = f_held f" "f_socks (run_add r f) = f_socks f"
    by (auto simp: run_add_def Let_def queued_def set_queue_def queue_def)
  with assms show ?thesis by (auto simp: refs_valid_def)
next
  case (Some i)
  from routes_validD [OF assms(2) this] have i: "i < length (f_chans f)" .
  have run: "f_chans (run_add r f) = f_chans (set_queue i (queue f i @ [r]) f)" "f_held (run_add r f) = f_held f" "f_socks (run_add r f) = f_socks f"
    using Some by (simp_all add: run_add_def Let_def set_queue_def queue_def)
  then have "queued (run_add r f) \<subseteq> insert r (queued f)"
    using queued_set_queue [of i "queue f i @ [r]" f] queue_queued [OF i] unfolding queued_def by auto
  with assms run show ?thesis by (auto simp: refs_valid_def)
qed

lemma refs_run_task:
  assumes "refs_valid f" "routes_valid f" "\<forall>r \<in> set (adds [t]). r < length (f_socks f)"
  shows "refs_valid (run_task now t f)"
  using assms
  by (cases t) (simp_all add: refs_run_add run_remove_def run_de_register_def run_clean_def refs_de_register Let_def split: option.split)

lemma farm_reach_refs: "farm_reach Gs f n \<Longrightarrow> refs_valid f"
proof (induction rule: farm_reach.induct)
  case (start max_wait)
  show ?case by (simp add: refs_valid_def queued_def farm_new_def)
next
  case (new_socket f n s)
  then show ?case by (auto simp: refs_valid_def queued_def add_router_socket_in_background_def spawn_def)
next
  case (task f n ts t ts' f' now)
  have "farm_ok f n" by (rule farm_reach_ok [OF task.hyps(1)])
  then have "\<forall>r \<in> set (adds [t]). r < length (f_socks f)"
    unfolding farm_ok_def task.hyps(2) by (cases t) auto
  moreover have "routes_valid f'" using farm_reach_routes [OF task.hyps(1)] by (simp add: task.hyps(3) routes_valid_def)
  ultimately show ?case using task.IH by (intro refs_run_task) (simp_all add: task.hyps(3))
next
  case (acquire f n G now f' r)
  then show ?case using moves_refs mv.get_begin by blast
next
  case (turn f n G g)
  show ?case by (rule moves_refs [OF mv.get_turn [OF farm_reach_routes [OF turn.hyps(1)] turn.hyps(3)] turn.IH])
next
  case (timeout f n G now g)
  show ?case by (rule moves_refs [OF mv.get_timeout [OF farm_reach_routes [OF timeout.hyps(1)] timeout.hyps(3)] timeout.IH])
next
  case (release f n P)
  then show ?case by (auto simp: refs_valid_def queued_def)
qed (simp_all add: remove_router_socket_in_background_def de_register_router_socket_in_background_def clean_routes_in_background_def
    enable_dark_mode_def disable_dark_mode_def terminate_all_def)

lemma getter_valid:
  assumes "routes_valid f" "get_begin G now f = Ret (f', Inr g)"
  shows "g_chan g < length (f_chans f')"
proof -
  obtain routes f1 where f1: "current_routes G f = (routes, f1)" by fastforce
  have valid: "routes_valid f1" using core.valid [OF core.current_routes assms(1), of G] f1 by simp
  have chan: "g_chan (fst (enter_main G h x)) = g_chan h" for h x by (simp add: enter_main_def split_beta)
  have len: "length (f_chans (snd (enter_main G h x))) = length (f_chans x)" for h x using core.routes [OF core.enter_main] by blast
  show ?thesis
    using assms(2) routes_validD [OF valid] chan len unfolding get_begin_def f1 Let_def prod.case split_beta
    by (auto simp: bind_outcome_Ret_iff split: option.splits)
qed

lemma chan_unchanged: "g_chan (fst (get_turn G g f)) = g_chan g"
  by (simp add: get_turn_def scan_turn_def notify_turn_def after_scan_def hand_out_def enter_main_def Let_def split_beta
      split: get_pc.split list.split option.split prod.split)



end
