(* ===== verification/Frames.thy ===== *)
theory Frames
  imports Rust_Text
begin

unbundle bit_operations_syntax

text \<open>
  The wire format of protocol version 3 in \<^verbatim>\<open>src/src/router_socket_v3.rs\<close>: a frame is a type byte, a
  flags byte, a big-endian request id and a payload. The buffers of the \<^verbatim>\<open>bytes\<close> crate are lists of
  bytes; reading an integer from a buffer that is too short panics.
\<close>

section \<open>Constants\<close>

definition MSG_TYPE_LEN_IN_BYTES :: nat where "MSG_TYPE_LEN_IN_BYTES = 1"
definition FLAGS_LEN_IN_BYTES :: nat where "FLAGS_LEN_IN_BYTES = 1"
definition REQ_ID_LEN_IN_BYTES :: nat where "REQ_ID_LEN_IN_BYTES = 4"

definition HEADER_LEN_IN_BYTES :: nat where
  "HEADER_LEN_IN_BYTES = MSG_TYPE_LEN_IN_BYTES + FLAGS_LEN_IN_BYTES + REQ_ID_LEN_IN_BYTES"

definition END_STREAM_FLAG_MASK :: u8 where "END_STREAM_FLAG_MASK = 1"
definition END_HEADER_FLAG_MASK :: u8 where "END_HEADER_FLAG_MASK = 4"
definition MESSAGE_TYPE_DATA :: u8 where "MESSAGE_TYPE_DATA = 0"
definition MESSAGE_TYPE_HEADER :: u8 where "MESSAGE_TYPE_HEADER = 1"
definition MESSAGE_TYPE_RST_STREAM :: u8 where "MESSAGE_TYPE_RST_STREAM = 3"
definition MESSAGE_TYPE_WINDOW_UPDATE :: u8 where "MESSAGE_TYPE_WINDOW_UPDATE = 8"
definition ERROR_INTERNAL :: i32 where "ERROR_INTERNAL = 1"

lemmas frame_consts =
  MSG_TYPE_LEN_IN_BYTES_def FLAGS_LEN_IN_BYTES_def REQ_ID_LEN_IN_BYTES_def HEADER_LEN_IN_BYTES_def
  END_STREAM_FLAG_MASK_def END_HEADER_FLAG_MASK_def MESSAGE_TYPE_DATA_def MESSAGE_TYPE_HEADER_def
  MESSAGE_TYPE_RST_STREAM_def MESSAGE_TYPE_WINDOW_UPDATE_def

section \<open>Bytes\<close>

definition put_i32 :: "i32 \<Rightarrow> bytes" where
  "put_i32 w = [ucast (drop_bit 24 w), ucast (drop_bit 16 w), ucast (drop_bit 8 w), ucast w]"

fun get_i32 :: "bytes \<Rightarrow> (i32 \<times> bytes) outcome" where
  "get_i32 (a # b # c # d # rest) =
     Ret (push_bit 24 (ucast a) OR push_bit 16 (ucast b) OR push_bit 8 (ucast c) OR ucast d, rest)"
| "get_i32 _ = Panic"

fun get_u8 :: "bytes \<Rightarrow> (u8 \<times> bytes) outcome" where
  "get_u8 (a # rest) = Ret (a, rest)"
| "get_u8 [] = Panic"

definition as_bytes :: "string \<Rightarrow> bytes" where
  "as_bytes s = map (\<lambda>c. of_nat (code c)) s"

definition bytes_text :: "bytes \<Rightarrow> string" where
  "bytes_text bs = map (\<lambda>b. char_of (unat b)) bs"

text \<open>\<^verbatim>\<open>String::from_utf8\<close>.\<close>

definition from_utf8 :: "bytes \<Rightarrow> string option" where
  "from_utf8 bs = (if utf8_valid (bytes_text bs) then Some (bytes_text bs) else None)"

lemma length_put_i32 [simp, byte_simps]: "length (put_i32 w) = 4"
  by (simp add: put_i32_def)

lemma bit_u8_beyond: "8 \<le> n \<Longrightarrow> \<not> bit (b :: u8) n"
  using bit_imp_le_length [of b n] by auto

lemma join_split_i32:
  "push_bit 24 (ucast (ucast (drop_bit 24 w) :: u8)) OR
   push_bit 16 (ucast (ucast (drop_bit 16 w) :: u8)) OR
   push_bit 8 (ucast (ucast (drop_bit 8 w) :: u8)) OR ucast (ucast w :: u8) = (w :: i32)"
  (is "?l = w")
proof (rule bit_word_eqI)
  fix n
  assume "n < LENGTH(32)"
  then show "bit ?l n = bit w n"
    by (cases "n < 8"; cases "n < 16"; cases "n < 24") (auto simp: bit_simps)
qed

lemma get_put_i32 [simp, byte_simps]: "get_i32 (put_i32 w @ rest) = Ret (w, rest)"
  by (simp add: put_i32_def join_split_i32)

lemma get_i32_panics_iff: "get_i32 bs = Panic \<longleftrightarrow> length bs < 4"
  by (cases bs rule: get_i32.cases) auto

lemma put_join_i32:
  "put_i32 (push_bit 24 (ucast a) OR push_bit 16 (ucast b) OR push_bit 8 (ucast c) OR ucast d) =
   [a, b, c, d]"
  by (auto simp: put_i32_def bit_simps bit_u8_beyond intro!: bit_word_eqI)

lemma get_i32_rest: "get_i32 bs = Ret (w, rest) \<Longrightarrow> bs = put_i32 w @ rest"
  by (cases bs rule: get_i32.cases) (auto simp: put_join_i32)

lemma length_as_bytes [simp]: "length (as_bytes s) = length s"
  by (simp add: as_bytes_def)

lemma as_bytes_append [simp]: "as_bytes (s @ t) = as_bytes s @ as_bytes t"
  by (simp add: as_bytes_def)

lemma bytes_text_as_bytes [simp, byte_simps]: "bytes_text (as_bytes s) = s"
proof -
  have "char_of (unat (of_nat (code c) :: u8)) = c" for c
    by (simp add: unat_of_nat code_def)
  then show ?thesis by (simp add: bytes_text_def as_bytes_def comp_def)
qed

lemma from_utf8_as_bytes [byte_simps]: "utf8_valid s \<Longrightarrow> from_utf8 (as_bytes s) = Some s"
  by (simp add: from_utf8_def)

section \<open>Flags\<close>

definition judge_is_stream_end_from_flags :: "u8 \<Rightarrow> bool" where
  "judge_is_stream_end_from_flags flags \<longleftrightarrow> flags AND END_STREAM_FLAG_MASK = END_STREAM_FLAG_MASK"

definition judge_is_header_end_from_flags :: "u8 \<Rightarrow> bool" where
  "judge_is_header_end_from_flags flags \<longleftrightarrow> flags AND END_HEADER_FLAG_MASK = END_HEADER_FLAG_MASK"

section \<open>Building frames\<close>

definition window_update_message :: "i32 \<Rightarrow> i32 \<Rightarrow> bytes" where
  "window_update_message req_id window_update =
     [MESSAGE_TYPE_WINDOW_UPDATE, 0] @ put_i32 req_id @ put_i32 window_update"

definition rst_message :: "i32 \<Rightarrow> i32 \<Rightarrow> string \<Rightarrow> bytes" where
  "rst_message req_id err_code msg =
     [MESSAGE_TYPE_RST_STREAM, 0] @ put_i32 req_id @ put_i32 err_code @ as_bytes msg"

definition data_messages :: "i32 \<Rightarrow> bool \<Rightarrow> bytes option \<Rightarrow> bytes" where
  "data_messages req_id is_end opt_bin =
     [MESSAGE_TYPE_DATA, if is_end then 1 else 0] @ put_i32 req_id @
     (case opt_bin of None \<Rightarrow> [] | Some bin \<Rightarrow> bin)"

definition header_message :: "i32 \<Rightarrow> bool \<Rightarrow> bool \<Rightarrow> string \<Rightarrow> bytes" where
  "header_message req_id is_header_end is_stream_end may_partial_header_line =
     (let flags = 0 :: u8;
          flags = (if is_stream_end then flags OR END_STREAM_FLAG_MASK else flags);
          flags = (if is_header_end then flags OR END_HEADER_FLAG_MASK else flags)
      in [MESSAGE_TYPE_HEADER, flags] @ put_i32 req_id @ as_bytes may_partial_header_line)"

text \<open>\<^verbatim>\<open>slice::chunks(n)\<close> for a positive size.\<close>

function chunks :: "nat \<Rightarrow> 'a list \<Rightarrow> 'a list list" where
  "chunks n [] = []"
| "chunks n (x # xs) = (x # take (n - 1) xs) # chunks n (drop (n - 1) xs)"
  by pat_completeness auto
termination
  by (relation "measure (\<lambda>(n, xs). length xs)") auto

definition header_chunk_size :: nat where
  "header_chunk_size = 16000"

text \<open>The loop over the chunks: the last one carries the end-of-header flag.\<close>

fun header_chunk_frames :: "i32 \<Rightarrow> bool \<Rightarrow> string list list \<Rightarrow> bytes list" where
  "header_chunk_frames req_id is_stream_end [] = []"
| "header_chunk_frames req_id is_stream_end [part] =
     [header_message req_id True is_stream_end (concat part)]"
| "header_chunk_frames req_id is_stream_end (part # parts) =
     header_message req_id False is_stream_end (concat part) #
     header_chunk_frames req_id is_stream_end parts"

definition header_messages :: "i32 \<Rightarrow> bool \<Rightarrow> bool \<Rightarrow> string \<Rightarrow> bytes list" where
  "header_messages req_id is_header_end is_stream_end full_header_line =
     (if length (as_bytes full_header_line) < header_chunk_size
      then [header_message req_id is_header_end is_stream_end full_header_line]
      else header_chunk_frames req_id is_stream_end
             (chunks header_chunk_size (chars full_header_line)))"

section \<open>Reading frames\<close>

definition get_error_code :: "bytes \<Rightarrow> (i32 \<times> bytes) outcome" where
  "get_error_code bin = (if length bin \<ge> 4 then get_i32 bin else Ret (-1, bin))"

definition get_error_message :: "bytes \<Rightarrow> string" where
  "get_error_message bin =
     (if length bin > 0 then (case from_utf8 bin of Some msg \<Rightarrow> msg | None \<Rightarrow> []) else [])"

text \<open>
  The head of \<^verbatim>\<open>on_binary\<close>: each part is read only after a length check, so a short message is
  dropped with a log line naming the part that was missing.
\<close>

datatype decoded = Dropped string | Frame u8 u8 i32 bytes

definition decode_frame :: "bytes \<Rightarrow> decoded outcome" where
  "decode_frame bin =
     (if length bin < MSG_TYPE_LEN_IN_BYTES
      then Ret (Dropped ''recv bin msg len less than 1 to read msg type byte'')
      else bind_outcome (get_u8 bin) (\<lambda>(msg_type_byte, bin).
        if length bin < FLAGS_LEN_IN_BYTES
        then Ret (Dropped ''recv bin msg len less than 2 to read flags byte'')
        else bind_outcome (get_u8 bin) (\<lambda>(flags_byte, bin).
          if length bin < REQ_ID_LEN_IN_BYTES
          then Ret (Dropped ''recv bin msg len less than 6 to read request id'')
          else bind_outcome (get_i32 bin) (\<lambda>(req_id_int, bin).
            Ret (Frame msg_type_byte flags_byte req_id_int bin)))))"

section \<open>Lemmas\<close>

lemma decode_frame_bytes [byte_simps]:
  "decode_frame (t # f # put_i32 r @ p) = Ret (Frame t f r p)"
  by (simp add: decode_frame_def frame_consts)

lemma decode_frame_total: "decode_frame bin \<noteq> Panic"
proof (cases bin)
  case (Cons a rest)
  then show ?thesis
    by (cases rest)
       (auto simp: decode_frame_def frame_consts bind_outcome_Panic_iff get_i32_panics_iff)
qed (simp add: decode_frame_def frame_consts)

lemma decode_frame_Frame_iff:
  "decode_frame bin = Ret (Frame t f r p) \<longleftrightarrow> bin = t # f # put_i32 r @ p"
proof
  assume d: "decode_frame bin = Ret (Frame t f r p)"
  then obtain a b rest where "bin = a # b # rest"
    by (cases bin; cases "tl bin")
       (auto simp: decode_frame_def frame_consts split: if_splits)
  with d show "bin = t # f # put_i32 r @ p"
    by (auto simp: decode_frame_def frame_consts bind_outcome_Ret_iff get_i32_rest split: if_splits)
qed (simp add: decode_frame_bytes)

definition frame_flags :: "bool \<Rightarrow> bool \<Rightarrow> u8" where
  "frame_flags is_header_end is_stream_end =
     (if is_stream_end then 1 else 0) OR (if is_header_end then 4 else 0)"

lemma header_message_eq:
  "header_message r he se s = MESSAGE_TYPE_HEADER # frame_flags he se # put_i32 r @ as_bytes s"
  by (simp add: header_message_def frame_flags_def frame_consts Let_def)

lemma judge_frame_flags [simp]:
  "judge_is_stream_end_from_flags (frame_flags he se) = se"
  "judge_is_header_end_from_flags (frame_flags he se) = he"
  by (cases he; cases se;
      simp add: judge_is_stream_end_from_flags_def judge_is_header_end_from_flags_def
        frame_flags_def frame_consts)+

lemma judge_data_flags [simp]:
  "judge_is_stream_end_from_flags (if e then 1 else 0) = e"
  by (simp add: judge_is_stream_end_from_flags_def frame_consts)

lemma concat_chunks: "0 < n \<Longrightarrow> concat (chunks n xs) = xs"
  by (induction n xs rule: chunks.induct) (auto simp: append_take_drop_id)

lemma chunks_sizes: "0 < n \<Longrightarrow> c \<in> set (chunks n xs) \<Longrightarrow> c \<noteq> [] \<and> length c \<le> n"
  by (induction n xs rule: chunks.induct) auto

lemma chunks_subset: "c \<in> set (chunks n xs) \<Longrightarrow> set c \<subseteq> set xs"
proof (induction n xs rule: chunks.induct)
  case (2 n x xs)
  then show ?case
    using set_take_subset [of "n - 1" xs] set_drop_subset [of "n - 1" xs] by auto
qed simp

lemma chunks_nonempty: "xs \<noteq> [] \<Longrightarrow> chunks n xs \<noteq> []"
  by (cases xs) auto

lemma length_header_chunk_frames [simp]:
  "length (header_chunk_frames r se ps) = length ps"
  by (induction r se ps rule: header_chunk_frames.induct) auto

lemma nth_header_chunk_frames:
  "i < length ps \<Longrightarrow>
   header_chunk_frames r se ps ! i =
     header_message r (Suc i = length ps) se (concat (ps ! i))"
proof (induction r se ps arbitrary: i rule: header_chunk_frames.induct)
  case (3 r se p q ps)
  then show ?case by (cases i) auto
qed auto

text \<open>The pieces a text is cut into, one per header frame.\<close>

definition header_parts :: "string \<Rightarrow> string list" where
  "header_parts s = (if length s < header_chunk_size then [s]
                     else map concat (chunks header_chunk_size (chars s)))"

lemma header_messages_parts:
  "length (header_messages r True se s) = length (header_parts s)"
  "i < length (header_parts s) \<Longrightarrow>
   header_messages r True se s ! i =
     header_message r (Suc i = length (header_parts s)) se (header_parts s ! i)"
  by (auto simp: header_messages_def header_parts_def nth_header_chunk_frames)

lemma concat_map_concat: "concat (map concat xss) = concat (concat xss)"
  by (induction xss) auto

lemma concat_header_parts: "concat (header_parts s) = s"
  by (simp add: header_parts_def concat_map_concat concat_chunks header_chunk_size_def)

lemma header_parts_nonempty: "header_parts s \<noteq> []"
proof (cases "length s < header_chunk_size")
  case False
  then have "chars s \<noteq> []" by (cases s) (auto simp: header_chunk_size_def)
  with False show ?thesis by (simp add: header_parts_def chunks_nonempty)
qed (simp add: header_parts_def)

lemma length_concat_le: "\<forall>x \<in> set xs. length x \<le> k \<Longrightarrow> length (concat xs) \<le> k * length xs"
  by (induction xs) auto

lemma header_part_valid:
  assumes "utf8_valid s" "p \<in> set (header_parts s)"
  shows "utf8_valid p \<and> length p \<le> 4 * header_chunk_size"
proof (cases "length s < header_chunk_size")
  case True
  with assms show ?thesis by (simp add: header_parts_def)
next
  case False
  with assms(2) obtain c where c: "c \<in> set (chunks header_chunk_size (chars s))" "p = concat c"
    by (auto simp: header_parts_def)
  have "list_all scalar (chars s)" using assms(1) by (simp add: utf8_valid_def)
  with chunks_subset [OF c(1)] have sc: "list_all scalar c" by (auto simp: list_all_iff)
  then have "\<forall>x \<in> set c. length x \<le> 4" by (auto simp: list_all_iff dest: scalar_length)
  moreover have "length c \<le> header_chunk_size"
    using chunks_sizes [OF _ c(1)] by (simp add: header_chunk_size_def)
  ultimately have "length p \<le> 4 * header_chunk_size"
    using length_concat_le [of c 4] c(2) by (simp add: header_chunk_size_def)
  with sc c(2) show ?thesis by (simp add: utf8_valid_concat)
qed

section \<open>Properties\<close>

text \<open>
  Claim C31: the frames the router builds are read back by its own frame reader. A data, reset or
  window-update frame decodes to its type, its request id and its payload, a data frame's
  end-of-stream flag is the one it was built with, the error code and the message of a reset frame
  and the credit of a window update are recovered.
\<close>

theorem frames_roundtrip:
  assumes "utf8_valid msg"
  shows "(\<exists>p. decode_frame (rst_message r err_code msg) = Ret (Frame MESSAGE_TYPE_RST_STREAM 0 r p) \<and>
             get_error_code p = Ret (err_code, as_bytes msg) \<and>
             get_error_message (as_bytes msg) = msg) \<and>
         (\<exists>p. decode_frame (window_update_message r credit) =
               Ret (Frame MESSAGE_TYPE_WINDOW_UPDATE 0 r p) \<and> get_i32 p = Ret (credit, [])) \<and>
         (\<exists>f. decode_frame (data_messages r is_end opt_bin) =
               Ret (Frame MESSAGE_TYPE_DATA f r (case opt_bin of None \<Rightarrow> [] | Some b \<Rightarrow> b)) \<and>
             judge_is_stream_end_from_flags f = is_end)"
proof (intro conjI)
  have "get_error_message (as_bytes msg) = msg"
    using assms by (auto simp: get_error_message_def from_utf8_as_bytes)
  then show "\<exists>p. decode_frame (rst_message r err_code msg) =
      Ret (Frame MESSAGE_TYPE_RST_STREAM 0 r p) \<and>
      get_error_code p = Ret (err_code, as_bytes msg) \<and> get_error_message (as_bytes msg) = msg"
    by (simp add: rst_message_def decode_frame_bytes get_error_code_def)
  show "\<exists>p. decode_frame (window_update_message r credit) =
      Ret (Frame MESSAGE_TYPE_WINDOW_UPDATE 0 r p) \<and> get_i32 p = Ret (credit, [])"
    using get_put_i32 [of credit "[]"] by (simp add: window_update_message_def decode_frame_bytes)
  show "\<exists>f. decode_frame (data_messages r is_end opt_bin) =
      Ret (Frame MESSAGE_TYPE_DATA f r (case opt_bin of None \<Rightarrow> [] | Some b \<Rightarrow> b)) \<and>
      judge_is_stream_end_from_flags f = is_end"
    by (simp add: data_messages_def decode_frame_bytes)
qed

theorem frames_roundtrip_witness:
  "utf8_valid ''Going away'' \<and>
   (\<exists>p. decode_frame (rst_message 7 1001 ''Going away'') = Ret (Frame MESSAGE_TYPE_RST_STREAM 0 7 p) \<and>
     get_error_code p = Ret (1001, as_bytes ''Going away'') \<and>
     get_error_message (as_bytes ''Going away'') = ''Going away'')"
proof -
  have v: "utf8_valid ''Going away''"
    by (rule utf8_valid_ascii) (simp add: is_ascii_def code_def)
  show ?thesis using v frames_roundtrip [OF v, of 7 1001] by blast
qed

text \<open>
  The frame reader never panics, whatever bytes a connector sends: it yields a frame
  exactly when the message holds the six header bytes, and drops it otherwise.
\<close>

lemma decode_frame_classifies:
  "(\<exists>t f r p. decode_frame bin = Ret (Frame t f r p) \<and> bin = t # f # put_i32 r @ p) \<and>
     HEADER_LEN_IN_BYTES \<le> length bin \<or>
   (\<exists>m. decode_frame bin = Ret (Dropped m)) \<and> length bin < HEADER_LEN_IN_BYTES"
proof (cases "decode_frame bin")
  case (Ret d)
  show ?thesis
  proof (cases d)
    case (Frame t f r p)
    with Ret have "bin = t # f # put_i32 r @ p" by (simp add: decode_frame_Frame_iff)
    with Ret Frame show ?thesis by (simp add: frame_consts)
  next
    case (Dropped m)
    moreover have "length bin < 6"
      using Ret Dropped
      by (cases bin; cases "tl bin")
         (auto simp: decode_frame_def frame_consts bind_outcome_Ret_iff split: if_splits)
    ultimately show ?thesis using Ret by (simp add: frame_consts)
  qed
qed (simp add: decode_frame_total)

text \<open>
  Claim C11: a header text is cut into frames that lose nothing. The payloads concatenate to the
  text, no multi-byte character is cut in two (each payload is valid UTF-8 by itself) and none is
  longer than four times the chunk size, every frame carries the request id, exactly the last one
  carries the end-of-header flag, and all of them carry the end-of-stream flag asked for.
\<close>

theorem header_messages_reassemble:
  assumes "utf8_valid s"
  shows "\<exists>parts. parts \<noteq> [] \<and> concat parts = s \<and>
    (\<forall>p \<in> set parts. utf8_valid p \<and> length p \<le> 4 * header_chunk_size) \<and>
    length (header_messages r True se s) = length parts \<and>
    (\<forall>i < length parts. \<exists>f.
       decode_frame (header_messages r True se s ! i) =
         Ret (Frame MESSAGE_TYPE_HEADER f r (as_bytes (parts ! i))) \<and>
       from_utf8 (as_bytes (parts ! i)) = Some (parts ! i) \<and>
       judge_is_header_end_from_flags f = (Suc i = length parts) \<and>
       judge_is_stream_end_from_flags f = se)"
proof (intro exI conjI allI impI)
  show "header_parts s \<noteq> []" by (rule header_parts_nonempty)
  show "concat (header_parts s) = s" by (rule concat_header_parts)
  show "\<forall>p \<in> set (header_parts s). utf8_valid p \<and> length p \<le> 4 * header_chunk_size"
    using header_part_valid [OF assms] by blast
  show "length (header_messages r True se s) = length (header_parts s)"
    by (rule header_messages_parts)
  fix i
  assume i: "i < length (header_parts s)"
  let ?f = "frame_flags (Suc i = length (header_parts s)) se"
  show "decode_frame (header_messages r True se s ! i) =
      Ret (Frame MESSAGE_TYPE_HEADER ?f r (as_bytes (header_parts s ! i)))"
    using i by (simp add: header_messages_parts header_message_eq decode_frame_bytes)
  show "from_utf8 (as_bytes (header_parts s ! i)) = Some (header_parts s ! i)"
    using header_part_valid [OF assms] i by (simp add: from_utf8_as_bytes)
  show "judge_is_header_end_from_flags ?f = (Suc i = length (header_parts s))"
    and "judge_is_stream_end_from_flags ?f = se"
    by simp_all
qed

theorem header_messages_reassemble_witness:
  "utf8_valid ''GET / HTTP/1.1'' \<and>
   (\<exists>parts. parts \<noteq> [] \<and> concat parts = ''GET / HTTP/1.1'' \<and>
      length (header_messages 1 True False ''GET / HTTP/1.1'') = length parts)"
proof -
  have v: "utf8_valid ''GET / HTTP/1.1''"
    by (rule utf8_valid_ascii) (simp add: is_ascii_def code_def)
  show ?thesis using v header_messages_reassemble [OF v, of 1 False] by blast
qed

end
