(* ===== verification/Clock.thy ===== *)
theory Clock
  imports Prelude
begin

text \<open>
  Durations and the clock (\<^verbatim>\<open>src/src/time_utils.rs\<close>). The operations of the other components that read the
  clock take its value as an argument.
\<close>

text \<open>\<^verbatim>\<open>Duration\<close>; the nanoseconds are below one second.\<close>

record duration =
  dur_secs :: u64
  dur_nanos :: "32 word"

definition as_millis :: "duration \<Rightarrow> u128" where
  "as_millis d = ucast (dur_secs d) * 1000 + ucast (dur_nanos d div 1000000)"

text \<open>
  \<open>since_epoch\<close> is the system clock's distance from the epoch, none when the clock is before it; then the
  code panics. The 128 bit count is cut to 64 bits.
\<close>

definition current_time_millis :: "duration option \<Rightarrow> i64 outcome" where
  "current_time_millis since_epoch = (case since_epoch of None \<Rightarrow> Panic | Some d \<Rightarrow> Ret (ucast (as_millis d)))"

lemma duration_bounds: "unat (dur_secs d) < 2 ^ 64" "unat (dur_nanos d) < 2 ^ 32"
  using unsigned_less [of "dur_secs d", where ?'a = nat] unsigned_less [of "dur_nanos d", where ?'a = nat] by simp_all

lemma as_millis_unat: "unat (as_millis d) = unat (dur_secs d) * 1000 + unat (dur_nanos d) div 1000000"
proof -
  have "unat (dur_secs d) * 1000 + unat (dur_nanos d) div 1000000 < 2 ^ 128" using duration_bounds [of d] by simp
  then show ?thesis
    using duration_bounds [of d] by (simp add: as_millis_def unat_word_ariths unsigned_ucast_eq unat_div take_bit_nat_eq_self)
qed

lemma sint_small:
  fixes w :: i64
  assumes "unat w < 2 ^ 63"
  shows "sint w = int (unat w)"
proof -
  have "uint w < 2 ^ 63" using assms by (metis of_nat_less_numeral_power_cancel_iff of_nat_unat)
  moreover have "- (2 ^ 63) \<le> uint w" by (rule order_trans [OF _ unsigned_greater_eq]) simp
  ultimately have "signed_take_bit 63 (uint w) = uint w" by (intro signed_take_bit_int_eq_self)
  then show ?thesis by (simp add: sint_uint)
qed

text \<open>
  A clock between the epoch and \<open>2 ^ 53\<close> seconds after it gives its milliseconds exactly, as a number that is
  not negative; and a later reading of the clock is never smaller.
\<close>

lemma current_time_millis_exact:
  assumes "unat (dur_secs d) < 2 ^ 53" "unat (dur_nanos d) < 1000000000"
  shows "\<exists>now. current_time_millis (Some d) = Ret now \<and> sint now = int (unat (dur_secs d) * 1000 + unat (dur_nanos d) div 1000000)"
proof -
  let ?ms = "unat (dur_secs d) * 1000 + unat (dur_nanos d) div 1000000"
  have "?ms < 2 ^ 63" using assms by simp
  moreover from this have "unat (ucast (as_millis d) :: i64) = ?ms"
    by (simp add: unsigned_ucast_eq as_millis_unat take_bit_nat_eq_self)
  ultimately show ?thesis using sint_small [of "ucast (as_millis d)"] unfolding current_time_millis_def by auto
qed

lemma current_time_millis_mono:
  assumes "unat (dur_secs d) < unat (dur_secs e) \<or> dur_secs d = dur_secs e \<and> unat (dur_nanos d) \<le> unat (dur_nanos e)"
    and "unat (dur_secs e) < 2 ^ 53" "unat (dur_nanos d) < 1000000000" "unat (dur_nanos e) < 1000000000"
    and "current_time_millis (Some d) = Ret t" "current_time_millis (Some e) = Ret u"
  shows "sint t \<le> sint u"
proof -
  have "unat (dur_secs d) < 2 ^ 53" using assms(1,2) by auto
  with current_time_millis_exact [of d] current_time_millis_exact [of e] assms(2-6)
  have "sint t = int (unat (dur_secs d) * 1000 + unat (dur_nanos d) div 1000000)"
    "sint u = int (unat (dur_secs e) * 1000 + unat (dur_nanos e) div 1000000)" by (metis outcome.inject)+
  moreover have "unat (dur_nanos d) div 1000000 < 1000" using assms(3) by simp
  moreover have "unat (dur_nanos d) div 1000000 \<le> unat (dur_nanos e) div 1000000" if "unat (dur_nanos d) \<le> unat (dur_nanos e)"
    using that by (rule div_le_mono)
  ultimately show ?thesis using assms(1) by (auto simp only: of_nat_le_iff)
qed

end
