(* ===== verification/Connect_Info.thy ===== *)
theory Connect_Info
  imports Frames Clock
begin

unbundle bit_operations_syntax

text \<open>
  What the router knows of a connection (\<^verbatim>\<open>src/src/connect_info.rs\<close>) and the listeners that find it out: plain
  TCP, the TLS listener of \<^verbatim>\<open>connect_info.rs\<close>, the acceptor of \<^verbatim>\<open>axum_server_tls.rs\<close> and the QUIC listener of
  \<^verbatim>\<open>http3_quinn.rs\<close>. Handshakes belong to rustls and quinn: a session is a record of what its getters
  answer, the results of accepting and of handshakes are arguments, and the types of protocol versions and
  cipher suites are type parameters. A certificate is its DER bytes.
\<close>

section \<open>Connection details\<close>

record ('v, 'c) tls_session_info =
  sni :: "string option"
  alpn :: "bytes option"
  protocol_version :: "'v option"
  cipher_suite :: "'c option"
  peer_certs :: "bytes list option"
  quic_transport_parameters :: "bytes option"

record ('v, 'c) connect_info =
  cn_remote_addr :: socket_addr
  cn_tls_info :: "('v, 'c) tls_session_info option"

text \<open>Collecting results into a result of a vector: the first error ends it.\<close>

fun collect_results :: "('e + 'b) list \<Rightarrow> 'e + 'b list" where
  "collect_results [] = Inr []"
| "collect_results (Inl e # rs) = Inl e"
| "collect_results (Inr x # rs) = (case collect_results rs of Inl e \<Rightarrow> Inl e | Inr xs \<Rightarrow> Inr (x # xs))"

definition parse_peer_certs :: "(bytes \<Rightarrow> 'e + 'k) \<Rightarrow> ('v, 'c) tls_session_info \<Rightarrow> 'e + 'k list" where
  "parse_peer_certs try_from info =
     (case peer_certs info of Some certs \<Rightarrow> collect_results (map try_from certs) | None \<Rightarrow> Inr [])"

section \<open>TCP and TLS listeners\<close>

definition tcp_connect_info :: "socket_addr \<Rightarrow> ('v, 'c) connect_info" where
  "tcp_connect_info remote_addr = \<lparr>cn_remote_addr = remote_addr, cn_tls_info = None\<rparr>"

text \<open>What a TLS session of rustls answers.\<close>

record ('v, 'c) rustls_session =
  ss_server_name :: "string option"
  ss_alpn_protocol :: "bytes option"
  ss_protocol_version :: "'v option"
  ss_negotiated_cipher_suite :: "'c option"
  ss_peer_certificates :: "bytes list option"

definition session_info :: "('v, 'c) rustls_session \<Rightarrow> ('v, 'c) tls_session_info" where
  "session_info session =
     \<lparr>sni = ss_server_name session, alpn = ss_alpn_protocol session, protocol_version = ss_protocol_version session,
      cipher_suite = ss_negotiated_cipher_suite session, peer_certs = ss_peer_certificates session,
      quic_transport_parameters = None\<rparr>"

definition rustls_connect_info :: "socket_addr \<Rightarrow> ('v, 'c) rustls_session \<Rightarrow> ('v, 'c) connect_info" where
  "rustls_connect_info remote_addr session = \<lparr>cn_remote_addr = remote_addr, cn_tls_info = Some (session_info session)\<rparr>"

text \<open>
  One turn of the loop of \<^verbatim>\<open>RustlsListener::accept\<close>. \<open>tcp n\<close> is the result of the \<open>n\<close>th accept and \<open>handshake\<close>
  that of a handshake; either may never come (\<open>None\<close>). A turn never ends (\<open>None\<close>), logs an error
  (\<open>Some None\<close>) or has a stream.
\<close>

definition rustls_turn :: "(nat \<Rightarrow> ('e + 'io \<times> socket_addr) option) \<Rightarrow> ('io \<Rightarrow> ('h + 'tls) option) \<Rightarrow> nat \<Rightarrow> ('tls \<times> socket_addr) option option" where
  "rustls_turn tcp handshake n =
     (case tcp n of
        None \<Rightarrow> None
      | Some (Inl err) \<Rightarrow> Some None
      | Some (Inr (tcp_stream, remote_addr)) \<Rightarrow>
          (case handshake tcp_stream of
             None \<Rightarrow> None
           | Some (Inl err) \<Rightarrow> Some None
           | Some (Inr tls_stream) \<Rightarrow> Some (Some (tls_stream, remote_addr))))"

text \<open>The loop, from the \<open>n\<close>th accept on; it also gives the number of the accept to go on with.\<close>

partial_function (option) rustls_accept ::
    "(nat \<Rightarrow> ('e + 'io \<times> socket_addr) option) \<Rightarrow> ('io \<Rightarrow> ('h + 'tls) option) \<Rightarrow> nat \<Rightarrow> (('tls \<times> socket_addr) \<times> nat) option" where
  "rustls_accept tcp handshake n =
     (case rustls_turn tcp handshake n of
        None \<Rightarrow> None
      | Some None \<Rightarrow> rustls_accept tcp handshake (Suc n)
      | Some (Some r) \<Rightarrow> Some (r, Suc n))"

declare rustls_accept.simps [code]

section \<open>The TLS acceptor for axum-server\<close>

definition maybe_peer_addr :: "'e + socket_addr \<Rightarrow> socket_addr option" where
  "maybe_peer_addr r = (case r of Inl e \<Rightarrow> None | Inr addr \<Rightarrow> Some addr)"

definition unspecified_addr :: socket_addr where
  "unspecified_addr = \<lparr>sa_ip = ''0.0.0.0'', sa_port = 0\<rparr>"

record ('s, 'v, 'c) tls_info_service =
  ts_inner :: 's
  ts_conn_info :: "('v, 'c) connect_info"

text \<open>\<open>accepted\<close> is what the inner acceptor gives: an error, or the TLS stream, as its raw stream and session, and the service.\<close>

definition cranker_tls_accept ::
    "('raw \<Rightarrow> socket_addr option) \<Rightarrow> 'e + ('raw \<times> ('v, 'c) rustls_session) \<times> 's \<Rightarrow>
     'e + ('raw \<times> ('v, 'c) rustls_session) \<times> ('s, 'v, 'c) tls_info_service" where
  "cranker_tls_accept peer_addr accepted =
     (case accepted of
        Inl e \<Rightarrow> Inl e
      | Inr ((raw_stream, session), inner_service) \<Rightarrow>
          let remote_addr = (case peer_addr raw_stream of Some a \<Rightarrow> a | None \<Rightarrow> unspecified_addr);
              conn_info = \<lparr>cn_remote_addr = remote_addr, cn_tls_info = Some (session_info session)\<rparr>
          in Inr ((raw_stream, session), \<lparr>ts_inner = inner_service, ts_conn_info = conn_info\<rparr>))"

text \<open>
  The extensions of a request the router looks at, one value per type: the details inside axum's
  \<^verbatim>\<open>ConnectInfo\<close>, the details alone, and the address inside \<^verbatim>\<open>ConnectInfo\<close>.
\<close>

record ('v, 'c) extensions =
  ex_connected :: "('v, 'c) connect_info option"
  ex_cranker :: "('v, 'c) connect_info option"
  ex_addr :: "socket_addr option"

definition tls_info_call :: "('s \<Rightarrow> ('v, 'c) extensions \<Rightarrow> 'f) \<Rightarrow> ('s, 'v, 'c) tls_info_service \<Rightarrow> ('v, 'c) extensions \<Rightarrow> 'f" where
  "tls_info_call call service req = call (ts_inner service) (req\<lparr>ex_cranker := Some (ts_conn_info service)\<rparr>)"

section \<open>The QUIC listener\<close>

definition as_micros :: "duration \<Rightarrow> u128" where
  "as_micros d = ucast (dur_secs d) * 1000000 + ucast (dur_nanos d div 1000)"

text \<open>A value of type \<^verbatim>\<open>Box<dyn Any>\<close> that is of the wanted type, or of another.\<close>

datatype 'a dyn_any = Wanted 'a | Other_Type

fun downcast :: "'a dyn_any \<Rightarrow> 'a option" where
  "downcast (Wanted x) = Some x"
| "downcast Other_Type = None"

text \<open>What a QUIC connection answers; the handshake data are the server name and the protocol.\<close>

record quinn_connection =
  qc_remote_address :: socket_addr
  qc_handshake_data :: "(string option \<times> bytes option) dyn_any option"
  qc_peer_identity :: "bytes list dyn_any option"
  qc_max_datagram_size :: "u64 option"
  qc_datagram_send_buffer_space :: u64
  qc_rtt :: duration

definition to_le_bytes :: "u64 \<Rightarrow> bytes" where
  "to_le_bytes w = map (\<lambda>i. ucast (drop_bit (8 * i) w)) [0..<8]"

definition build_transport_params_snapshot :: "quinn_connection \<Rightarrow> bytes option" where
  "build_transport_params_snapshot conn =
     (let buf = (case qc_max_datagram_size conn of Some max_dg \<Rightarrow> [0x20] @ to_le_bytes max_dg | None \<Rightarrow> []);
          send_buf = qc_datagram_send_buffer_space conn;
          buf = buf @ [0x21] @ to_le_bytes send_buf;
          rtt_us = (ucast (as_micros (qc_rtt conn)) :: u64);
          buf = buf @ [0x22] @ to_le_bytes rtt_us
      in if buf = [] then None else Some buf)"

definition from_quinn_connection :: "quinn_connection \<Rightarrow> ('v, 'c) connect_info" where
  "from_quinn_connection conn =
     (let handshake = Option.bind (qc_handshake_data conn) downcast
      in \<lparr>cn_remote_addr = qc_remote_address conn,
          cn_tls_info = Some \<lparr>sni = Option.bind handshake fst, alpn = Option.bind handshake snd, protocol_version = None, cipher_suite = None,
            peer_certs = Option.bind (qc_peer_identity conn) downcast,
            quic_transport_parameters = build_transport_params_snapshot conn\<rparr>\<rparr>)"

datatype ('x, 'e) io_error = InvalidInput 'x | Io 'e

definition quinn_bind ::
    "('tls \<Rightarrow> 'x + 'cfg) \<Rightarrow> ('cfg \<Rightarrow> socket_addr \<Rightarrow> 'e + 'ep) \<Rightarrow> socket_addr \<Rightarrow> 'tls \<Rightarrow> ('x, 'e) io_error + 'ep" where
  "quinn_bind quic_config server addr tls_config =
     (case quic_config tls_config of
        Inl e \<Rightarrow> Inl (InvalidInput e)
      | Inr server_cfg \<Rightarrow> (case server server_cfg addr of Inl e \<Rightarrow> Inl (Io e) | Inr endpoint \<Rightarrow> Inr endpoint))"

text \<open>\<open>incoming\<close> is the endpoint's next connection attempt, none when it is closed.\<close>

definition quinn_accept :: "('i \<Rightarrow> 'e + quinn_connection) \<Rightarrow> 'i option \<Rightarrow> (quinn_connection \<times> ('v, 'c) connect_info) option" where
  "quinn_accept handshake incoming =
     (case incoming of
        None \<Rightarrow> None
      | Some i \<Rightarrow> (case handshake i of Inr conn \<Rightarrow> Some (conn, from_quinn_connection conn) | Inl e \<Rightarrow> None))"

text \<open>
  The loop \<^verbatim>\<open>while let Some(..) = listener.accept()\<close> of a server over the attempts made before its endpoint
  is closed: the connections it serves.
\<close>

fun quinn_serve :: "('i \<Rightarrow> 'e + quinn_connection) \<Rightarrow> 'i list \<Rightarrow> quinn_connection list" where
  "quinn_serve handshake [] = []"
| "quinn_serve handshake (i # is) =
     (case (quinn_accept handshake (Some i) :: (quinn_connection \<times> (unit, unit) connect_info) option) of
        Some (conn, info) \<Rightarrow> conn # quinn_serve handshake is
      | None \<Rightarrow> [])"

section \<open>Lemmas\<close>

lemma collect_results_all [simp]: "collect_results (map Inr xs) = Inr xs"
  by (induction xs) simp_all

lemma collect_results_Inr_iff: "collect_results rs = Inr xs \<longleftrightarrow> rs = map Inr xs"
proof
  show "rs = map Inr xs" if "collect_results rs = Inr xs"
    using that by (induction rs arbitrary: xs rule: collect_results.induct) (auto split: sum.splits)
qed simp

fun from_le_bytes :: "bytes \<Rightarrow> u64" where
  "from_le_bytes [] = 0"
| "from_le_bytes (b # bs) = ucast b OR push_bit 8 (from_le_bytes bs)"

lemma bit_from_le_bytes:
  "bit (from_le_bytes bs) n \<longleftrightarrow> n < 64 \<and> n div 8 < length bs \<and> bit (bs ! (n div 8)) (n mod 8)"
proof (induction bs arbitrary: n)
  case (Cons b bs)
  show ?case
  proof (cases "n < 8")
    case True
    then show ?thesis by (simp add: bit_simps)
  next
    case False
    then obtain m where n: "n = 8 + m" using le_Suc_ex [of 8 n] by auto
    then have "n div 8 = Suc (m div 8)" "n mod 8 = m mod 8" by simp_all
    moreover have "\<not> bit b n" using False bit_u8_beyond [of n b] by simp
    ultimately show ?thesis using Cons [of m] by (auto simp: n bit_simps)
  qed
qed simp

lemma length_to_le_bytes [simp]: "length (to_le_bytes w) = 8"
  by (simp add: to_le_bytes_def)

lemma from_to_le_bytes [simp, byte_simps]: "from_le_bytes (to_le_bytes w) = w"
proof (rule bit_word_eqI)
  fix n assume "n < LENGTH(64)"
  then have "n div 8 < 8" by simp
  then show "bit (from_le_bytes (to_le_bytes w)) n = bit w n"
    using \<open>n < LENGTH(64)\<close> by (simp add: bit_from_le_bytes to_le_bytes_def bit_simps)
qed

text \<open>
  A reader of the snapshot: entries of a key and eight bytes. The comment in the code describes another
  format, with the length of the value between key and value.
\<close>

fun read_params :: "bytes \<Rightarrow> (u8 \<times> u64) list option" where
  "read_params [] = Some []"
| "read_params (key # bs) =
     (if length bs < 8 then None else map_option ((#) (key, from_le_bytes (take 8 bs))) (read_params (drop 8 bs)))"

fun read_prefixed :: "bytes \<Rightarrow> (u8 \<times> u64) list option" where
  "read_prefixed [] = Some []"
| "read_prefixed [key] = None"
| "read_prefixed (key # len # bs) =
     (if len \<noteq> 8 \<or> length bs < 8 then None else map_option ((#) (key, from_le_bytes (take 8 bs))) (read_prefixed (drop 8 bs)))"

lemma read_params_entry [simp]: "read_params (key # to_le_bytes w @ bs) = map_option ((#) (key, w)) (read_params bs)"
  by simp

lemma read_prefixed_length: "read_prefixed bs = Some es \<Longrightarrow> length bs = 10 * length es"
proof (induction bs arbitrary: es rule: read_prefixed.induct)
  case (3 key len bs)
  then obtain es' where "read_prefixed (drop 8 bs) = Some es'" "es = (key, from_le_bytes (take 8 bs)) # es'" "len = 8" "8 \<le> length bs"
    by (auto split: if_splits)
  with "3.IH" [of es'] show ?case by simp
qed simp_all

lemma as_micros_unat:
  "unat (as_micros d) = unat (dur_secs d) * 1000000 + unat (dur_nanos d) div 1000"
proof -
  have "unat (dur_secs d) * 1000000 + unat (dur_nanos d) div 1000 < 2 ^ 128" using duration_bounds [of d] by simp
  then show ?thesis
    using duration_bounds [of d] by (simp add: as_micros_def unat_word_ariths unsigned_ucast_eq unat_div take_bit_nat_eq_self)
qed

lemma rustls_accept_skip:
  "(\<forall>i. n \<le> i \<and> i < n + d \<longrightarrow> rustls_turn tcp handshake i = Some None) \<Longrightarrow>
   rustls_accept tcp handshake n = rustls_accept tcp handshake (n + d)"
proof (induction d arbitrary: n)
  case (Suc d)
  then have "rustls_accept tcp handshake n = rustls_accept tcp handshake (Suc n)" by (subst rustls_accept.simps) simp
  with Suc.IH [of "Suc n"] Suc.prems show ?case by simp
qed simp

text \<open>The call that succeeds, reached over failed turns only.\<close>

definition first_success :: "(nat \<Rightarrow> ('e + 'io \<times> socket_addr) option) \<Rightarrow> ('io \<Rightarrow> ('h + 'tls) option) \<Rightarrow> nat \<Rightarrow> ('tls \<times> socket_addr) \<times> nat \<Rightarrow> bool" where
  "first_success tcp handshake n x \<longleftrightarrow>
     (\<exists>k \<ge> n. snd x = Suc k \<and> rustls_turn tcp handshake k = Some (Some (fst x)) \<and>
        (\<forall>i. n \<le> i \<and> i < k \<longrightarrow> rustls_turn tcp handshake i = Some None))"

lemma first_success_step:
  "rustls_turn tcp handshake n = Some None \<Longrightarrow> first_success tcp handshake (Suc n) x \<Longrightarrow> first_success tcp handshake n x"
  unfolding first_success_def by (metis Suc_leD le_antisym not_less_eq_eq)

lemma first_success_now: "rustls_turn tcp handshake n = Some (Some r) \<Longrightarrow> first_success tcp handshake n (r, Suc n)"
  by (auto simp: first_success_def)

lemma rustls_accept_found: "rustls_accept tcp handshake n = Some x \<Longrightarrow> first_success tcp handshake n x"
  by (rule rustls_accept.raw_induct [of first_success])
    (auto intro: first_success_step first_success_now split: option.splits)

lemma rustls_accept_complete:
  assumes "first_success tcp handshake n x"
  shows "rustls_accept tcp handshake n = Some x"
proof -
  from assms obtain k where k: "k \<ge> n" "snd x = Suc k" "rustls_turn tcp handshake k = Some (Some (fst x))"
    "\<forall>i. n \<le> i \<and> i < k \<longrightarrow> rustls_turn tcp handshake i = Some None" unfolding first_success_def by (elim exE conjE)
  then have "rustls_accept tcp handshake n = rustls_accept tcp handshake k"
    using rustls_accept_skip [of n "k - n" tcp handshake] by simp
  also have "\<dots> = Some x" using k(2,3) by (subst rustls_accept.simps) (simp add: prod_eq_iff)
  finally show ?thesis .
qed

lemma rustls_turn_success_iff:
  "rustls_turn tcp handshake k = Some (Some (tls, addr)) \<longleftrightarrow>
   (\<exists>io. tcp k = Some (Inr (io, addr)) \<and> handshake io = Some (Inr tls))"
  by (auto simp: rustls_turn_def split: option.splits sum.splits)

lemma rustls_turn_failed_iff:
  "rustls_turn tcp handshake k = Some None \<longleftrightarrow>
   (\<exists>e. tcp k = Some (Inl e)) \<or> (\<exists>io addr e. tcp k = Some (Inr (io, addr)) \<and> handshake io = Some (Inl e))"
  by (auto simp: rustls_turn_def split: option.splits sum.splits)

text \<open>
  A server that loops while the QUIC listener accepts serves the connections before the first handshake that
  fails, and none after it.
\<close>

lemma quinn_serve_stops:
  "map Inr (quinn_serve handshake is) = takeWhile (\<lambda>r. \<not> isl r) (map handshake is)"
  by (induction "is") (auto simp: quinn_accept_def split: sum.split)

lemma parse_peer_certs_all:
  "parse_peer_certs try_from info = Inr ks \<longleftrightarrow> map try_from (case peer_certs info of Some cs \<Rightarrow> cs | None \<Rightarrow> []) = map Inr ks"
  by (auto simp: parse_peer_certs_def collect_results_Inr_iff split: option.split)

section \<open>Properties\<close>

text \<open>
  Claim C28: the TLS listener hands out exactly the first connection whose handshake succeeds, with the address
  of its own TCP peer: it returns if and only if there is one, all accepts and handshakes before it having
  ended in an error, which are skipped. A handshake that never ends therefore keeps every later connection
  waiting.
\<close>

theorem tls_accept_first:
  "rustls_accept tcp handshake n = Some ((tls, addr), m) \<longleftrightarrow>
   (\<exists>k \<ge> n. m = Suc k \<and> (\<exists>io. tcp k = Some (Inr (io, addr)) \<and> handshake io = Some (Inr tls)) \<and>
      (\<forall>i. n \<le> i \<and> i < k \<longrightarrow>
         (\<exists>e. tcp i = Some (Inl e)) \<or> (\<exists>io addr e. tcp i = Some (Inr (io, addr)) \<and> handshake io = Some (Inl e))))"
proof -
  have "rustls_accept tcp handshake n = Some ((tls, addr), m) \<longleftrightarrow> first_success tcp handshake n ((tls, addr), m)"
    using rustls_accept_found rustls_accept_complete by metis
  then show ?thesis unfolding first_success_def fst_conv snd_conv rustls_turn_success_iff rustls_turn_failed_iff .
qed

text \<open>Three peers: the first cannot be accepted, the handshake of the second fails, the third is handed out.\<close>

definition sample_tcp :: "nat \<Rightarrow> (unit + nat \<times> socket_addr) option" where
  "sample_tcp n = (if n = 0 then Some (Inl ()) else if n < 3 then Some (Inr (n, \<lparr>sa_ip = ''10.0.0.1'', sa_port = of_nat n\<rparr>)) else None)"

definition sample_handshake :: "nat \<Rightarrow> (unit + string) option" where
  "sample_handshake io = Some (if io = 1 then Inl () else Inr ''session'')"

theorem tls_accept_first_witness:
  "rustls_accept sample_tcp sample_handshake 0 = Some ((''session'', \<lparr>sa_ip = ''10.0.0.1'', sa_port = 2\<rparr>), 3)"
proof -
  have "(\<exists>e. sample_tcp i = Some (Inl e)) \<or> (\<exists>io addr e. sample_tcp i = Some (Inr (io, addr)) \<and> sample_handshake io = Some (Inl e))"
    if "i < 2" for i
  proof -
    from that have "i = 0 \<or> i = 1" by auto
    then show ?thesis by (auto simp: sample_tcp_def sample_handshake_def)
  qed
  then show ?thesis
    unfolding tls_accept_first by (intro exI [of _ 2]) (simp add: sample_tcp_def sample_handshake_def)
qed

text \<open>
  Claim C29: the snapshot of a QUIC connection's transport parameters can be read back. There always is one; it
  consists of entries of nine bytes, a key and a 64 bit value, for the datagram size if there is one, the send
  buffer space and the round-trip time, which is the duration in whole microseconds modulo \<open>2 ^ 64\<close>. Read
  in the format the code documents, with a length before each value, it does not give its entries.
\<close>

theorem transport_params_roundtrip:
  "\<exists>bs rtt_us. build_transport_params_snapshot conn = Some bs \<and>
     read_params bs = Some ((case qc_max_datagram_size conn of Some max_dg \<Rightarrow> [(0x20, max_dg)] | None \<Rightarrow> []) @
       [(0x21, qc_datagram_send_buffer_space conn), (0x22, rtt_us)]) \<and>
     unat rtt_us = (unat (dur_secs (qc_rtt conn)) * 1000000 + unat (dur_nanos (qc_rtt conn)) div 1000) mod 2 ^ 64 \<and>
     length bs = (if qc_max_datagram_size conn = None then 18 else 27) \<and> read_prefixed bs \<noteq> read_params bs"
proof -
  let ?rtt = "ucast (as_micros (qc_rtt conn)) :: u64"
  let ?es = "(case qc_max_datagram_size conn of Some max_dg \<Rightarrow> [(0x20 :: u8, max_dg)] | None \<Rightarrow> []) @
    [(0x21, qc_datagram_send_buffer_space conn), (0x22, ?rtt)]"
  obtain bs where bs: "build_transport_params_snapshot conn = Some bs"
    "bs = (case qc_max_datagram_size conn of Some max_dg \<Rightarrow> 0x20 # to_le_bytes max_dg | None \<Rightarrow> []) @
      0x21 # to_le_bytes (qc_datagram_send_buffer_space conn) @ 0x22 # to_le_bytes ?rtt @ []"
    by (auto simp: build_transport_params_snapshot_def Let_def split: option.split)
  then have read: "read_params bs = Some ?es" by (cases "qc_max_datagram_size conn") (simp_all del: read_params.simps(2) append_Nil2)
  have len: "length bs = 9 * length ?es" unfolding bs(2) by (simp split: option.split)
  have "read_prefixed bs \<noteq> Some ?es" using read_prefixed_length [of bs ?es] len by auto
  moreover have "unat ?rtt = unat (as_micros (qc_rtt conn)) mod 2 ^ 64" by (simp add: unsigned_ucast_eq take_bit_nat_def)
  moreover have "length bs = (if qc_max_datagram_size conn = None then 18 else 27)" using len by (auto split: option.splits)
  ultimately show ?thesis using bs(1) read unfolding as_micros_unat by auto
qed

end
