(* ===== verification/Router.thy ===== *)
theory Router
  imports Router_Info Farm_Refs Connect_Info
begin

text \<open>
  The router of \<^verbatim>\<open>lib.rs\<close>: the portal the clients visit, the two endpoints the connectors use
  (with \<^verbatim>\<open>harvest_router_socket\<close> of \<^verbatim>\<open>router_socket.rs\<close>) and stopping. A visit waits twice, for a socket
  and for the socket's answer, so it is a state (\<open>portal\<close>) moved on by one definition per stretch
  between two waits; the farm may change in between. What the socket answers enters as an argument, as
  the two kinds of sockets have theories of their own. The library's test for an HTTP status and the
  random id of an error are parameters, as for \<^verbatim>\<open>into_response\<close>.
\<close>

section \<open>The router\<close>

definition router_new :: "('l, 'f) router_config \<Rightarrow> farm" where
  "router_new cfg = farm_new (connector_max_wait_time_millis cfg)"

definition router_tick :: "i64 \<Rightarrow> ('l, 'f) router_config \<Rightarrow> farm \<Rightarrow> farm" where
  "router_tick now cfg f = clean_routes_in_background now (of_int (routes_keep_time_millis cfg)) f"

definition stop :: "farm \<Rightarrow> farm" where
  "stop f = terminate_all True f"

definition try_stop :: "bool \<Rightarrow> farm \<Rightarrow> farm" where
  "try_stop force f = terminate_all force f"

section \<open>The portal\<close>

text \<open>
  The connection's details, from the two places the listeners put them, and the address, which the
  plain listener gives alone.
\<close>

definition visit_conn_info :: "('v, 'c) extensions \<Rightarrow> ('v, 'c) connect_info option" where
  "visit_conn_info ext = (case ex_connected ext of Some c \<Rightarrow> Some c | None \<Rightarrow> ex_cranker ext)"

definition visit_addr :: "('v, 'c) extensions \<Rightarrow> socket_addr" where
  "visit_addr ext =
     (case visit_conn_info ext of Some info \<Rightarrow> cn_remote_addr info
      | None \<Rightarrow> (case ex_addr ext of Some a \<Rightarrow> a | None \<Rightarrow> unspecified_addr))"

definition visit_is_tls :: "('v, 'c) extensions \<Rightarrow> bool" where
  "visit_is_tls ext = (case visit_conn_info ext of Some info \<Rightarrow> cn_tls_info info \<noteq> None | None \<Rightarrow> False)"

datatype http_version = HTTP_09 | HTTP_10 | HTTP_11 | HTTP_2 | HTTP_3

definition visit_has_body :: "('m, 'v) header_ops \<Rightarrow> http_version \<Rightarrow> 'm \<Rightarrow> bool \<Rightarrow> bool" where
  "visit_has_body H ver headers is_end_stream =
     (if ver \<in> {HTTP_09, HTTP_10, HTTP_11} then judge_has_body_from_header_http_1 H headers else \<not> is_end_stream)"

definition visit_env :: "('m, 'v) header_ops \<Rightarrow> ('l, 'm sock_filter) router_config \<Rightarrow> string \<Rightarrow> orig_uri \<Rightarrow> 'm \<Rightarrow> socket_addr \<Rightarrow>
    ('m, 'v) get_env" where
  "visit_env H cfg meth uri headers addr =
     \<lparr>ge_ops = H, ge_filter = router_socket_filter cfg, ge_allow_catch_all = allow_catch_all cfg,
      ge_req = \<lparr>rq_target_path = uri_path uri, rq_method = meth, rq_original_uri = uri, rq_headers = headers, rq_addr = addr\<rparr>,
      ge_resolve = cfg_route_resolver cfg\<rparr>"

datatype 'r answer = Plain nat string | Target 'r | Failed error_response

text \<open>A visit: acquiring a socket, waiting for the answer of the socket, or answered, with the socket it had.\<close>

datatype 'r portal =
    VP_Acquire getter bool
  | VP_Serve nat bool
  | VP_Done "nat option" "'r answer"

definition visit_failed :: "(nat \<Rightarrow> bool) \<Rightarrow> string \<Rightarrow> nat option \<Rightarrow> crex \<Rightarrow> 'r portal outcome" where
  "visit_failed valid_status err_id socket e =
     bind_outcome (into_response valid_status err_id e) (\<lambda>resp. Ret (VP_Done socket (Failed resp)))"

definition visit_begin :: "(nat \<Rightarrow> bool) \<Rightarrow> string \<Rightarrow> ('m, 'v) get_env \<Rightarrow> bool \<Rightarrow> i64 \<Rightarrow> farm \<Rightarrow> (farm \<times> 'r portal) outcome" where
  "visit_begin valid_status err_id G has_body now f =
     (if rq_method (ge_req G) = ''TRACE'' then Ret (f, VP_Done None (Plain 405 ''Method not supported.''))
      else bind_outcome (get_begin G now f) (\<lambda>(f', r).
        case r of
          Inl e \<Rightarrow> bind_outcome (visit_failed valid_status err_id None e) (\<lambda>p. Ret (f', p))
        | Inr g \<Rightarrow> Ret (f', VP_Acquire g has_body)))"

definition visit_acquired :: "(nat \<Rightarrow> bool) \<Rightarrow> string \<Rightarrow> getter \<Rightarrow> bool \<Rightarrow> 'r portal outcome" where
  "visit_acquired valid_status err_id g has_body =
     (case g_pc g of
        G_Done (Inr r) \<Rightarrow> Ret (VP_Serve r has_body)
      | G_Done (Inl e) \<Rightarrow> visit_failed valid_status err_id None e
      | _ \<Rightarrow> Ret (VP_Acquire g has_body))"

text \<open>
  The socket's answer to the request. The boolean tells whether the completion is raised on the socket,
  with no request named.
\<close>

definition visit_served :: "(nat \<Rightarrow> bool) \<Rightarrow> string \<Rightarrow> farm \<Rightarrow> nat \<Rightarrow> 'r res \<Rightarrow> ('r portal \<times> bool) outcome" where
  "visit_served valid_status err_id f r res =
     (case res of
        Inr resp \<Rightarrow> Ret (VP_Done (Some r) (Target resp), False)
      | Inl e \<Rightarrow> bind_outcome (visit_failed valid_status err_id (Some r) e) (\<lambda>p. Ret (p, \<not> rs_removed (sock f r))))"

text \<open>Every state of a visit, whatever happens to the farm between its steps.\<close>

inductive visit_run :: "(nat \<Rightarrow> bool) \<Rightarrow> string \<Rightarrow> ('m, 'v) get_env \<Rightarrow> 'r portal \<Rightarrow> bool" for V err_id G where
  start: "visit_begin V err_id G has_body now f = Ret (f', p) \<Longrightarrow> visit_run V err_id G p"
| turn: "visit_run V err_id G (VP_Acquire g has_body) \<Longrightarrow> visit_run V err_id G (VP_Acquire (fst (get_turn G g f)) has_body)"
| timeout: "visit_run V err_id G (VP_Acquire g has_body) \<Longrightarrow> (\<forall>r. g_pc g \<noteq> G_Done r) \<Longrightarrow>
    visit_run V err_id G (VP_Acquire (fst (get_timeout G now g f)) has_body)"
| acquired: "visit_run V err_id G (VP_Acquire g has_body) \<Longrightarrow> visit_acquired V err_id g has_body = Ret p \<Longrightarrow> visit_run V err_id G p"
| served: "visit_run V err_id G (VP_Serve r has_body) \<Longrightarrow> visit_served V err_id f r res = Ret (p, raised) \<Longrightarrow> visit_run V err_id G p"

section \<open>The connectors' endpoints\<close>

text \<open>
  The socket made of an accepted connector. A version 1 socket has no domain of its own and reports no
  count of requests.
\<close>

definition harvested :: "string \<Rightarrow> connector_info \<Rightarrow> string \<Rightarrow> int \<Rightarrow> rsock" where
  "harvested router_socket_id cif ip port =
     \<lparr>rs_id = router_socket_id, rs_route = ci_route cif,
      rs_domain = (if ci_negotiated_cranker_version cif = CRANKER_V_1_0 then ''*'' else ci_domain cif),
      rs_component = ci_component_name cif, rs_connector = ci_connector_id cif, rs_ip = ip, rs_port = port,
      rs_version = ci_negotiated_cranker_version cif, rs_removed = False, rs_active = False,
      rs_inflight = (if ci_negotiated_cranker_version cif = CRANKER_V_1_0 then -1 else 0)\<rparr>"

definition harvest_router_socket :: "string \<Rightarrow> connector_info \<Rightarrow> string \<Rightarrow> int \<Rightarrow> farm \<Rightarrow> farm" where
  "harvest_router_socket router_socket_id cif ip port f =
     (if ci_negotiated_cranker_version cif = CRANKER_V_1_0 \<or> ci_negotiated_cranker_version cif = CRANKER_V_3_0
      then add_router_socket_in_background (length (f_socks f))
        (f\<lparr>f_socks := f_socks f @ [harvested router_socket_id cif ip port], f_held := length (f_socks f) # f_held f\<rparr>)
      else f)"

text \<open>
  The handler of a registration: the protocols it offers in the upgrade, and what is done with the upgraded
  websocket.
\<close>

definition register_handler :: "string \<Rightarrow> connector_info \<Rightarrow> string \<Rightarrow> int \<Rightarrow> farm \<Rightarrow> string list \<times> farm" where
  "register_handler router_socket_id cif ip port f =
     ([ci_negotiated_cranker_version cif], harvest_router_socket router_socket_id cif ip port f)"

text \<open>
  The middleware in front of de-registering: a refusal, or the request extension of type string that
  the next layer reads. Without a connector id the code inserts the unit value \<^verbatim>\<open>push_str\<close> returns, so
  there is no extension of type string.
\<close>

definition de_reg_check :: "('m, 'v) header_ops \<Rightarrow> ('l, 'f) router_config \<Rightarrow> 'm \<Rightarrow> (string \<times> string) list \<Rightarrow> string \<Rightarrow> farm \<Rightarrow>
    farm \<times> ((nat \<times> string) + string option)" where
  "de_reg_check H cfg headers params ip f =
     (let route = (case hm_get_str H headers ''Route'' of Some s \<Rightarrow> s | None \<Rightarrow> ''*'');
          connector_id = am_get params ''connectorInstanceID''
      in if \<not> registration_ip_validator cfg ip
         then (f, Inl (failed_at_ip_validation ip route (case connector_id of Some s \<Rightarrow> s | None \<Rightarrow> ''N/A'')))
         else (case connector_id of
                 None \<Rightarrow> (f, Inr None)
               | Some connector_id \<Rightarrow> (de_register_router_socket_in_background route connector_id f, Inr (Some connector_id))))"

text \<open>
  The handler takes the extension out of the request; when there is none the framework refuses the
  request with \<open>missing\<close>. Otherwise the connector is sent one close frame.
\<close>

definition de_register_handler :: "'e \<Rightarrow> string option \<Rightarrow> 'e + (nat \<times> string)" where
  "de_register_handler missing extension =
     (case extension of None \<Rightarrow> Inl missing | Some connector_id \<Rightarrow> Inr (1000, ''Deregister complete''))"

section \<open>Lemmas\<close>

lemma visit_failed_status:
  assumes "visit_failed V err_id socket e = Ret p"
  shows "\<exists>resp. p = VP_Done socket (Failed resp) \<and> er_status resp = response_status e \<and> er_headers resp = [(''connection'', ''close'')]"
  using assms by (auto simp: visit_failed_def bind_outcome_Ret_iff into_response_def Let_def split: if_splits)

lemma turn_never_fails: "g_pc g \<noteq> G_Done (Inl e) \<Longrightarrow> g_pc (fst (get_turn G g f)) \<noteq> G_Done (Inl e)"
  by (simp add: get_turn_def scan_turn_def notify_turn_def after_scan_def hand_out_def enter_main_def Let_def split_beta
      split: get_pc.split list.split option.split prod.split) blast

lemma enter_main_pc: "\<exists>hp. g_pc (fst (enter_main G g f)) = G_Scan [] hp"
  by (simp add: enter_main_def split_beta)

lemma timeout_status: "g_pc (fst (get_timeout G now g f)) = G_Done (Inl e) \<Longrightarrow> response_status e = 503"
  by (auto simp: get_timeout_def Let_def timeout_error_def response_status_def with_err_kind_def with_status_code_def
      split: prod.splits option.splits)

lemma no_route_status: "response_status (no_route_error path) = 404"
  by (simp add: no_route_error_def response_status_def with_err_kind_def with_status_code_def)

lemma begin_cases:
  assumes "visit_begin V err_id G has_body now f = Ret (f', p)" and "rq_method (ge_req G) \<noteq> ''TRACE''"
  shows "(\<exists>resp. p = VP_Done None (Failed resp) \<and> er_status resp = 404 \<and> er_headers resp = [(''connection'', ''close'')]) \<or>
    (\<exists>g hp. p = VP_Acquire g has_body \<and> g_pc g = G_Scan [] hp)"
proof -
  from assms obtain f1 r where r: "get_begin G now f = Ret (f1, r)"
    and p: "(case r of Inl e \<Rightarrow> bind_outcome (visit_failed V err_id None e) (\<lambda>p. Ret (f1, p)) | Inr g \<Rightarrow> Ret (f1, VP_Acquire g has_body)) = Ret (f', p)"
    by (auto simp: visit_begin_def bind_outcome_Ret_iff)
  show ?thesis
  proof (cases r)
    case (Inl e)
    with r have "e = no_route_error (rq_target_path (ge_req G))"
      by (auto simp: get_begin_def bind_outcome_Ret_iff Let_def split_beta split: option.splits)
    moreover from p Inl have "visit_failed V err_id None e = Ret p" by (auto simp: bind_outcome_Ret_iff)
    ultimately show ?thesis using visit_failed_status no_route_status by metis
  next
    case (Inr g)
    with r obtain g0 f0 where "g = fst (enter_main G g0 f0)"
      by (auto simp: get_begin_def bind_outcome_Ret_iff Let_def split_beta split: option.splits)
    then obtain hp where "g_pc g = G_Scan [] hp" using enter_main_pc by blast
    with p Inr show ?thesis by auto
  qed
qed

definition answer_closes :: "'r answer \<Rightarrow> nat set \<Rightarrow> bool" where
  "answer_closes a statuses \<longleftrightarrow>
     (\<exists>resp. a = Failed resp \<and> er_status resp \<in> statuses \<and> er_headers resp = [(''connection'', ''close'')])"

definition portal_ok :: "string \<Rightarrow> 'r portal \<Rightarrow> bool" where
  "portal_ok meth p \<longleftrightarrow>
     (case p of
        VP_Acquire g _ \<Rightarrow> meth \<noteq> ''TRACE'' \<and> (\<forall>e. g_pc g = G_Done (Inl e) \<longrightarrow> response_status e = 503)
      | VP_Serve _ _ \<Rightarrow> meth \<noteq> ''TRACE''
      | VP_Done None a \<Rightarrow> if meth = ''TRACE'' then a = Plain 405 ''Method not supported.'' else answer_closes a {404, 503}
      | VP_Done (Some _) a \<Rightarrow> meth \<noteq> ''TRACE'' \<and> ((\<exists>res. a = Target res) \<or> answer_closes a UNIV))"

lemma visit_run_ok: "visit_run V err_id G p \<Longrightarrow> portal_ok (rq_method (ge_req G)) p"
proof (induction rule: visit_run.induct)
  case (start has_body now f f' p)
  show ?case
  proof (cases "rq_method (ge_req G) = ''TRACE''")
    case True
    with start show ?thesis by (auto simp: visit_begin_def portal_ok_def)
  next
    case False
    from begin_cases [OF start False] False show ?thesis by (auto simp: portal_ok_def answer_closes_def)
  qed
next
  case (turn g has_body f)
  then show ?case using turn_never_fails [of g _ G f] by (auto simp: portal_ok_def)
next
  case (timeout g has_body now f)
  then show ?case using timeout_status by (auto simp: portal_ok_def)
next
  case (acquired g has_body p)
  then show ?case
    by (auto simp: portal_ok_def visit_acquired_def answer_closes_def dest!: visit_failed_status split: get_pc.splits sum.splits)
next
  case (served r has_body f res p raised)
  then show ?case
    by (auto simp: portal_ok_def visit_served_def answer_closes_def bind_outcome_Ret_iff dest!: visit_failed_status split: sum.splits)
qed

lemma timeout_decides:
  assumes "V 503"
  shows "\<exists>p. visit_acquired V err_id (fst (get_timeout G now g f)) has_body = Ret p \<and> (\<forall>g' b. p \<noteq> VP_Acquire g' b)"
proof -
  have "\<exists>r. g_pc (fst (get_timeout G now g f)) = G_Done r"
    by (simp add: get_timeout_def Let_def split: prod.split option.split)
  then obtain r where r: "g_pc (fst (get_timeout G now g f)) = G_Done r" by blast
  show ?thesis
  proof (cases r)
    case (Inl e)
    with r timeout_status have "response_status e = 503" by blast
    with assms r Inl show ?thesis by (simp add: visit_acquired_def visit_failed_def into_response_def Let_def)
  next
    case (Inr x)
    with r show ?thesis by (simp add: visit_acquired_def)
  qed
qed

section \<open>Properties\<close>


definition answer_status :: "'r answer \<Rightarrow> nat option" where
  "answer_status a = (case a of Plain n _ \<Rightarrow> Some n | Target _ \<Rightarrow> None | Failed resp \<Rightarrow> Some (er_status resp))"


definition usable_version :: "string \<Rightarrow> bool" where
  "usable_version v \<longleftrightarrow> v = CRANKER_V_1_0 \<or> v = CRANKER_V_3_0"

lemma accepted_version:
  assumes "built cfg" and "reg_check_and_extract H dbg cfg uuid meth headers params ip = Ret (Inr cif)"
  shows "ci_negotiated_cranker_version cif \<in> {CRANKER_V_1_0, CRANKER_V_3_0}"
proof -
  have supported: "supported_cranker_protocols cfg = SUPPORTED_CRANKER_VERSION"
    using built_config_ok [OF assms(1)] by (simp add: config_ok_def)
  from assms(2) have "extract_cranker_version H dbg (supported_cranker_protocols cfg) headers = Ret (Inr (ci_negotiated_cranker_version cif))"
    by (cases rule: reg_check_cases) simp_all
  then show ?thesis using extract_version_range supported_range supported by metis
qed

lemma am_get_registered: "am_get (router_socket_map f) route = Some sub \<Longrightarrow> am_get sub k = Some r \<Longrightarrow> r \<in> set (registered_refs f)"
  by (force simp: registered_refs_def dest!: am_get_in_set)

lemma run_add_registers:
  assumes "routes_valid f"
  shows "\<exists>sub i. am_get (router_socket_map (run_add r f)) (rs_route (sock f r)) = Some sub \<and> am_get sub (rs_id (sock f r)) = Some r \<and>
    am_get (route_to_socket_chan (run_add r f)) (rs_route (sock f r)) = Some i \<and>
    queue (run_add r f) i = (case am_get (route_to_socket_chan f) (rs_route (sock f r)) of Some i \<Rightarrow> queue f i | None \<Rightarrow> []) @ [r]"
proof (cases "am_get (route_to_socket_chan f) (rs_route (sock f r))")
  case None
  then show ?thesis by (simp add: run_add_def Let_def set_queue_def queue_def sock_def)
next
  case (Some i)
  from routes_validD [OF assms this] have "i < length (f_chans f)" .
  with Some show ?thesis by (simp add: run_add_def Let_def set_queue_def queue_def sock_def)
qed

lemma run_add_counts:
  "f_idle_count (run_add r f) = f_idle_count f + 1 \<and> f_notified (run_add r f) = f_notified f @ [rs_route (sock f r)] \<and>
   f_socks (run_add r f) = f_socks f"
  by (simp add: run_add_def Let_def set_queue_def split: option.split)

text \<open>
  Claim C15: a connector that passes the registration checks becomes a socket of the farm: the
  connection is never dropped as of an unknown version, the socket carries the route, the id, the
  address and the version that were checked, and once the spawned task has run it is in the registry
  under its route, last in the queue of the route, counted, and announced to those who wait.
\<close>

theorem registration_reaches_farm:
  fixes cfg H dbg uuid meth headers params ip cif f router_socket_id port now
  assumes "built cfg" and "reg_check_and_extract H dbg cfg uuid meth headers params ip = Ret (Inr cif)"
    and "farm_reach Gs f n" and "router_socket_id \<notin> rs_id ` set (f_socks f)"
  defines "f1 \<equiv> snd (register_handler router_socket_id cif ip port f)"
    and "r \<equiv> length (f_socks f)"
  defines "f2 \<equiv> run_task now (Add_Socket r) (f1\<lparr>f_tasks := f_tasks f\<rparr>)"
  shows "f_tasks f1 = f_tasks f @ [Add_Socket r] \<and> farm_reach Gs f2 n \<and>
    sock f2 r = harvested router_socket_id cif ip port \<and> usable_version (rs_version (sock f2 r)) \<and>
    r \<in> set (registered_refs f2) \<and>
    (\<exists>i. am_get (route_to_socket_chan f2) (ci_route cif) = Some i \<and>
       queue f2 i = (case am_get (route_to_socket_chan f) (ci_route cif) of Some i \<Rightarrow> queue f i | None \<Rightarrow> []) @ [r]) \<and>
    f_idle_count f2 = f_idle_count f + 1 \<and> f_notified f2 = f_notified f @ [ci_route cif]"
proof -
  have v: "ci_negotiated_cranker_version cif \<in> {CRANKER_V_1_0, CRANKER_V_3_0}"
    using accepted_version [OF assms(1,2)] .
  let ?s = "harvested router_socket_id cif ip port"
  let ?f = "f\<lparr>f_socks := f_socks f @ [?s], f_held := r # f_held f\<rparr>"
  have f1: "f1 = add_router_socket_in_background r ?f"
    using v by (auto simp: f1_def r_def register_handler_def harvest_router_socket_def)
  then have f2: "f2 = run_add r ?f" by (simp add: f2_def add_router_socket_in_background_def spawn_def)
  have "farm_reach Gs f1 n"
    using farm_reach.new_socket [OF assms(3), of ?s] assms(4) unfolding f1 r_def by (simp add: harvested_def)
  from farm_reach.task [OF this, of "f_tasks f" "Add_Socket r" "[]" "f1\<lparr>f_tasks := f_tasks f\<rparr>" now]
  have reach: "farm_reach Gs f2 n" by (simp add: f2_def f1 add_router_socket_in_background_def spawn_def)
  have s: "sock ?f r = ?s" by (simp add: sock_def r_def)
  have valid: "routes_valid ?f" using farm_reach_routes [OF assms(3)] by (simp add: routes_valid_def)
  have queue_same: "queue ?f = queue f" by (simp add: queue_def fun_eq_iff)
  from s have route: "rs_route (sock ?f r) = ci_route cif" by (simp add: harvested_def)
  obtain sub i where add: "am_get (router_socket_map f2) (ci_route cif) = Some sub" "am_get sub (rs_id (sock ?f r)) = Some r"
    "am_get (route_to_socket_chan f2) (ci_route cif) = Some i"
    "queue f2 i = (case am_get (route_to_socket_chan f) (ci_route cif) of Some i \<Rightarrow> queue f i | None \<Rightarrow> []) @ [r]"
    using run_add_registers [OF valid, of r] unfolding f2 [symmetric] route queue_same by auto
  moreover have "r \<in> set (registered_refs f2)" by (rule am_get_registered [OF add(1,2)])
  moreover have "f_idle_count f2 = f_idle_count f + 1" "f_notified f2 = f_notified f @ [ci_route cif]" "f_socks f2 = f_socks ?f"
    using run_add_counts [of r ?f] unfolding f2 [symmetric] route by simp_all
  moreover from this(3) s have "sock f2 r = ?s" by (simp add: sock_def)
  moreover have "usable_version (rs_version ?s)" using v by (auto simp: usable_version_def harvested_def)
  ultimately show ?thesis using f1 reach by (auto simp: add_router_socket_in_background_def spawn_def)
qed

text \<open>A connector of route \<^verbatim>\<open>api\<close>, of version 1, registers at a fresh router.\<close>

definition sample_cif :: connector_info where
  "sample_cif = \<lparr>ci_connector_id = ''u'', ci_route = ''api'', ci_component_name = ''unknown-u'', ci_domain = ''*'',
     ci_negotiated_cranker_version = CRANKER_V_1_0\<rparr>"

definition sample_reg_headers :: "(string \<times> string) list" where
  "sample_reg_headers = [(''Sec-WebSocket-Protocol'', ''cranker_1.0''), (''Route'', ''api'')]"

lemma sample_reg:
  "reg_check_and_extract lhm (\<lambda>_. []) (builder_new ()) ''u'' ''GET'' sample_reg_headers [] ''10.0.0.1'' = Ret (Inr sample_cif)"
proof -
  have "extract_cranker_version lhm (\<lambda>_. []) SUPPORTED_CRANKER_VERSION sample_reg_headers = Ret (Inr CRANKER_V_1_0)"
    "hm_get_str lhm sample_reg_headers ''Route'' = Some ''api''" "hm_get_str lhm sample_reg_headers ''Domain'' = None" "chars ''u'' = [''u'']"
    by code_simp+
  then show ?thesis by (simp add: reg_check_and_extract_def builder_new_def Let_def sample_cif_def)
qed

theorem registration_reaches_farm_witness:
  "0 \<in> set (registered_refs (run_task 0 (Add_Socket 0) ((snd (register_handler ''s1'' sample_cif ''10.0.0.1'' 80 (farm_new 5000)))\<lparr>f_tasks := []\<rparr>)))"
proof -
  have "f_tasks (farm_new 5000) = []" "f_socks (farm_new 5000) = []" by (simp_all add: farm_new_def)
  with registration_reaches_farm [OF built.intros(1) sample_reg farm_reach.start [of "{sample_get}" 5000], of "''s1''" 80 0]
  show ?thesis by simp
qed

lemma refs_put_filter:
  assumes "am_ok m" and "\<forall>(k, sub) \<in> set m. \<forall>(_, x) \<in> set sub. P x \<longleftrightarrow> k = route" and "am_get m route = Some sub"
  shows "map snd (concat (map snd (am_put m route (filter (\<lambda>(_, x). \<not> Q x) sub)))) =
    filter (\<lambda>x. \<not> (P x \<and> Q x)) (map snd (concat (map snd m)))"
  using assms
proof (induction m)
  case (Cons e m)
  obtain k t where e: "e = (k, t)" by fastforce
  show ?case
  proof (cases "k = route")
    case True
    then have t: "t = sub" using Cons.prems(3) by (simp add: e am_get_Cons)
    have "\<forall>(k', s) \<in> set m. k' \<noteq> route" using Cons.prems(1) True by (force simp: am_ok_def e)
    then have "filter (\<lambda>x. \<not> (P x \<and> Q x)) (map snd (concat (map snd m))) = map snd (concat (map snd m))"
      using Cons.prems(2) by (fastforce simp: filter_id_conv)
    moreover have "filter (\<lambda>x. \<not> (P x \<and> Q x)) (map snd t) = map snd (filter (\<lambda>(_, x). \<not> Q x) t)"
      using Cons.prems(2) True unfolding filter_map comp_def e by (fastforce intro!: arg_cong [of _ _ "map snd"] filter_cong)
    ultimately show ?thesis using True by (simp add: e t)
  next
    case False
    have "filter (\<lambda>x. \<not> (P x \<and> Q x)) (map snd t) = map snd t"
      using Cons.prems(2) False by (fastforce simp: filter_id_conv e)
    with False Cons show ?thesis by (simp add: e am_ok_def am_get_Cons)
  qed
qed simp

lemma de_register_refs:
  assumes "farm_ok f n"
  shows "registered_refs (run_de_register now route connector_id f) =
    filter (\<lambda>x. \<not> (rs_route (sock f x) = route \<and> rs_connector (sock f x) = connector_id)) (registered_refs f)"
proof (cases "am_get (router_socket_map f) route")
  case None
  have "rs_route (sock f x) \<noteq> route" if "x \<in> set (registered_refs f)" for x
  proof -
    from that obtain k sub i where e: "(k, sub) \<in> set (router_socket_map f)" "(i, x) \<in> set sub" by (force simp: registered_refs_def)
    with farm_ok_entry [OF assms e] None show ?thesis by (force simp: am_get_None_iff am_keys_def)
  qed
  then have "filter (\<lambda>x. \<not> (rs_route (sock f x) = route \<and> rs_connector (sock f x) = connector_id)) (registered_refs f) = registered_refs f"
    by (simp add: filter_id_conv)
  with None show ?thesis by (simp add: run_de_register_def)
next
  case (Some sub)
  have "am_ok (router_socket_map f)" using assms by (simp add: farm_ok_def)
  moreover have "\<forall>(k, sub) \<in> set (router_socket_map f). \<forall>(_, x) \<in> set sub. rs_route (sock f x) = route \<longleftrightarrow> k = route"
    using farm_ok_entry [OF assms] by fast
  ultimately have refs: "map snd (concat (map snd (am_put (router_socket_map f) route (filter (\<lambda>(_, r). rs_connector (sock f r) \<noteq> connector_id) sub)))) =
      filter (\<lambda>x. \<not> (rs_route (sock f x) = route \<and> rs_connector (sock f x) = connector_id)) (registered_refs f)"
    unfolding registered_refs_def by (rule refs_put_filter [OF _ _ Some])
  have "router_socket_map (foldl (\<lambda>f r. de_register_socket r f) f0 rs) = router_socket_map f0" for f0 rs
    using de_register_fold [of f0 rs] by (simp add: Let_def)
  then show ?thesis
    using refs Some by (simp add: run_de_register_def Let_def registered_refs_def [of "foldl _ _ _"])
qed

text \<open>
  Claim C17: a connector de-registers only from an allowed address and by naming its id. Then the farm is
  asked once, and when that has been done the registry has lost exactly the connector's sockets of the
  route, and the connector gets a close frame of code 1000. From another address it gets a 403 and
  nothing changes. Without an id nothing changes either, and the request fails: the handler asks for the
  id, which the middleware did not leave.
\<close>

theorem deregistration_effect:
  fixes H cfg headers params ip f missing now
  assumes "farm_reach Gs f n"
  defines "route \<equiv> (case hm_get_str H headers ''Route'' of Some s \<Rightarrow> s | None \<Rightarrow> ''*'')"
  shows "case de_reg_check H cfg headers params ip f of
      (f', Inl (status, body)) \<Rightarrow> \<not> registration_ip_validator cfg ip \<and> f' = f \<and> status = 403
    | (f', Inr extension) \<Rightarrow> registration_ip_validator cfg ip \<and> extension = am_get params ''connectorInstanceID'' \<and>
        (case extension of
           None \<Rightarrow> f' = f \<and> de_register_handler missing extension = Inl missing
         | Some connector_id \<Rightarrow>
             f' = f\<lparr>f_tasks := f_tasks f @ [De_Register route connector_id]\<rparr> \<and>
             registered_refs (run_task now (De_Register route connector_id) f) =
               filter (\<lambda>x. \<not> (rs_route (sock f x) = route \<and> rs_connector (sock f x) = connector_id)) (registered_refs f) \<and>
             de_register_handler missing extension = Inr (1000, ''Deregister complete''))"
  unfolding route_def
  by (simp add: de_reg_check_def Let_def failed_at_ip_validation_def de_register_handler_def de_register_router_socket_in_background_def spawn_def
      de_register_refs [OF farm_reach_ok [OF assms(1)]] split: option.split)

definition sample_cfg :: "(unit, unit) router_config" where
  "sample_cfg = builder_new ()"

theorem deregistration_effect_witness:
  "de_reg_check lhm sample_cfg sample_reg_headers [(''connectorInstanceID'', ''c1'')] ''10.0.0.1'' sample_left =
     (sample_left\<lparr>f_tasks := f_tasks sample_left @ [De_Register ''api'' ''c1'']\<rparr>, Inr (Some ''c1''))"
proof -
  have route: "hm_get_str lhm sample_reg_headers ''Route'' = Some ''api''" by code_simp
  have allowed: "registration_ip_validator sample_cfg ''10.0.0.1''" by (simp add: sample_cfg_def builder_new_def)
  obtain f' r where r: "de_reg_check lhm sample_cfg sample_reg_headers [(''connectorInstanceID'', ''c1'')] ''10.0.0.1'' sample_left = (f', r)"
    by fastforce
  from deregistration_effect [OF sample_left_reach, where H = lhm and cfg = sample_cfg and headers = sample_reg_headers
        and params = "[(''connectorInstanceID'', ''c1'')]" and ip = "''10.0.0.1''" and missing = "()" and now = 0]
  show ?thesis unfolding r prod.case route option.case using allowed by (cases r) (auto simp: am_get_Cons)
qed

section \<open>Where a request comes from\<close>

text \<open>
  The ways a request reaches the portal, by what its listener leaves in its extensions, with the address of
  the peer and whether the connection is secured: plain TCP with the address alone or with the details, the
  TLS listener, the TLS acceptor of axum-server, and QUIC. \<open>peer_addr\<close> reads the peer of an accepted stream.
\<close>

inductive arrives :: "('raw \<Rightarrow> socket_addr option) \<Rightarrow> ('v, 'c) extensions \<Rightarrow> socket_addr \<Rightarrow> bool \<Rightarrow> bool" for peer_addr where
  tcp_alone: "ex_connected ext = None \<Longrightarrow> ex_cranker ext = None \<Longrightarrow> ex_addr ext = Some addr \<Longrightarrow> arrives peer_addr ext addr False"
| tcp: "ex_connected ext = Some (tcp_connect_info addr) \<Longrightarrow> arrives peer_addr ext addr False"
| rustls: "ex_connected ext = Some (rustls_connect_info addr session) \<Longrightarrow> arrives peer_addr ext addr True"
| acceptor: "ex_connected ext = None \<Longrightarrow>
    cranker_tls_accept peer_addr (Inr ((raw, session), ()) :: unit + _) = Inr (stream, service) \<Longrightarrow> peer_addr raw = Some addr \<Longrightarrow>
    arrives peer_addr (tls_info_call (\<lambda>_ req. req) service ext) addr True"
| quinn: "ex_connected ext = None \<Longrightarrow> ex_cranker ext = Some (from_quinn_connection conn) \<Longrightarrow>
    arrives peer_addr ext (qc_remote_address conn) True"

lemma arrives_visit: "arrives peer_addr ext addr tls \<Longrightarrow> visit_addr ext = addr \<and> visit_is_tls ext = tls"
  by (induction rule: arrives.induct)
    (auto simp: visit_addr_def visit_is_tls_def visit_conn_info_def tcp_connect_info_def rustls_connect_info_def cranker_tls_accept_def
      tls_info_call_def from_quinn_connection_def Let_def)

text \<open>
  Claim C27: the target learns where a request comes from. Whichever listener a request came through, the
  portal takes the address of its peer, and takes it as secured exactly when the connection was. The
  Forwarded headers the target receives are the client's, reprinted in order, and last the router's own, with
  that address and the protocol \<^verbatim>\<open>https\<close> for a secured connection; with the discarding configuration only the
  router's own. When the client's cannot be read, the target receives no Forwarded header at all.
\<close>

theorem visit_forwards_origin:
  assumes "arrives peer_addr ext addr tls" "header_map H" "built cfg"
    and "set_target_request_headers H lip cfg cli (hm_new H) ver (sa_ip (visit_addr ext)) uri (visit_is_tls ext) = Ret (hdr, has)"
  shows "visit_addr ext = addr \<and> visit_is_tls ext = tls \<and>
    hm_get_all H hdr ''Forwarded'' =
      (let own = \<lparr>fh_by = Some lip, fh_for_value = Some (sa_ip addr),
             fh_host = (case hm_get_str H cli ''host'' of Some h \<Rightarrow> Some h | None \<Rightarrow> uri_authority uri),
             fh_proto = Some (if tls then ''https'' else case uri_scheme uri of Some s \<Rightarrow> s | None \<Rightarrow> ''http''), fh_extensions = None\<rparr>
       in if discard_client_forwarded_headers cfg then parsed_forwarded H [own]
          else case get_existing_forwarded_headers H cli of
                 Ret (Inr fhs) \<Rightarrow> parsed_forwarded H (fhs @ [own])
               | _ \<Rightarrow> [])"
  using arrives_visit [OF assms(1)] target_headers_forwarded [OF assms(2-4)]
  by (simp add: create_forwarded_header_to_tgt_def Let_def)

text \<open>A request over TLS.\<close>

definition sample_ext :: "(unit, unit) extensions" where
  "sample_ext = \<lparr>ex_connected = Some (rustls_connect_info \<lparr>sa_ip = ''10.0.0.1'', sa_port = 4000\<rparr>
       \<lparr>ss_server_name = Some ''h'', ss_alpn_protocol = None, ss_protocol_version = Some (), ss_negotiated_cipher_suite = Some (),
        ss_peer_certificates = None\<rparr>), ex_cranker = None, ex_addr = None\<rparr>"

theorem visit_forwards_origin_witness:
  "\<exists>hdr has. set_target_request_headers lhm ''10.0.0.9'' sample_config sample_request (hm_new lhm) ''HTTP/1.1''
       (sa_ip (visit_addr sample_ext)) sample_uri (visit_is_tls sample_ext) = Ret (hdr, has) \<and>
     hm_get_all lhm hdr ''Forwarded'' = [''by=10.0.0.9;for=10.0.0.1;host='' @ [CHR 0x22] @ ''h:80'' @ [CHR 0x22] @ '';proto=https'']"
proof -
  have "\<exists>hdr has. set_target_request_headers lhm ''10.0.0.9'' sample_config sample_request (hm_new lhm) ''HTTP/1.1''
       (sa_ip (visit_addr sample_ext)) sample_uri (visit_is_tls sample_ext) = Ret (hdr, has)"
    by (rule discarding_returns) (simp add: with_discard_client_forwarded_headers_def)
  then obtain hdr has where ret: "set_target_request_headers lhm ''10.0.0.9'' sample_config sample_request (hm_new lhm) ''HTTP/1.1''
       (sa_ip (visit_addr sample_ext)) sample_uri (visit_is_tls sample_ext) = Ret (hdr, has)" by blast
  have "arrives (\<lambda>raw :: unit. None) sample_ext \<lparr>sa_ip = ''10.0.0.1'', sa_port = 4000\<rparr> True"
    by (rule arrives.rustls) (simp add: sample_ext_def)
  note origin = visit_forwards_origin [OF this header_map_lhm built_discarding ret]
  have "parsed_forwarded lhm [\<lparr>fh_by = Some ''10.0.0.9'', fh_for_value = Some ''10.0.0.1'',
      fh_host = (case hm_get_str lhm sample_request ''host'' of Some h \<Rightarrow> Some h | None \<Rightarrow> uri_authority sample_uri),
      fh_proto = Some ''https'', fh_extensions = None\<rparr>] =
    [''by=10.0.0.9;for=10.0.0.1;host='' @ [CHR 0x22] @ ''h:80'' @ [CHR 0x22] @ '';proto=https'']"
    by code_simp
  with origin ret show ?thesis by (auto simp: Let_def with_discard_client_forwarded_headers_def)
qed

end
