(* ===== verification/Channels.thy ===== *)
theory Channels
  imports Prelude
begin

text \<open>
  The unbounded channels the sockets exchange values through: a first-in first-out queue that can
  be closed. A send to a closed channel fails and gives the value back; what was sent before the
  close can still be received. The locale states these laws for the clients of a channel.
\<close>

record 'a chan =
  chan_items :: "'a list"
  chan_closed :: bool

definition chan_new :: "'a chan" where
  "chan_new = \<lparr>chan_items = [], chan_closed = False\<rparr>"

text \<open>The channel after a send, and whether the send succeeded.\<close>

definition chan_send :: "'a chan \<Rightarrow> 'a \<Rightarrow> 'a chan \<times> bool" where
  "chan_send c x =
     (if chan_closed c then (c, False) else (c\<lparr>chan_items := chan_items c @ [x]\<rparr>, True))"

definition chan_close :: "'a chan \<Rightarrow> 'a chan" where
  "chan_close c = c\<lparr>chan_closed := True\<rparr>"

definition chan_try_recv :: "'a chan \<Rightarrow> ('a \<times> 'a chan) option" where
  "chan_try_recv c = (case chan_items c of [] \<Rightarrow> None | x # xs \<Rightarrow> Some (x, c\<lparr>chan_items := xs\<rparr>))"

definition chan_is_empty :: "'a chan \<Rightarrow> bool" where
  "chan_is_empty c \<longleftrightarrow> chan_items c = []"

text \<open>Terminated: closed and drained.\<close>

definition chan_is_terminated :: "'a chan \<Rightarrow> bool" where
  "chan_is_terminated c \<longleftrightarrow> chan_closed c \<and> chan_items c = []"

text \<open>Sending when nobody looks at the result.\<close>

definition chan_push :: "'a chan \<Rightarrow> 'a \<Rightarrow> 'a chan" where
  "chan_push c x = fst (chan_send c x)"

locale fifo =
  fixes new :: 'c
    and send :: "'c \<Rightarrow> 'a \<Rightarrow> 'c \<times> bool"
    and close :: "'c \<Rightarrow> 'c"
    and try_recv :: "'c \<Rightarrow> ('a \<times> 'c) option"
    and is_closed :: "'c \<Rightarrow> bool"
    and items :: "'c \<Rightarrow> 'a list"
  assumes items_new: "items new = []" and open_new: "\<not> is_closed new"
    and send_open: "\<not> is_closed c \<Longrightarrow> snd (send c x) \<and> items (fst (send c x)) = items c @ [x] \<and> \<not> is_closed (fst (send c x))"
    and send_closed: "is_closed c \<Longrightarrow> send c x = (c, False)"
    and close_items: "items (close c) = items c" and close_closed: "is_closed (close c)"
    and recv_None: "try_recv c = None \<longleftrightarrow> items c = []"
    and recv_Some: "try_recv c = Some (x, c') \<Longrightarrow> items c = x # items c' \<and> (is_closed c' \<longleftrightarrow> is_closed c)"
begin

definition send_all :: "'c \<Rightarrow> 'a list \<Rightarrow> 'c" where
  "send_all c xs = foldl (\<lambda>c x. fst (send c x)) c xs"

lemma send_all_items:
  "items (send_all c xs) = items c @ (if is_closed c then [] else xs)"
proof (induction xs arbitrary: c)
  case (Cons x xs)
  have "send_all c (x # xs) = send_all (fst (send c x)) xs"
    by (simp add: send_all_def)
  then show ?case
    using Cons [of "fst (send c x)"] send_open [of c x] send_closed [of c x] by (cases "is_closed c") auto
qed (simp add: send_all_def)

lemma recv_in_order: "items c = x # xs \<Longrightarrow> \<exists>c'. try_recv c = Some (x, c') \<and> items c' = xs"
  using recv_None [of c] recv_Some [of c] by (cases "try_recv c") auto

end

interpretation chan: fifo chan_new chan_send chan_close chan_try_recv chan_closed chan_items
  by unfold_locales
    (auto simp: chan_new_def chan_send_def chan_close_def chan_try_recv_def split: list.splits)

lemma chan_push_closed [simp]: "chan_closed (chan_push c x) = chan_closed c"
  by (simp add: chan_push_def chan_send_def)

lemma chan_push_items [simp]: "chan_items (chan_push c x) = chan_items c @ (if chan_closed c then [] else [x])"
  by (simp add: chan_push_def chan_send_def)

lemma chan_close_simps [simp]: "chan_closed (chan_close c)" "chan_items (chan_close c) = chan_items c"
  by (simp_all add: chan_close_def)

lemma chan_new_simps [simp]: "chan_items chan_new = []" "\<not> chan_closed chan_new"
  by (simp_all add: chan_new_def)

end
