(* ===== verification/Proxy_Listener.thy ===== *)
theory Proxy_Listener
  imports Channels Http_Utils
begin

text \<open>
  What the two kinds of socket share: the messages of a websocket, the hooks a user may register
  (\<^verbatim>\<open>src/src/proxy_listener.rs\<close>), and the environment of a handler. A hook sees information about the
  request, of a type each socket chooses, and answers; the header hook may also change the
  headers. The default hooks answer with success.
\<close>

section \<open>Messages\<close>

datatype ws_message =
    WText string
  | WBinary bytes
  | WPing bytes
  | WPong bytes
  | WClose "(nat \<times> string) option"

fun err_msg_for_uwss :: "ws_message \<Rightarrow> string" where
  "err_msg_for_uwss (WText _) = ''err sending txt to uwss''"
| "err_msg_for_uwss (WBinary _) = ''err sending bin to uwss''"
| "err_msg_for_uwss (WPing _) = ''err sending ping to uwss''"
| "err_msg_for_uwss (WPong _) = ''err sending pong to uwss''"
| "err_msg_for_uwss (WClose _) = ''err sending close to uwss''"

fun msg_identifier :: "ws_message \<Rightarrow> string" where
  "msg_identifier (WText _) = ''txt''"
| "msg_identifier (WBinary _) = ''bin''"
| "msg_identifier (WPing _) = ''ping''"
| "msg_identifier (WPong _) = ''pong''"
| "msg_identifier (WClose _) = ''close''"

section \<open>Hooks\<close>

record ('i, 'm) proxy_listener =
  on_before_proxy_to_target :: "'i \<Rightarrow> 'm \<Rightarrow> 'm \<times> unit res"
  on_before_responding_to_client :: "'i \<Rightarrow> unit res"
  on_after_proxy_to_target_headers_sent :: "'i \<Rightarrow> 'm \<Rightarrow> unit res"
  on_after_target_to_proxy_headers_received :: "'i \<Rightarrow> nat \<Rightarrow> 'm option \<Rightarrow> unit res"
  on_before_request_body_chunk_sent_to_target :: "'i \<Rightarrow> bytes \<Rightarrow> unit res"
  on_request_body_chunk_sent_to_target :: "'i \<Rightarrow> bytes \<Rightarrow> unit res"
  on_request_body_sent_to_target :: "'i \<Rightarrow> unit res"
  on_response_body_chunk_received_from_target :: "'i \<Rightarrow> bytes \<Rightarrow> unit res"
  really_need_on_response_body_chunk :: bool
  really_need_on_request_body_chunk :: bool

definition default_listener :: "('i, 'm) proxy_listener" where
  "default_listener =
     \<lparr>on_before_proxy_to_target = (\<lambda>_ m. (m, Inr ())),
      on_before_responding_to_client = (\<lambda>_. Inr ()),
      on_after_proxy_to_target_headers_sent = (\<lambda>_ _. Inr ()),
      on_after_target_to_proxy_headers_received = (\<lambda>_ _ _. Inr ()),
      on_before_request_body_chunk_sent_to_target = (\<lambda>_ _. Inr ()),
      on_request_body_chunk_sent_to_target = (\<lambda>_ _. Inr ()),
      on_request_body_sent_to_target = (\<lambda>_. Inr ()),
      on_response_body_chunk_received_from_target = (\<lambda>_ _. Inr ()),
      really_need_on_response_body_chunk = False,
      really_need_on_request_body_chunk = False\<rparr>"

text \<open>The loop \<^verbatim>\<open>for i in listeners { i.hook(..)?; }\<close>: the first error ends it.\<close>

fun all_hooks :: "('a \<Rightarrow> unit res) \<Rightarrow> 'a list \<Rightarrow> unit res" where
  "all_hooks f [] = Inr ()"
| "all_hooks f (l # ls) = (case f l of Inl e \<Rightarrow> Inl e | Inr _ \<Rightarrow> all_hooks f ls)"

text \<open>The header hook of every listener in turn, each on the headers the previous left.\<close>

fun before_proxy_hooks :: "('i, 'm) proxy_listener list \<Rightarrow> 'i \<Rightarrow> 'm \<Rightarrow> 'm \<times> unit res" where
  "before_proxy_hooks [] i m = (m, Inr ())"
| "before_proxy_hooks (l # ls) i m =
     (case on_before_proxy_to_target l i m of
        (m', Inl e) \<Rightarrow> (m', Inl (with_err_kind e ProxyListenerError_0009))
      | (m', Inr _) \<Rightarrow> before_proxy_hooks ls i m')"

lemma all_hooks_Inr_iff: "all_hooks f ls = Inr u \<longleftrightarrow> (\<forall>l \<in> set ls. \<exists>u. f l = Inr u)"
  by (induction ls) (auto split: sum.splits)

lemma before_proxy_hooks_error:
  "before_proxy_hooks ls i m = (m', Inl e) \<Longrightarrow> opt_err_kind e = Some ProxyListenerError_0009"
  by (induction ls i m rule: before_proxy_hooks.induct) (auto split: prod.splits sum.splits)

section \<open>The environment of a handler\<close>

text \<open>
  The registered listeners, the current time, and the debug renderings of errors of library code
  that reach error texts: of a send to a closed channel, of a receive from one, of bytes that are
  no text, and of a response that could not be completed.
\<close>

record ('i, 'm) sock_env =
  env_listeners :: "('i, 'm) proxy_listener list"
  env_now :: i64
  dbg_send_error :: string
  dbg_recv_error :: string
  dbg_utf8_error :: "bytes \<Rightarrow> string"
  dbg_parse_int_error :: "string \<Rightarrow> string"
  dbg_lines :: "string list \<Rightarrow> string"
  dbg_build_error :: string

end
