(* ===== verification/Protocol.thy ===== *)
theory Protocol
  imports Http_Utils
begin

text \<open>
  The text messages between router and connector: the request the router writes
  (\<^verbatim>\<open>src/src/cranker_protocol_request_builder.rs\<close>, and the request line of
  \<^verbatim>\<open>src/src/router_socket.rs\<close>) and the response it reads
  (\<^verbatim>\<open>src/src/cranker_protocol_response.rs\<close>).
\<close>

abbreviation newline :: char where "newline \<equiv> CHR 0x0A"

section \<open>The request\<close>

datatype end_marker = RequestBodyPending | RequestHasNoBody | RequestBodyEnded

fun end_marker_as_str :: "end_marker \<Rightarrow> string" where
  "end_marker_as_str RequestBodyPending = ''_1''"
| "end_marker_as_str RequestHasNoBody = ''_2''"
| "end_marker_as_str RequestBodyEnded = ''_3''"

record request_builder =
  rb_request_line :: "string option"
  rb_header_map_str :: "string option"
  rb_end_marker :: "end_marker option"

definition request_builder_new :: request_builder where
  "request_builder_new = \<lparr>rb_request_line = None, rb_header_map_str = None, rb_end_marker = None\<rparr>"

definition with_request_line :: "request_builder \<Rightarrow> string \<Rightarrow> request_builder" where
  "with_request_line b s = b\<lparr>rb_request_line := Some s\<rparr>"

text \<open>
  One value of a header: a value that is no text is logged and skipped, a cookie is kept for the
  combined line at the end.
\<close>

definition add_header_value ::
    "('m, 'v) header_ops \<Rightarrow> string \<Rightarrow> string \<times> string list \<Rightarrow> 'v \<Rightarrow> string \<times> string list" where
  "add_header_value H k st v =
     (case (st, hv_to_str H v) of
        ((headers_str, cookie_list), Some s) \<Rightarrow>
          if eq_ignore_ascii_case k ''cookie'' then (headers_str, cookie_list @ [s])
          else (headers_str @ k @ '':'' @ s @ [newline], cookie_list)
      | (_, None) \<Rightarrow> st)"

definition build_header_str :: "('m, 'v) header_ops \<Rightarrow> 'm \<Rightarrow> string" where
  "build_header_str H hdrs =
     (let (headers_str, cookie_list) =
            foldl (\<lambda>st k. foldl (add_header_value H k) st (hm_get_all H hdrs k)) ([], [])
              (hm_keys H hdrs)
      in if cookie_list \<noteq> [] then headers_str @ ''cookie:'' @ join ''; '' cookie_list @ [newline]
         else headers_str)"

definition with_request_headers :: "('m, 'v) header_ops \<Rightarrow> request_builder \<Rightarrow> 'm \<Rightarrow> request_builder" where
  "with_request_headers H b hdrs = b\<lparr>rb_header_map_str := Some (build_header_str H hdrs)\<rparr>"

definition with_request_body_pending :: "request_builder \<Rightarrow> request_builder" where
  "with_request_body_pending b = b\<lparr>rb_end_marker := Some RequestBodyPending\<rparr>"

definition with_request_has_no_body :: "request_builder \<Rightarrow> request_builder" where
  "with_request_has_no_body b = b\<lparr>rb_end_marker := Some RequestHasNoBody\<rparr>"

definition with_request_body_ended :: "request_builder \<Rightarrow> request_builder" where
  "with_request_body_ended b = b\<lparr>rb_end_marker := Some RequestBodyEnded\<rparr>"

definition build_req_and_hdr :: "string \<Rightarrow> string \<Rightarrow> end_marker \<Rightarrow> string" where
  "build_req_and_hdr request_line header_map_str marker =
     request_line @ [newline] @ header_map_str @ [newline] @ end_marker_as_str marker"

definition request_build :: "request_builder \<Rightarrow> string res" where
  "request_build b =
     (case rb_end_marker b of
        None \<Rightarrow> Inl (with_err_kind
          (crex_new ''failed to build cranker protocol request. end marker missing'')
          CrankerProtocolEndMarkerMissing_0005)
      | Some marker \<Rightarrow>
          (case (rb_request_line b, rb_header_map_str b) of
             (Some request_line, Some header_map_str) \<Rightarrow> Inr (build_req_and_hdr request_line header_map_str marker)
           | _ \<Rightarrow>
               (case marker of
                  RequestBodyEnded \<Rightarrow> Inr (end_marker_as_str marker)
                | _ \<Rightarrow> Inl (crex_new (''failed to build cranker protocol request. end marker should be RequestBodyEnded '' @
                      ''when no request line and header map str is present.'')))))"

definition create_request_line :: "string \<Rightarrow> orig_uri \<Rightarrow> string" where
  "create_request_line meth uri =
     meth @ '' '' @ (case uri_path_and_query uri of Some paq \<Rightarrow> paq | None \<Rightarrow> []) @ '' HTTP/1.1''"

section \<open>The response\<close>

record cranker_response =
  cr_headers :: "string list"
  cr_status :: nat

text \<open>
  \<open>dbg_pie\<close> renders the error of parsing a number text, \<open>dbg_lines\<close> a list of header lines; both
  only reach error texts.
\<close>

definition try_from_string :: "(string \<Rightarrow> string) \<Rightarrow> string \<Rightarrow> cranker_response res" where
  "try_from_string dbg_pie message_to_apply =
     (let lines = split_on newline message_to_apply
      in if length lines \<le> 0
         then Inl (with_err_kind
                (crex_new (''failed to parse header from target response ('' @ message_to_apply @ '')''))
                CrankerProtocolZeroLengthHeaderLine_0006)
         else
           let bits = split_on CHR '' '' (lines ! 0)
           in if length bits < 2
              then Inl (with_err_kind
                     (crex_new (''failed to parse status code from target response ('' @ message_to_apply @
                                ''): no status code found''))
                     CrankerProtocolHttpStatusCodeMissing_0007)
              else (case u16_from_str (bits ! 1) of
                      None \<Rightarrow> Inl (crex_new (''failed to parse status code from target response header ('' @
                                bits ! 1 @ ''): '' @ dbg_pie (bits ! 1)))
                    | Some status \<Rightarrow>
                        Inr \<lparr>cr_headers = filter (\<lambda>s. s \<noteq> []) (drop 1 lines), cr_status = status\<rparr>))"

text \<open>
  The response builder of the \<^verbatim>\<open>http\<close> crate, which keeps the first error it meets: a status and
  headers, or \<open>None\<close> once a status, a name or a value was not accepted.
\<close>

type_synonym 'm response_builder = "(nat \<times> 'm) option"

definition builder_status :: "('m, 'v) header_ops \<Rightarrow> (nat \<Rightarrow> bool) \<Rightarrow> nat \<Rightarrow> 'm response_builder" where
  "builder_status H valid_status status = (if valid_status status then Some (status, hm_new H) else None)"

definition builder_header ::
    "('m, 'v) header_ops \<Rightarrow> (string \<Rightarrow> bool) \<Rightarrow> 'm response_builder \<Rightarrow> string \<Rightarrow> string \<Rightarrow> 'm response_builder" where
  "builder_header H valid_name res key val =
     (case (res, hv_parse H val) of
        (Some (status, hdrs), Some v) \<Rightarrow>
          if valid_name key then Some (status, hm_append H hdrs key v) else None
      | _ \<Rightarrow> None)"

text \<open>The two sides of the first colon, \<open>None\<close> when there is none.\<close>

fun split_colon :: "string \<Rightarrow> (string \<times> string) option" where
  "split_colon [] = None"
| "split_colon (c # cs) =
     (if c = CHR '':'' then Some ([], cs)
      else map_option (\<lambda>(a, b). (c # a, b)) (split_colon cs))"

fun response_header_loop ::
    "('m, 'v) header_ops \<Rightarrow> (string \<Rightarrow> bool) \<Rightarrow> crex \<Rightarrow> string list \<Rightarrow> 'm response_builder \<Rightarrow> 'm response_builder res" where
  "response_header_loop H valid_name failed [] res = Inr res"
| "response_header_loop H valid_name failed (header_line # rest) res =
     (case split_colon header_line of
        None \<Rightarrow> Inl failed
      | Some (before, after) \<Rightarrow>
          let key = trim before; lowercase_key = to_lowercase key
          in response_header_loop H valid_name failed rest
               (if lowercase_key \<notin> HOP_BY_HOP_HEADERS \<and> lowercase_key \<notin> RESPONSE_HEADERS_TO_NOT_SEND_BACK
                then builder_header H valid_name res key (trim after) else res))"

text \<open>\<open>iter\<close> lists a hash set in some order.\<close>

definition response_build ::
    "('m, 'v) header_ops \<Rightarrow> (nat \<Rightarrow> bool) \<Rightarrow> (string \<Rightarrow> bool) \<Rightarrow> (string list \<Rightarrow> string) \<Rightarrow> (string set \<Rightarrow> string list) \<Rightarrow>
     cranker_response \<Rightarrow> 'm response_builder res" where
  "response_build H valid_status valid_name dbg_lines iter resp =
     (let failed = crex_new (''failed to parse protocol response, header seems corrupted: '' @ dbg_lines (cr_headers resp))
      in case response_header_loop H valid_name failed (cr_headers resp) (builder_status H valid_status (cr_status resp)) of
           Inl e \<Rightarrow> Inl e
         | Inr None \<Rightarrow> Inr None
         | Inr (Some (status, hdrs)) \<Rightarrow>
             Inr (Some (status,
               foldl (hm_remove H) hdrs (iter (get_custom_hop_by_hop_headers H (hm_get H hdrs ''connection''))))))"

section \<open>Lemmas\<close>

definition ok_texts :: "('m, 'v) header_ops \<Rightarrow> 'v list \<Rightarrow> string list" where
  "ok_texts H vs = List.map_filter (hv_to_str H) vs"

definition is_cookie :: "string \<Rightarrow> bool" where
  "is_cookie k \<longleftrightarrow> eq_ignore_ascii_case k ''cookie''"

text \<open>The header lines of a request other than the cookie line, and the cookies.\<close>

definition header_lines :: "('m, 'v) header_ops \<Rightarrow> 'm \<Rightarrow> string list" where
  "header_lines H hdrs =
     concat (map (\<lambda>k. if is_cookie k then [] else map (\<lambda>s. k @ '':'' @ s) (ok_texts H (hm_get_all H hdrs k)))
       (hm_keys H hdrs))"

definition cookies :: "('m, 'v) header_ops \<Rightarrow> 'm \<Rightarrow> string list" where
  "cookies H hdrs =
     concat (map (\<lambda>k. if is_cookie k then ok_texts H (hm_get_all H hdrs k) else []) (hm_keys H hdrs))"

definition terminated :: "string list \<Rightarrow> string" where
  "terminated ls = concat (map (\<lambda>l. l @ [newline]) ls)"

lemma ok_texts_simps [simp]:
  "ok_texts H [] = []"
  "ok_texts H (v # vs) = (case hv_to_str H v of Some s \<Rightarrow> s # ok_texts H vs | None \<Rightarrow> ok_texts H vs)"
  by (simp_all add: ok_texts_def map_filter_simps split: option.split)

lemma all_ok_ok_texts: "header_map_get_all_ok_to_string H m k = ok_texts H (hm_get_all H m k)"
  by (simp add: ok_texts_def header_map_get_all_ok_to_string_def)

lemma terminated_append [simp]: "terminated (a @ b) = terminated a @ terminated b" "terminated [] = []"
  by (simp_all add: terminated_def)

lemma add_header_values:
  "foldl (add_header_value H k) (hs, cs) vs =
   (if is_cookie k then (hs, cs @ ok_texts H vs)
    else (hs @ terminated (map (\<lambda>s. k @ '':'' @ s) (ok_texts H vs)), cs))"
  by (induction vs arbitrary: hs cs)
    (auto simp: add_header_value_def is_cookie_def terminated_def split: option.splits)

lemma add_all_headers:
  "foldl (\<lambda>st k. foldl (add_header_value H k) st (hm_get_all H hdrs k)) (hs, cs) ks =
   (hs @ terminated (concat (map (\<lambda>k. if is_cookie k then []
           else map (\<lambda>s. k @ '':'' @ s) (ok_texts H (hm_get_all H hdrs k))) ks)),
    cs @ concat (map (\<lambda>k. if is_cookie k then ok_texts H (hm_get_all H hdrs k) else []) ks))"
  by (induction ks arbitrary: hs cs) (simp_all add: add_header_values)

lemma build_header_str_lines:
  "build_header_str H hdrs =
   terminated (header_lines H hdrs @
     (if cookies H hdrs = [] then [] else [''cookie:'' @ join ''; '' (cookies H hdrs)]))"
  by (simp add: build_header_str_def add_all_headers header_lines_def [symmetric] cookies_def [symmetric])
    (simp add: terminated_def)

lemma split_terminated:
  "\<forall>l \<in> set ls. newline \<notin> set l \<Longrightarrow> split_on newline (terminated ls @ t) = ls @ split_on newline t"
  by (induction ls) (simp_all add: terminated_def split_on_append)

lemma newline_not_visible: "list_all visible s \<Longrightarrow> newline \<notin> set s"
  by (auto simp: list_all_iff visible_def code_def)

lemma newline_join: "newline \<notin> set sep \<Longrightarrow> \<forall>x \<in> set xs. newline \<notin> set x \<Longrightarrow> newline \<notin> set (join sep xs)"
  by (induction sep xs rule: join.induct) auto

lemma newline_marker: "newline \<notin> set (end_marker_as_str mk)"
  by (cases mk) simp_all

lemma concat_map_single:
  "distinct ks \<Longrightarrow> concat (map (\<lambda>k. if k = a then f k else []) ks) = (if a \<in> set ks then f a else [])"
  by (induction ks) auto

context header_map
begin

lemma ok_texts_no_newline: "s \<in> set (ok_texts H vs) \<Longrightarrow> newline \<notin> set s"
  by (induction vs) (auto split: option.splits dest!: to_str_visible newline_not_visible)

lemma keys_lowercase: "k \<in> set (hm_keys H m) \<Longrightarrow> to_lowercase k = k"
  using iter_lowercase by (auto simp: keys_iter)

lemma cookies_eq: "cookies H m = header_map_get_all_ok_to_string H m ''cookie''"
proof -
  have low: "to_lowercase ''cookie'' = ''cookie''" by code_simp
  have "is_cookie k \<longleftrightarrow> k = ''cookie''" if "k \<in> set (hm_keys H m)" for k
    using keys_lowercase [OF that] low by (simp add: is_cookie_def eq_ignore_ascii_case_def)
  then have "cookies H m = concat (map (\<lambda>k. if k = ''cookie'' then ok_texts H (hm_get_all H m k) else []) (hm_keys H m))"
    unfolding cookies_def by (intro arg_cong [of _ _ concat] map_cong refl) simp
  also have "\<dots> = (if ''cookie'' \<in> set (hm_keys H m) then ok_texts H (hm_get_all H m ''cookie'') else [])"
    by (rule concat_map_single [OF keys_distinct])
  also have "\<dots> = ok_texts H (hm_get_all H m ''cookie'')"
    using contains_key_keys [of m "''cookie''"] by (auto simp: low hm_contains_key_def)
  finally show ?thesis by (simp add: ok_texts_def header_map_get_all_ok_to_string_def)
qed

lemma header_lines_no_newline:
  "\<forall>k \<in> set (hm_keys H m). newline \<notin> set k \<Longrightarrow> l \<in> set (header_lines H m) \<Longrightarrow> newline \<notin> set l"
  by (auto simp: header_lines_def split: if_splits dest: ok_texts_no_newline)

lemma cookies_no_newline: "newline \<notin> set (''cookie:'' @ join ''; '' (cookies H m))"
proof -
  have "\<forall>x \<in> set (cookies H m). newline \<notin> set x"
    by (auto simp: cookies_def split: if_splits dest: ok_texts_no_newline)
  then show ?thesis using newline_join [of "''; ''" "cookies H m"] by simp
qed

lemma build_header_str_split:
  assumes "\<forall>k \<in> set (hm_keys H m). newline \<notin> set k"
  shows "split_on newline (build_header_str H m @ t) =
    header_lines H m @ (if cookies H m = [] then [] else [''cookie:'' @ join ''; '' (cookies H m)]) @ split_on newline t"
proof -
  have "\<forall>l \<in> set (header_lines H m @
     (if cookies H m = [] then [] else [''cookie:'' @ join ''; '' (cookies H m)])). newline \<notin> set l"
    using header_lines_no_newline [OF assms] cookies_no_newline by simp
  from split_terminated [OF this] show ?thesis
    unfolding build_header_str_lines by (simp only: append_assoc)
qed

end

text \<open>The first colon of a header line.\<close>

lemma split_colon_app: "CHR '':'' \<notin> set k \<Longrightarrow> split_colon (k @ '':'' @ v) = Some (k, v)"
  by (induction k) auto

lemma split_colon_None: "split_colon s = None \<longleftrightarrow> CHR '':'' \<notin> set s"
  by (induction s) auto

definition not_sent_back :: "string set" where
  "not_sent_back = HOP_BY_HOP_HEADERS \<union> RESPONSE_HEADERS_TO_NOT_SEND_BACK"

text \<open>
  A header a connector may send: a name the builder accepts, without colon or blanks around it,
  and a visible value without blanks around it.
\<close>

definition sendable :: "(string \<Rightarrow> bool) \<Rightarrow> string \<times> string \<Rightarrow> bool" where
  "sendable valid_name kv \<longleftrightarrow>
     (case kv of (k, v) \<Rightarrow> valid_name k \<and> CHR '':'' \<notin> set k \<and> newline \<notin> set k \<and> trim k = k \<and>
        list_all visible v \<and> trim v = v)"

definition header_line :: "string \<times> string \<Rightarrow> string" where
  "header_line kv = fst kv @ '':'' @ snd kv"

lemma header_line_plain: "sendable valid_name kv \<Longrightarrow> newline \<notin> set (header_line kv) \<and> header_line kv \<noteq> []"
  by (auto simp: sendable_def header_line_def dest: newline_not_visible)

lemma response_loop_error:
  "(\<exists>e. response_header_loop H valid_name failed ls res = Inl e) \<longleftrightarrow> (\<exists>l \<in> set ls. CHR '':'' \<notin> set l)"
  by (induction H valid_name failed ls res rule: response_header_loop.induct)
    (auto simp: Let_def split_colon_None [symmetric] split: option.splits)

context header_map
begin

lemma parse_reads:
  assumes "list_all visible s"
  obtains v where "hv_parse H s = Some v" "hv_to_str H v = Some s"
  using parse_visible [OF assms] to_str_parse assms by blast

lemma response_loop_headers:
  assumes "\<forall>kv \<in> set hs. sendable valid_name kv"
  shows "\<exists>m'. response_header_loop H valid_name failed (map header_line hs) (Some (st, m)) = Inr (Some (st, m')) \<and>
    (\<forall>k. map (hv_to_str H) (hm_get_all H m' k) = map (hv_to_str H) (hm_get_all H m k) @
       (if to_lowercase k \<in> not_sent_back then []
        else map (\<lambda>(_, v). Some v) (filter (\<lambda>(k', _). to_lowercase k' = to_lowercase k) hs)))"
  using assms
proof (induction hs arbitrary: m)
  case (Cons kv hs)
  obtain k v where kv: "kv = (k, v)" by (cases kv)
  with Cons.prems have ok: "valid_name k" "CHR '':'' \<notin> set k" "trim k = k" "list_all visible v" "trim v = v"
    by (auto simp: sendable_def)
  obtain x where x: "hv_parse H v = Some x" "hv_to_str H x = Some v"
    by (rule parse_reads [OF ok(4)])
  let ?m = "if to_lowercase k \<in> not_sent_back then m else hm_append H m k x"
  have step: "response_header_loop H valid_name failed (map header_line (kv # hs)) (Some (st, m)) =
      response_header_loop H valid_name failed (map header_line hs) (Some (st, ?m))"
    using ok x split_colon_app [OF ok(2), of v]
    by (simp add: kv header_line_def builder_header_def not_sent_back_def Let_def)
  from Cons.IH [of ?m] Cons.prems obtain m' where m':
    "response_header_loop H valid_name failed (map header_line hs) (Some (st, ?m)) = Inr (Some (st, m'))"
    "\<And>k. map (hv_to_str H) (hm_get_all H m' k) = map (hv_to_str H) (hm_get_all H ?m k) @
       (if to_lowercase k \<in> not_sent_back then []
        else map (\<lambda>(_, v). Some v) (filter (\<lambda>(k', _). to_lowercase k' = to_lowercase k) hs))"
    by auto
  have "map (hv_to_str H) (hm_get_all H m' k') = map (hv_to_str H) (hm_get_all H m k') @
       (if to_lowercase k' \<in> not_sent_back then []
        else map (\<lambda>(_, v). Some v) (filter (\<lambda>(k'', _). to_lowercase k'' = to_lowercase k') (kv # hs)))" for k'
    unfolding m'(2) using x by (auto simp: kv get_all_append)
  with step m'(1) show ?case by auto
qed simp

lemma response_loop_no_connection:
  assumes "response_header_loop H valid_name failed ls res = Inr (Some (st, m'))"
    and "\<And>st m. res = Some (st, m) \<Longrightarrow> hm_get_all H m ''connection'' = []"
  shows "hm_get_all H m' ''connection'' = []"
  using assms
proof (induction ls arbitrary: res)
  case (Cons l ls)
  have low: "to_lowercase ''connection'' = ''connection''" by code_simp
  from Cons.prems(1) obtain a b where ab: "split_colon l = Some (a, b)"
    by (auto split: option.splits)
  let ?r = "if to_lowercase (trim a) \<notin> HOP_BY_HOP_HEADERS \<and> to_lowercase (trim a) \<notin> RESPONSE_HEADERS_TO_NOT_SEND_BACK
            then builder_header H valid_name res (trim a) (trim b) else res"
  have "hm_get_all H m ''connection'' = []" if "?r = Some (s, m)" for s m
    using that Cons.prems(2)
    by (auto simp: builder_header_def get_all_append low HOP_BY_HOP_HEADERS_def split: if_splits option.splits prod.splits)
  moreover from Cons.prems(1) ab have "response_header_loop H valid_name failed ls ?r = Inr (Some (st, m'))"
    by (simp add: Let_def)
  ultimately show ?case using Cons.IH by blast
qed simp

lemma response_build_loop:
  assumes "iter {} = []"
  shows "response_build H valid_status valid_name dbg iter resp =
    response_header_loop H valid_name
      (crex_new (''failed to parse protocol response, header seems corrupted: '' @ dbg (cr_headers resp)))
      (cr_headers resp) (builder_status H valid_status (cr_status resp))"
proof -
  let ?loop = "response_header_loop H valid_name
      (crex_new (''failed to parse protocol response, header seems corrupted: '' @ dbg (cr_headers resp)))
      (cr_headers resp) (builder_status H valid_status (cr_status resp))"
  have "hm_get_all H m ''connection'' = []" if "?loop = Inr (Some (st, m))" for st m
    by (rule response_loop_no_connection [OF that])
      (auto simp: builder_status_def get_all_new split: if_splits)
  then show ?thesis
    using assms
    by (cases ?loop) (auto simp: response_build_def Let_def hm_get_def get_custom_hop_by_hop_headers_def
        split: option.splits prod.splits)
qed

end

section \<open>Properties\<close>

text \<open>
  Claim C30: a request with a line, headers and a marker is built, and reading its lines gives the
  request line, a line for every value of every header, one line that combines all cookies, an
  empty line and the marker.
\<close>

theorem request_build_lines:
  assumes "header_map H" and "newline \<notin> set line" and "\<forall>k \<in> set (hm_keys H hdrs). newline \<notin> set k"
  shows "\<exists>s. request_build (with_request_headers H (with_request_line b line) hdrs \<lparr>rb_end_marker := Some mk\<rparr>) = Inr s \<and>
    split_on newline s = [line] @
      concat (map (\<lambda>k. if is_cookie k then []
        else map (\<lambda>t. k @ '':'' @ t) (header_map_get_all_ok_to_string H hdrs k)) (hm_keys H hdrs)) @
      (let cs = header_map_get_all_ok_to_string H hdrs ''cookie''
       in if cs = [] then [] else [''cookie:'' @ join ''; '' cs]) @ [[], end_marker_as_str mk]"
proof -
  have lines: "split_on newline (build_req_and_hdr line (build_header_str H hdrs) mk) =
    [line] @ header_lines H hdrs @
      (if cookies H hdrs = [] then [] else [''cookie:'' @ join ''; '' (cookies H hdrs)]) @ [[], end_marker_as_str mk]"
    using newline_marker [of mk]
    by (simp add: build_req_and_hdr_def split_on_append [OF assms(2)]
        header_map.build_header_str_split [OF assms(1,3)] split_on_none)
  show ?thesis
    using lines header_map.cookies_eq [OF assms(1), of hdrs]
    unfolding all_ok_ok_texts
    by (simp add: request_build_def with_request_headers_def with_request_line_def header_lines_def Let_def)
qed

theorem request_build_lines_witness:
  "\<exists>s. request_build (with_request_headers lhm (with_request_line request_builder_new ''GET / HTTP/1.1'')
       [(''Cookie'', ''a=1''), (''Accept'', ''x''), (''cookie'', ''b=2'')] \<lparr>rb_end_marker := Some RequestHasNoBody\<rparr>) = Inr s \<and>
     split_on newline s = [''GET / HTTP/1.1'', ''accept:x'', ''cookie:a=1; b=2'', [], ''_2'']"
proof -
  let ?h = "[(''Cookie'', ''a=1''), (''Accept'', ''x''), (''cookie'', ''b=2'')]"
  have keys: "hm_keys lhm ?h = [''accept'', ''cookie'']" by code_simp
  have "newline \<notin> set ''GET / HTTP/1.1''" "\<forall>k \<in> set (hm_keys lhm ?h). newline \<notin> set k"
    by (simp_all add: keys)
  note built = request_build_lines [OF header_map_lhm this, where b = request_builder_new and mk = RequestHasNoBody]
  have "header_map_get_all_ok_to_string lhm ?h ''cookie'' = [''a=1'', ''b=2'']"
    "header_map_get_all_ok_to_string lhm ?h ''accept'' = [''x'']"
    "is_cookie ''cookie''" "\<not> is_cookie ''accept''" "join ''; '' [''a=1'', ''b=2''] = ''a=1; b=2''"
    by code_simp+
  with built show ?thesis by (simp add: keys)
qed

text \<open>
  Without an end marker nothing is built and the error says so; with a marker but
  without request line or headers only the marker that ends a body is built.
\<close>

lemma request_build_incomplete:
  "(case rb_end_marker b of
      None \<Rightarrow> \<exists>e. request_build b = Inl e \<and> opt_err_kind e = Some CrankerProtocolEndMarkerMissing_0005
    | Some mk \<Rightarrow>
        rb_request_line b \<noteq> None \<and> rb_header_map_str b \<noteq> None \<or>
        (if mk = RequestBodyEnded then request_build b = Inr ''_3'' else \<exists>e. request_build b = Inl e))"
  by (cases "rb_end_marker b"; cases "rb_request_line b"; cases "rb_header_map_str b";
      cases "the (rb_end_marker b)") (simp_all add: request_build_def)

text \<open>
  A response text with a status line and header lines is read back: the status, and for
  every header name the values sent under it, in order; except that hop-by-hop headers and the
  server's name are not passed to the client.
\<close>

lemma response_roundtrip:
  assumes "header_map H" and "iter {} = []" and "valid_status st" and "st < 65536"
    and "newline \<notin> set phrase" and "\<forall>kv \<in> set hs. sendable valid_name kv"
  shows "\<exists>resp m. try_from_string dbg_pie
      (join [newline] ((''HTTP/1.1 '' @ show_nat st @ '' '' @ phrase) # map header_line hs)) = Inr resp \<and>
    response_build H valid_status valid_name dbg_lines iter resp = Inr (Some (st, m)) \<and>
    (\<forall>k. map (hv_to_str H) (hm_get_all H m k) =
       (if to_lowercase k \<in> not_sent_back then []
        else map (\<lambda>(_, v). Some v) (filter (\<lambda>(k', _). to_lowercase k' = to_lowercase k) hs)))"
proof -
  let ?line = "''HTTP/1.1 '' @ show_nat st @ '' '' @ phrase"
  have nl: "newline \<notin> set (show_nat st)" "CHR '' '' \<notin> set (show_nat st)"
    using is_digit_show [of newline st] is_digit_show [of "CHR '' ''" st] by (auto simp: is_digit_def code_def)
  have lines: "split_on newline (join [newline] (?line # map header_line hs)) = ?line # map header_line hs"
    using assms(5,6) header_line_plain nl by (intro split_on_join) auto
  have bits: "split_on CHR '' '' ?line = [''HTTP/1.1'', show_nat st] @ split_on CHR '' '' phrase"
    using split_on_append [of "CHR '' ''" "''HTTP/1.1''" "show_nat st @ '' '' @ phrase"]
      split_on_append [OF nl(2), of phrase] by simp
  have "filter (\<lambda>s. s \<noteq> []) (map header_line hs) = map header_line hs"
    using assms(6) header_line_plain by (auto simp: filter_id_conv)
  then have resp: "try_from_string dbg_pie (join [newline] (?line # map header_line hs)) =
      Inr \<lparr>cr_headers = map header_line hs, cr_status = st\<rparr>"
    by (simp only: try_from_string_def lines Let_def nth_Cons_0 bits)
      (simp add: u16_from_show [OF assms(4)])
  let ?failed = "crex_new (''failed to parse protocol response, header seems corrupted: '' @ dbg_lines (map header_line hs))"
  obtain m where m: "response_header_loop H valid_name ?failed (map header_line hs) (Some (st, hm_new H)) = Inr (Some (st, m))"
    "\<forall>k. map (hv_to_str H) (hm_get_all H m k) =
       (if to_lowercase k \<in> not_sent_back then []
        else map (\<lambda>(_, v). Some v) (filter (\<lambda>(k', _). to_lowercase k' = to_lowercase k) hs))"
    using header_map.response_loop_headers [OF assms(1,6), of ?failed st "hm_new H"]
    unfolding header_map.get_all_new [OF assms(1)] list.map append_Nil by blast
  have "response_build H valid_status valid_name dbg_lines iter \<lparr>cr_headers = map header_line hs, cr_status = st\<rparr> = Inr (Some (st, m))"
    unfolding header_map.response_build_loop [where iter = iter, OF assms(1,2)] cranker_response.simps
      builder_status_def if_P [OF assms(3)] by (rule m(1))
  with resp m(2) show ?thesis by (intro exI conjI)
qed

text \<open>
  Reading a response fails with the missing-status kind exactly when its first line has
  no blank, and never with the kind for a missing header line, which no text can cause; building
  it fails exactly when a header line has no colon.
\<close>

lemma response_errors:
  "(\<exists>e. try_from_string dbg_pie msg = Inl e \<and> opt_err_kind e = Some CrankerProtocolHttpStatusCodeMissing_0007) =
     (CHR '' '' \<notin> set (takeWhile (\<lambda>c. c \<noteq> newline) msg)) \<and>
   \<not> (\<exists>e. try_from_string dbg_pie msg = Inl e \<and> opt_err_kind e = Some CrankerProtocolZeroLengthHeaderLine_0006) \<and>
   (\<exists>e. response_build H valid_status valid_name dbg_lines iter resp = Inl e) =
     (\<exists>l \<in> set (cr_headers resp). CHR '':'' \<notin> set l)"
proof (intro conjI)
  obtain l ls where ls: "split_on newline msg = l # ls"
    by (rule split_on_cases)
  then have l: "l = takeWhile (\<lambda>c. c \<noteq> newline) msg"
    using hd_split_on [of newline msg] by simp
  have bits: "length (split_on CHR '' '' l) < 2 \<longleftrightarrow> CHR '' '' \<notin> set l"
    by (rule split_on_short)
  show "(\<exists>e. try_from_string dbg_pie msg = Inl e \<and> opt_err_kind e = Some CrankerProtocolHttpStatusCodeMissing_0007) =
     (CHR '' '' \<notin> set (takeWhile (\<lambda>c. c \<noteq> newline) msg))"
    unfolding try_from_string_def ls Let_def l [symmetric] bits [symmetric] nth_Cons_0
    by (simp split: option.split)
  show "\<not> (\<exists>e. try_from_string dbg_pie msg = Inl e \<and> opt_err_kind e = Some CrankerProtocolZeroLengthHeaderLine_0006)"
    unfolding try_from_string_def ls Let_def by (simp split: option.split)
  show "(\<exists>e. response_build H valid_status valid_name dbg_lines iter resp = Inl e) =
     (\<exists>l \<in> set (cr_headers resp). CHR '':'' \<notin> set l)"
    unfolding response_loop_error [of H valid_name
        "crex_new (''failed to parse protocol response, header seems corrupted: '' @ dbg_lines (cr_headers resp))"
        "cr_headers resp" "builder_status H valid_status (cr_status resp)", symmetric]
    by (auto simp: response_build_def Let_def split: sum.splits option.splits)
qed

end
