(* ===== verification/Request_Context.thy ===== *)
theory Request_Context
  imports Channels Http_Utils
begin

text \<open>
  The per-request state of a multiplexed socket and its flow control
  (\<^verbatim>\<open>RequestContext\<close> of \<^verbatim>\<open>src/src/router_socket_v3.rs\<close>). The atomics are 32 and 64 bit words that wrap.
  A callback of the queue \<^verbatim>\<open>should_keep_read_from_cli\<close> is a number; \<open>fired\<close> collects the callbacks
  whose flag was set and whose waiter was notified.
\<close>

section \<open>The context\<close>

definition WATER_MARK_HIGH :: int where "WATER_MARK_HIGH = 64 * 1024"
definition WATER_MARK_LOW :: int where "WATER_MARK_LOW = 16 * 1024"

datatype stream_state = Open | HalfClose | Closed | StreamError

fun is_completed :: "stream_state \<Rightarrow> bool" where
  "is_completed Open = False"
| "is_completed HalfClose = False"
| "is_completed Closed = True"
| "is_completed StreamError = True"

record ctx =
  wss_tgt_connector_ack_bytes :: i32
  wss_rtr_to_tgt_pending_ack_bytes :: i32
  is_wss_writable :: bool
  is_wss_writing :: bool
  should_keep_read_from_cli :: "nat res chan"
  fired :: "nat list"
  next_cb :: nat
  wss_on_binary_call_count :: i64
  request_id :: i32
  req_method :: string
  req_uri :: orig_uri
  req_start_time :: i64
  tgt_res_hdr :: "string res chan"
  tgt_res_bdy :: "bytes res chan"
  from_client_bytes :: i64
  to_client_bytes :: i64
  duration_millis :: i64
  ctx_error :: "crex option"
  is_rst_stream_sent :: bool
  ctx_state :: stream_state
  header_line_builder :: string
  is_tgt_can_send_res_now :: bool
  is_end_stream_received_from_tgt :: bool

definition ctx_new :: "i64 \<Rightarrow> i32 \<Rightarrow> string \<Rightarrow> orig_uri \<Rightarrow> ctx" where
  "ctx_new now req_id meth uri =
     \<lparr>wss_tgt_connector_ack_bytes = 0, wss_rtr_to_tgt_pending_ack_bytes = 0,
      is_wss_writable = True, is_wss_writing = False,
      should_keep_read_from_cli = chan_new, fired = [], next_cb = 0,
      wss_on_binary_call_count = 0,
      request_id = req_id, req_method = meth, req_uri = uri, req_start_time = now,
      tgt_res_hdr = chan_new, tgt_res_bdy = chan_new,
      from_client_bytes = 0, to_client_bytes = 0, duration_millis = 0,
      ctx_error = None, is_rst_stream_sent = False, ctx_state = Open, header_line_builder = [],
      is_tgt_can_send_res_now = False, is_end_stream_received_from_tgt = False\<rparr>"

section \<open>Flow control\<close>

definition inc_rtr_to_tgt_pending_ack_bytes :: "i32 \<Rightarrow> ctx \<Rightarrow> ctx" where
  "inc_rtr_to_tgt_pending_ack_bytes pending c =
     (let c1 = c\<lparr>wss_rtr_to_tgt_pending_ack_bytes := wss_rtr_to_tgt_pending_ack_bytes c + pending\<rparr>
      in if sint (wss_rtr_to_tgt_pending_ack_bytes c1) > WATER_MARK_HIGH
         then c1\<lparr>is_wss_writable := False\<rparr> else c1)"

text \<open>The test before and inside the loop of \<^verbatim>\<open>write_it_maybe\<close>.\<close>

definition may_write :: "ctx \<Rightarrow> bool" where
  "may_write c \<longleftrightarrow> is_wss_writable c \<and> \<not> chan_is_empty (should_keep_read_from_cli c) \<and>
     \<not> chan_closed (should_keep_read_from_cli c) \<and> \<not> chan_is_terminated (should_keep_read_from_cli c)"

function write_loop :: "ctx \<Rightarrow> ctx" where
  "write_loop c =
     (if may_write c
      then (case chan_try_recv (should_keep_read_from_cli c) of
              None \<Rightarrow> c
            | Some (Inr cb, q) \<Rightarrow>
                write_loop (c\<lparr>should_keep_read_from_cli := q, fired := fired c @ [cb]\<rparr>)
            | Some (Inl err, q) \<Rightarrow> c\<lparr>should_keep_read_from_cli := q\<rparr>)
      else c)"
  by pat_completeness auto
termination
  by (relation "measure (\<lambda>c. length (chan_items (should_keep_read_from_cli c)))")
    (auto simp: chan_try_recv_def split: list.splits)

declare write_loop.simps [simp del]

lemma write_loop_shorter:
  "length (chan_items (should_keep_read_from_cli (write_loop c))) \<le> length (chan_items (should_keep_read_from_cli c))"
proof (induction c rule: write_loop.induct)
  case (1 c)
  show ?case
  proof (cases "may_write c \<and> (\<exists>cb q. chan_try_recv (should_keep_read_from_cli c) = Some (Inr cb, q))")
    case True
    then obtain cb q where q: "may_write c" "chan_try_recv (should_keep_read_from_cli c) = Some (Inr cb, q)"
      by blast
    have "length (chan_items q) \<le> length (chan_items (should_keep_read_from_cli c))"
      using chan.recv_Some [OF q(2)] by simp
    with "1.IH" [OF q(1) q(2) refl refl] q show ?thesis
      by (subst write_loop.simps) simp
  next
    case False
    then show ?thesis
      by (subst write_loop.simps) (auto simp: chan_try_recv_def split: option.splits sum.splits list.splits)
  qed
qed

lemma write_loop_progress:
  assumes "may_write c"
  shows "length (chan_items (should_keep_read_from_cli (write_loop c))) < length (chan_items (should_keep_read_from_cli c))"
proof -
  from assms obtain x xs where items: "chan_items (should_keep_read_from_cli c) = x # xs"
    by (cases "chan_items (should_keep_read_from_cli c)") (auto simp: may_write_def chan_is_empty_def)
  show ?thesis
  proof (cases x)
    case (Inr cb)
    with assms items show ?thesis
      using write_loop_shorter [of "c\<lparr>should_keep_read_from_cli := should_keep_read_from_cli c\<lparr>chan_items := xs\<rparr>, fired := fired c @ [cb]\<rparr>"]
      by (subst write_loop.simps) (simp add: chan_try_recv_def)
  next
    case (Inl e)
    with assms items show ?thesis
      by (subst write_loop.simps) (simp add: chan_try_recv_def)
  qed
qed

function write_it_maybe :: "ctx \<Rightarrow> ctx" where
  "write_it_maybe c =
     (if may_write c \<and> \<not> is_wss_writing c
      then write_it_maybe ((write_loop (c\<lparr>is_wss_writing := True\<rparr>))\<lparr>is_wss_writing := False\<rparr>)
      else c)"
  by pat_completeness auto
termination
proof (relation "measure (\<lambda>c. length (chan_items (should_keep_read_from_cli c)))", goal_cases)
  case (2 c)
  then have "may_write (c\<lparr>is_wss_writing := True\<rparr>)" by (simp add: may_write_def)
  from write_loop_progress [OF this] show ?case by simp
qed simp

declare write_it_maybe.simps [simp del]

definition target_connector_ack_bytes :: "i32 \<Rightarrow> ctx \<Rightarrow> ctx" where
  "target_connector_ack_bytes ack c =
     (let c1 = c\<lparr>wss_tgt_connector_ack_bytes := wss_tgt_connector_ack_bytes c + ack,
                 wss_rtr_to_tgt_pending_ack_bytes := wss_rtr_to_tgt_pending_ack_bytes c + (- ack)\<rparr>
      in if sint (wss_rtr_to_tgt_pending_ack_bytes c1) < WATER_MARK_LOW \<and> \<not> is_wss_writable c1
         then write_it_maybe (c1\<lparr>is_wss_writable := True\<rparr>)
         else c1)"

text \<open>Registering a callback: a fresh flag with its notifier is sent to the queue.\<close>

definition register_callback :: "ctx \<Rightarrow> ctx \<times> nat option" where
  "register_callback c =
     (case chan_send (should_keep_read_from_cli c) (Inr (next_cb c)) of
        (q, True) \<Rightarrow> (c\<lparr>should_keep_read_from_cli := q, next_cb := Suc (next_cb c)\<rparr>, Some (next_cb c))
      | (q, False) \<Rightarrow> (c, None))"

section \<open>Reader and acknowledger interleaved\<close>

text \<open>
  The task that reads the client's body and the task that handles window updates touch the same
  context. Between any two of their atomic accesses the other may run, so each access is a step:
  the reader adds a chunk to the pending count, loads the count, clears the writable flag, sends,
  checks the flag, and when it is clear registers a callback, calls \<^verbatim>\<open>write_it_maybe\<close> and waits; the
  acknowledger subtracts, loads, sets the flag, and when it set it calls \<^verbatim>\<open>write_it_maybe\<close>.
  \<open>unacked\<close> counts the bytes the connector was sent and has not acknowledged; it never
  acknowledges more.
\<close>

datatype reader = Reading | Added i32 | SawHigh i32 | Counted i32 | Sent | Blocked | MustWrite nat | Waiting nat

datatype acker = Idle | Acked | SawLow | Unblocked

record flow =
  fl_ctx :: ctx
  fl_reader :: reader
  fl_acker :: acker
  unacked :: int

definition add_pending :: "i32 \<Rightarrow> ctx \<Rightarrow> ctx" where
  "add_pending p c = c\<lparr>wss_rtr_to_tgt_pending_ack_bytes := wss_rtr_to_tgt_pending_ack_bytes c + p\<rparr>"

definition ack_sub :: "i32 \<Rightarrow> ctx \<Rightarrow> ctx" where
  "ack_sub a c = c\<lparr>wss_tgt_connector_ack_bytes := wss_tgt_connector_ack_bytes c + a,
     wss_rtr_to_tgt_pending_ack_bytes := wss_rtr_to_tgt_pending_ack_bytes c + (- a)\<rparr>"

abbreviation pending :: "ctx \<Rightarrow> int" where
  "pending c \<equiv> sint (wss_rtr_to_tgt_pending_ack_bytes c)"

inductive flow_step :: "int \<Rightarrow> flow \<Rightarrow> flow \<Rightarrow> bool" for P where
  r_add: "fl_reader s = Reading \<Longrightarrow> 0 < sint p \<Longrightarrow> sint p \<le> P \<Longrightarrow>
    flow_step P s (s\<lparr>fl_ctx := add_pending p (fl_ctx s), fl_reader := Added p\<rparr>)"
| r_load: "fl_reader s = Added p \<Longrightarrow>
    flow_step P s (s\<lparr>fl_reader := (if pending (fl_ctx s) > WATER_MARK_HIGH then SawHigh p else Counted p)\<rparr>)"
| r_cas: "fl_reader s = SawHigh p \<Longrightarrow>
    flow_step P s (s\<lparr>fl_ctx := (fl_ctx s)\<lparr>is_wss_writable := False\<rparr>, fl_reader := Counted p\<rparr>)"
| r_send: "fl_reader s = Counted p \<Longrightarrow>
    flow_step P s (s\<lparr>fl_reader := Sent, unacked := unacked s + sint p\<rparr>)"
| r_check: "fl_reader s = Sent \<Longrightarrow>
    flow_step P s (s\<lparr>fl_reader := (if is_wss_writable (fl_ctx s) then Reading else Blocked)\<rparr>)"
| r_register: "fl_reader s = Blocked \<Longrightarrow> register_callback (fl_ctx s) = (c, Some cb) \<Longrightarrow>
    flow_step P s (s\<lparr>fl_ctx := c, fl_reader := MustWrite cb\<rparr>)"
| r_write: "fl_reader s = MustWrite cb \<Longrightarrow>
    flow_step P s (s\<lparr>fl_ctx := write_it_maybe (fl_ctx s), fl_reader := Waiting cb\<rparr>)"
| r_wake: "fl_reader s = Waiting cb \<Longrightarrow> cb \<in> set (fired (fl_ctx s)) \<Longrightarrow>
    flow_step P s (s\<lparr>fl_reader := Reading\<rparr>)"
| a_sub: "fl_acker s = Idle \<Longrightarrow> 0 < sint a \<Longrightarrow> sint a \<le> unacked s \<Longrightarrow>
    flow_step P s (s\<lparr>fl_ctx := ack_sub a (fl_ctx s), fl_acker := Acked, unacked := unacked s - sint a\<rparr>)"
| a_load: "fl_acker s = Acked \<Longrightarrow>
    flow_step P s (s\<lparr>fl_acker := (if pending (fl_ctx s) < WATER_MARK_LOW then SawLow else Idle)\<rparr>)"
| a_cas: "fl_acker s = SawLow \<Longrightarrow>
    flow_step P s (s\<lparr>fl_ctx := (fl_ctx s)\<lparr>is_wss_writable := True\<rparr>,
      fl_acker := (if is_wss_writable (fl_ctx s) then Idle else Unblocked)\<rparr>)"
| a_write: "fl_acker s = Unblocked \<Longrightarrow>
    flow_step P s (s\<lparr>fl_ctx := write_it_maybe (fl_ctx s), fl_acker := Idle\<rparr>)"

text \<open>The request head, of \<open>h\<close> bytes, has been sent when the reader starts.\<close>

definition flow_init :: "ctx \<Rightarrow> i32 \<Rightarrow> flow" where
  "flow_init c h = \<lparr>fl_ctx = add_pending h c, fl_reader = Reading, fl_acker = Idle, unacked = sint h\<rparr>"

section \<open>Lemmas\<close>

fun oks :: "'a res list \<Rightarrow> 'a list" where
  "oks [] = []"
| "oks (Inr x # xs) = x # oks xs"
| "oks (Inl e # xs) = oks xs"

lemma oks_append [simp]: "oks (xs @ ys) = oks xs @ oks ys"
  by (induction xs rule: oks.induct) auto

fun after_err :: "'a res list \<Rightarrow> 'a list \<times> 'a res list" where
  "after_err [] = ([], [])"
| "after_err (Inr x # xs) = (case after_err xs of (a, b) \<Rightarrow> (x # a, b))"
| "after_err (Inl e # xs) = ([], xs)"

lemma write_loop_spec:
  assumes "is_wss_writable c" "\<not> chan_closed (should_keep_read_from_cli c)"
  shows "write_loop c = c\<lparr>
    should_keep_read_from_cli := (should_keep_read_from_cli c)
      \<lparr>chan_items := snd (after_err (chan_items (should_keep_read_from_cli c)))\<rparr>,
    fired := fired c @ fst (after_err (chan_items (should_keep_read_from_cli c)))\<rparr>"
  using assms
proof (induction "chan_items (should_keep_read_from_cli c)" arbitrary: c rule: after_err.induct)
  case 1
  then show ?case
    by (subst write_loop.simps) (simp add: may_write_def chan_is_empty_def)
next
  case (2 x xs)
  let ?c = "c\<lparr>should_keep_read_from_cli := (should_keep_read_from_cli c)\<lparr>chan_items := xs\<rparr>, fired := fired c @ [x]\<rparr>"
  from "2.hyps"(2) "2.prems" have "write_loop c = write_loop ?c"
    by (subst write_loop.simps) (auto simp: may_write_def chan_is_empty_def chan_is_terminated_def chan_try_recv_def split: list.splits)
  moreover have "write_loop ?c = ?c\<lparr>
    should_keep_read_from_cli := (should_keep_read_from_cli ?c)\<lparr>chan_items := snd (after_err xs)\<rparr>,
    fired := fired ?c @ fst (after_err xs)\<rparr>"
    using "2.hyps"(1) [of ?c] "2.prems" by simp
  ultimately show ?case
    using "2.hyps"(2) [symmetric] by (simp add: case_prod_beta)
next
  case (3 e xs)
  show ?case
    using "3.hyps" [symmetric] "3.prems"
    by (subst write_loop.simps)
      (simp add: may_write_def chan_is_empty_def chan_is_terminated_def chan_try_recv_def)
qed

lemma after_err_oks: "fst (after_err xs) @ oks (snd (after_err xs)) = oks xs"
  by (induction xs rule: after_err.induct) (auto simp: case_prod_beta)

lemma write_it_maybe_spec:
  "write_it_maybe c =
   (if is_wss_writable c \<and> \<not> chan_closed (should_keep_read_from_cli c) \<and> \<not> is_wss_writing c
    then c\<lparr>should_keep_read_from_cli := (should_keep_read_from_cli c)\<lparr>chan_items := []\<rparr>,
           fired := fired c @ oks (chan_items (should_keep_read_from_cli c))\<rparr>
    else c)"
proof (induction c rule: write_it_maybe.induct)
  case (1 c)
  show ?case
  proof (cases "may_write c \<and> \<not> is_wss_writing c")
    case True
    then have c: "is_wss_writable c" "\<not> chan_closed (should_keep_read_from_cli c)"
      by (simp_all add: may_write_def)
    let ?c = "(write_loop (c\<lparr>is_wss_writing := True\<rparr>))\<lparr>is_wss_writing := False\<rparr>"
    have eq: "?c = c\<lparr>
      should_keep_read_from_cli := (should_keep_read_from_cli c)
        \<lparr>chan_items := snd (after_err (chan_items (should_keep_read_from_cli c)))\<rparr>,
      fired := fired c @ fst (after_err (chan_items (should_keep_read_from_cli c)))\<rparr>"
      using c True by (cases c) (simp add: write_loop_spec)
    have "write_it_maybe c = write_it_maybe ?c"
      using True by (subst write_it_maybe.simps) simp
    with "1.IH" [OF True] show ?thesis
      using True c unfolding eq
      by (simp add: after_err_oks)
  next
    case False
    then show ?thesis
      by (subst write_it_maybe.simps; cases c)
        (auto simp: may_write_def chan_is_empty_def chan_is_terminated_def)
  qed
qed

text \<open>Signed 32 bit addition without overflow.\<close>

lemma sint_add_i32:
  "- (2 ^ 31) \<le> sint a + sint b \<Longrightarrow> sint a + sint b < 2 ^ 31 \<Longrightarrow> sint (a + b :: i32) = sint a + sint b"
  by (simp add: sint_word_ariths signed_take_bit_int_eq_self)

lemma sint_neg_i32: "- (2 ^ 31) < sint a \<Longrightarrow> sint (- a :: i32) = - sint a"
  using sint_lt [of a] by (simp add: sint_word_ariths signed_take_bit_int_eq_self)

lemma pending_add_pending:
  "- (2 ^ 31) \<le> pending c + sint p \<Longrightarrow> pending c + sint p < 2 ^ 31 \<Longrightarrow>
   pending (add_pending p c) = pending c + sint p"
  by (simp add: add_pending_def sint_add_i32)

lemma add_pending_simps [simp]:
  "is_wss_writable (add_pending p c) = is_wss_writable c"
  "is_wss_writing (add_pending p c) = is_wss_writing c"
  "should_keep_read_from_cli (add_pending p c) = should_keep_read_from_cli c"
  "fired (add_pending p c) = fired c" "next_cb (add_pending p c) = next_cb c"
  by (simp_all add: add_pending_def)

lemma ack_sub_simps [simp]:
  "is_wss_writable (ack_sub a c) = is_wss_writable c"
  "is_wss_writing (ack_sub a c) = is_wss_writing c"
  "should_keep_read_from_cli (ack_sub a c) = should_keep_read_from_cli c"
  "fired (ack_sub a c) = fired c" "next_cb (ack_sub a c) = next_cb c"
  by (simp_all add: ack_sub_def)

lemma pending_ack_sub:
  "0 < sint a \<Longrightarrow> - (2 ^ 31) \<le> pending c - sint a \<Longrightarrow> pending (ack_sub a c) = pending c - sint a"
  using sint_lt [of "wss_rtr_to_tgt_pending_ack_bytes c"] sint_neg_i32 [of a]
    sint_add_i32 [of "wss_rtr_to_tgt_pending_ack_bytes c" "- a"]
  by (simp add: ack_sub_def)

lemma write_it_maybe_simps [simp]:
  "is_wss_writable (write_it_maybe c) = is_wss_writable c"
  "is_wss_writing (write_it_maybe c) = is_wss_writing c"
  "wss_rtr_to_tgt_pending_ack_bytes (write_it_maybe c) = wss_rtr_to_tgt_pending_ack_bytes c"
  "chan_closed (should_keep_read_from_cli (write_it_maybe c)) = chan_closed (should_keep_read_from_cli c)"
  by (simp_all add: write_it_maybe_spec)

text \<open>Bytes the reader has counted and not yet sent.\<close>

fun unsent :: "reader \<Rightarrow> int" where
  "unsent (Added p) = sint p"
| "unsent (SawHigh p) = sint p"
| "unsent (Counted p) = sint p"
| "unsent _ = 0"

text \<open>
  The accounting invariant: the pending count is what was counted and not acknowledged, nothing
  overflows, and the count exceeds the high mark by at most two chunks, by at most one while the
  socket is writable.
\<close>

definition flow_counts :: "int \<Rightarrow> flow \<Rightarrow> bool" where
  "flow_counts P s \<longleftrightarrow>
     pending (fl_ctx s) = unacked s + unsent (fl_reader s) \<and> 0 \<le> unacked s \<and>
     (\<forall>p. fl_reader s \<in> {Added p, SawHigh p, Counted p} \<longrightarrow> 0 < sint p \<and> sint p \<le> P) \<and>
     (case fl_reader s of
        Reading \<Rightarrow> is_wss_writable (fl_ctx s) \<and> pending (fl_ctx s) \<le> WATER_MARK_HIGH + P \<and>
          (fl_acker s = SawLow \<longrightarrow> pending (fl_ctx s) \<le> WATER_MARK_HIGH)
      | Added p \<Rightarrow> pending (fl_ctx s) \<le> WATER_MARK_HIGH + 2 * P \<and>
          (fl_acker s = SawLow \<longrightarrow> pending (fl_ctx s) \<le> WATER_MARK_HIGH + P)
      | SawHigh p \<Rightarrow> pending (fl_ctx s) \<le> WATER_MARK_HIGH + 2 * P \<and>
          (fl_acker s = SawLow \<longrightarrow> pending (fl_ctx s) \<le> WATER_MARK_HIGH + P)
      | _ \<Rightarrow> pending (fl_ctx s) \<le> WATER_MARK_HIGH + 2 * P \<and>
          (fl_acker s = SawLow \<longrightarrow> pending (fl_ctx s) \<le> WATER_MARK_HIGH + P) \<and>
          (is_wss_writable (fl_ctx s) \<longrightarrow> pending (fl_ctx s) \<le> WATER_MARK_HIGH + P \<and>
             (fl_acker s = SawLow \<longrightarrow> pending (fl_ctx s) \<le> WATER_MARK_HIGH)))"

text \<open>
  The wake-up invariant: a callback that has not fired is in the queue, and then the socket is not
  writable or the acknowledger is about to empty the queue; a socket that is not writable has
  bytes still to be acknowledged or an acknowledgement being handled.
\<close>

definition flow_wakeup :: "flow \<Rightarrow> bool" where
  "flow_wakeup s \<longleftrightarrow>
     \<not> is_wss_writing (fl_ctx s) \<and> \<not> chan_closed (should_keep_read_from_cli (fl_ctx s)) \<and>
     (\<forall>cb \<in> set (fired (fl_ctx s)) \<union> set (oks (chan_items (should_keep_read_from_cli (fl_ctx s)))). cb < next_cb (fl_ctx s)) \<and>
     (\<forall>cb. fl_reader s = MustWrite cb \<longrightarrow>
        (if cb \<in> set (fired (fl_ctx s)) then is_wss_writable (fl_ctx s)
         else cb \<in> set (oks (chan_items (should_keep_read_from_cli (fl_ctx s)))))) \<and>
     (\<forall>cb. fl_reader s = Waiting cb \<longrightarrow>
        (if cb \<in> set (fired (fl_ctx s)) then is_wss_writable (fl_ctx s)
         else cb \<in> set (oks (chan_items (should_keep_read_from_cli (fl_ctx s)))) \<and>
           (is_wss_writable (fl_ctx s) \<longrightarrow> fl_acker s = Unblocked))) \<and>
     (\<not> is_wss_writable (fl_ctx s) \<and> fl_reader s \<in> {Sent, Blocked} \<union> range MustWrite \<union> range Waiting \<longrightarrow>
        0 < unacked s \<or> fl_acker s \<in> {Acked, SawLow})"

definition flow_inv :: "int \<Rightarrow> flow \<Rightarrow> bool" where
  "flow_inv P s \<longleftrightarrow> flow_counts P s \<and> flow_wakeup s"

lemmas marks = WATER_MARK_HIGH_def WATER_MARK_LOW_def

lemma flow_counts_step:
  assumes "flow_step P s t" "flow_inv P s" "P \<le> 2 ^ 29"
  shows "flow_counts P t"
proof -
  from assms(2) have counts: "flow_counts P s" and wake: "flow_wakeup s"
    by (simp_all add: flow_inv_def)
  from assms(1) show ?thesis
  proof cases
    case (r_add p)
    then have "pending (add_pending p (fl_ctx s)) = pending (fl_ctx s) + sint p"
      using counts assms(3) by (intro pending_add_pending) (auto simp: flow_counts_def marks)
    with r_add counts show ?thesis by (auto simp: flow_counts_def)
  next
    case (r_load p)
    with counts show ?thesis by (auto simp: flow_counts_def marks)
  next
    case (r_register c cb)
    then have "pending c = pending (fl_ctx s)" "is_wss_writable c = is_wss_writable (fl_ctx s)"
      by (auto simp: register_callback_def split: prod.splits bool.splits)
    with r_register counts show ?thesis by (auto simp: flow_counts_def)
  next
    case (r_wake cb)
    with wake have "is_wss_writable (fl_ctx s)" by (auto simp: flow_wakeup_def)
    with r_wake counts show ?thesis by (auto simp: flow_counts_def)
  next
    case (a_sub a)
    have "0 \<le> unsent (fl_reader s)"
      using counts by (cases "fl_reader s") (auto simp: flow_counts_def)
    then have "pending (ack_sub a (fl_ctx s)) = pending (fl_ctx s) - sint a"
      using a_sub counts by (intro pending_ack_sub) (simp_all add: flow_counts_def)
    with a_sub counts show ?thesis
      by (auto simp: flow_counts_def split: reader.splits)
  next
    case a_load
    with counts show ?thesis by (auto simp: flow_counts_def marks split: reader.splits)
  next
    case a_cas
    with counts show ?thesis by (auto simp: flow_counts_def marks split: reader.splits)
  qed (use counts in \<open>auto simp: flow_counts_def split: reader.splits\<close>)
qed

lemma register_callback_Some:
  "register_callback c = (c', Some cb) \<Longrightarrow>
   cb = next_cb c \<and> next_cb c' = Suc (next_cb c) \<and> fired c' = fired c \<and>
   is_wss_writable c' = is_wss_writable c \<and> is_wss_writing c' = is_wss_writing c \<and>
   chan_closed (should_keep_read_from_cli c') = chan_closed (should_keep_read_from_cli c) \<and>
   chan_items (should_keep_read_from_cli c') = chan_items (should_keep_read_from_cli c) @ [Inr cb]"
  by (auto simp: register_callback_def chan_send_def split: if_splits)

lemma flow_wakeup_step:
  assumes "flow_step P s t" "flow_inv P s"
  shows "flow_wakeup t"
proof -
  from assms(2) have counts: "flow_counts P s" and wake: "flow_wakeup s"
    by (simp_all add: flow_inv_def)
  from assms(1) show ?thesis
  proof cases
    case (r_register c cb)
    from register_callback_Some [OF r_register(3)] r_register(1,2) wake show ?thesis
      by (force simp: flow_wakeup_def less_Suc_eq)
  next
    case (r_write cb)
    with wake show ?thesis
      by (auto simp: flow_wakeup_def write_it_maybe_spec)
  next
    case (r_send p)
    with wake counts show ?thesis by (auto simp: flow_wakeup_def flow_counts_def)
  next
    case a_load
    with wake counts show ?thesis
      by (auto simp: flow_wakeup_def flow_counts_def marks)
  next
    case a_write
    with wake show ?thesis
      by (auto simp: flow_wakeup_def write_it_maybe_spec)
  qed (use wake in \<open>auto simp: flow_wakeup_def\<close>)
qed

text \<open>The reachable states of a context with chunks of at most \<open>P\<close> bytes.\<close>

inductive flow_reachable :: "int \<Rightarrow> flow \<Rightarrow> bool" for P where
  start: "0 \<le> sint h \<Longrightarrow> sint h \<le> WATER_MARK_HIGH \<Longrightarrow>
    flow_reachable P (flow_init (ctx_new now req_id meth uri) h)"
| step: "flow_reachable P s \<Longrightarrow> flow_step P s t \<Longrightarrow> flow_reachable P t"

lemma flow_reachable_inv:
  assumes "flow_reachable P s" "0 \<le> P" "P \<le> 2 ^ 29"
  shows "flow_inv P s"
  using assms(1)
proof (induction rule: flow_reachable.induct)
  case (start h now req_id meth uri)
  then show ?case
    using assms(2)
    by (simp add: flow_inv_def flow_counts_def flow_wakeup_def flow_init_def ctx_new_def add_pending_def)
next
  case (step s t)
  then show ?case
    using flow_counts_step [OF step.hyps(2) step.IH assms(3)] flow_wakeup_step [OF step.hyps(2) step.IH]
    by (simp add: flow_inv_def)
qed


lemma sub_ack_atomic:
  "target_connector_ack_bytes a c =
   (if pending (ack_sub a c) < WATER_MARK_LOW \<and> \<not> is_wss_writable c
    then write_it_maybe ((ack_sub a c)\<lparr>is_wss_writable := True\<rparr>) else ack_sub a c)"
  by (simp add: target_connector_ack_bytes_def ack_sub_def Let_def)

lemma inc_atomic:
  "inc_rtr_to_tgt_pending_ack_bytes p c =
   (if pending (add_pending p c) > WATER_MARK_HIGH then (add_pending p c)\<lparr>is_wss_writable := False\<rparr> else add_pending p c)"
  by (simp add: inc_rtr_to_tgt_pending_ack_bytes_def add_pending_def Let_def)

text \<open>A run for the witnesses: a chunk above the high mark blocks the reader, and its acknowledgement arrives.\<close>

lemma sample_run:
  "\<exists>s. flow_reachable 70000 s \<and> fl_reader s = Waiting 0 \<and> fl_acker s = Idle \<and> unacked s = 0 \<and>
     pending (fl_ctx s) = 0"
proof -
  let ?s = "\<lambda>c r k u. \<lparr>fl_ctx = c, fl_reader = r, fl_acker = k, unacked = u\<rparr>"
  define c where "c = add_pending 0 (ctx_new 0 1 ''POST'' sample_uri)"
  define c1 where "c1 = add_pending 70000 c"
  define c2 where "c2 = c1\<lparr>is_wss_writable := False\<rparr>"
  define c3 where "c3 = fst (register_callback c2)"
  define c4 where "c4 = ack_sub 70000 c3"
  define c5 where "c5 = c4\<lparr>is_wss_writable := True\<rparr>"
  note c_defs = c_def c1_def c2_def c3_def c4_def c5_def
  have p: "pending c1 = 70000" "pending c4 = 0"
    by (simp_all add: c_defs add_pending_def ack_sub_def register_callback_def chan_send_def ctx_new_def)
  have reg: "register_callback c2 = (c3, Some 0)"
    by (simp add: c_defs register_callback_def chan_send_def add_pending_def ctx_new_def)
  have c3: "write_it_maybe c3 = c3" "\<not> is_wss_writable c4"
    by (simp_all add: c_defs write_it_maybe_spec register_callback_def chan_send_def add_pending_def ctx_new_def ack_sub_def)
  note go = flow_reachable.step [where P = 70000]
  have "flow_reachable 70000 (?s c Reading Idle 0)"
    using flow_reachable.start [of 0 70000 0 1 "''POST''" sample_uri] by (simp add: flow_init_def c_def WATER_MARK_HIGH_def)
  from go [OF this flow_step.r_add [of _ 70000]] have "flow_reachable 70000 (?s c1 (Added 70000) Idle 0)"
    by (simp add: c1_def)
  from go [OF this flow_step.r_load [of _ 70000]] have "flow_reachable 70000 (?s c1 (SawHigh 70000) Idle 0)"
    by (simp add: p WATER_MARK_HIGH_def)
  from go [OF this flow_step.r_cas [of _ 70000]] have "flow_reachable 70000 (?s c2 (Counted 70000) Idle 0)"
    by (simp add: c2_def)
  from go [OF this flow_step.r_send [of _ 70000]] have "flow_reachable 70000 (?s c2 Sent Idle 70000)"
    by simp
  from go [OF this flow_step.r_check] have "flow_reachable 70000 (?s c2 Blocked Idle 70000)"
    by (simp add: c2_def)
  from go [OF this flow_step.r_register [of _ c3 0]] have "flow_reachable 70000 (?s c3 (MustWrite 0) Idle 70000)"
    by (simp add: reg)
  from go [OF this flow_step.r_write [of _ 0]] have "flow_reachable 70000 (?s c3 (Waiting 0) Idle 70000)"
    by (simp add: c3)
  from go [OF this flow_step.a_sub [of _ 70000]] have "flow_reachable 70000 (?s c4 (Waiting 0) Acked 0)"
    by (simp add: c4_def)
  from go [OF this flow_step.a_load] have "flow_reachable 70000 (?s c4 (Waiting 0) SawLow 0)"
    by (simp add: p WATER_MARK_LOW_def)
  from go [OF this flow_step.a_cas] have "flow_reachable 70000 (?s c5 (Waiting 0) Unblocked 0)"
    by (simp add: c5_def c3)
  from go [OF this flow_step.a_write] have "flow_reachable 70000 (?s (write_it_maybe c5) (Waiting 0) Idle 0)"
    by simp
  moreover have "pending (write_it_maybe c5) = 0"
    using p by (simp add: c5_def)
  ultimately show ?thesis by force
qed

section \<open>Properties\<close>







text \<open>
  An acknowledgement that brings the pending count of a blocked context below the low
  mark unblocks it, empties the queue of callbacks and fires them in their order; any other
  acknowledgement fires none and leaves the flag and the queue alone.
\<close>

lemma ack_releases_reader:
  assumes "\<not> chan_closed (should_keep_read_from_cli c)" and "\<not> is_wss_writing c"
    and "- (2 ^ 31) \<le> pending c - sint a" and "0 < sint a"
  shows "(let c' = target_connector_ack_bytes a c
    in if \<not> is_wss_writable c \<and> pending c - sint a < WATER_MARK_LOW
       then is_wss_writable c' \<and> chan_items (should_keep_read_from_cli c') = [] \<and>
         fired c' = fired c @ oks (chan_items (should_keep_read_from_cli c))
       else is_wss_writable c' = is_wss_writable c \<and> fired c' = fired c \<and>
         should_keep_read_from_cli c' = should_keep_read_from_cli c)"
  using assms pending_ack_sub [OF assms(4,3)]
  by (simp add: sub_ack_atomic write_it_maybe_spec Let_def)


theorem ack_releases_reader_witness:
  "fired (target_connector_ack_bytes 100
     ((fst (register_callback (ctx_new 0 1 ''POST'' sample_uri)))\<lparr>is_wss_writable := False, wss_rtr_to_tgt_pending_ack_bytes := 200\<rparr>)) = [0]"
  using ack_releases_reader [of "(fst (register_callback (ctx_new 0 1 ''POST'' sample_uri)))
      \<lparr>is_wss_writable := False, wss_rtr_to_tgt_pending_ack_bytes := 200\<rparr>" 100]
  by (simp add: Let_def register_callback_def chan_send_def ctx_new_def WATER_MARK_LOW_def)

end
