(* ===== verification/Router_Socket_V1.thy ===== *)
theory Router_Socket_V1
  imports Proxy_Listener Channels Protocol Request_Context
begin

text \<open>
  The version 1 socket (\<^verbatim>\<open>router_socket_v1.rs\<close>): it serves one request. The request is sent as a text,
  binary chunks and an end marker; the response comes back as one text and binary chunks, which go
  to the client through two channels. The handlers are functions on the socket's record; the calls
  that ask the farm to remove the socket are recorded in \<open>r1_farm_removals\<close>.
\<close>

section \<open>The socket\<close>

definition HEADER_MAX_SIZE :: nat where
  "HEADER_MAX_SIZE = 64 * 1024"

record rs1 =
  r1_route :: string
  r1_component_name :: string
  r1_router_socket_id :: string
  r1_connector_id :: string
  r1_remote_ip :: string
  r1_farm_alive :: bool
  r1_is_removed :: bool
  r1_is_tgt_can_send_res_now :: bool
  r1_bytes_received :: i64
  r1_bytes_sent :: i64
  r1_binary_frame_received :: i64
  r1_socket_wait_in_millis :: i64
  r1_error :: "crex option"
  r1_client_req_start_ts :: i64
  r1_duration_millis :: i64
  r1_idle_read_timeout_ms :: int
  r1_ping_sent_after_no_write_for_ms :: int
  r1_err_chan :: "crex chan"
  r1_tgt_res_hdr :: "string res chan"
  r1_tgt_res_bdy :: "bytes res chan"
  r1_wss_send_task :: "ws_message chan"
  r1_needs_response_chunk :: bool
  r1_needs_request_chunk :: bool
  r1_is_close_msg_received :: bool
  r1_is_tgt_res_hdr_received :: bool
  r1_is_tgt_res_hdr_sent :: bool
  r1_is_tgt_res_bdy_received :: bool
  r1_farm_removals :: "(string \<times> string) list"

text \<open>The environment also has the outcome of telling the listeners that the request completed.\<close>

record ('i, 'm) v1_env = "('i, 'm) sock_env" +
  env_on_complete :: "'i \<Rightarrow> unit res"

definition rs1_new :: "(rs1, 'm) v1_env \<Rightarrow> string \<Rightarrow> string \<Rightarrow> string \<Rightarrow> string \<Rightarrow> string \<Rightarrow> int \<Rightarrow> int \<Rightarrow> rs1" where
  "rs1_new E route component_name router_socket_id connector_id remote_ip idle ping =
     \<lparr>r1_route = route, r1_component_name = component_name, r1_router_socket_id = router_socket_id, r1_connector_id = connector_id,
      r1_remote_ip = remote_ip, r1_farm_alive = True, r1_is_removed = False, r1_is_tgt_can_send_res_now = False,
      r1_bytes_received = 0, r1_bytes_sent = 0, r1_binary_frame_received = 0, r1_socket_wait_in_millis = - env_now E,
      r1_error = None, r1_client_req_start_ts = 0, r1_duration_millis = - env_now E,
      r1_idle_read_timeout_ms = idle, r1_ping_sent_after_no_write_for_ms = ping,
      r1_err_chan = chan_new, r1_tgt_res_hdr = chan_new, r1_tgt_res_bdy = chan_new, r1_wss_send_task = chan_new,
      r1_needs_response_chunk = list_ex really_need_on_response_body_chunk (env_listeners E),
      r1_needs_request_chunk = list_ex really_need_on_request_body_chunk (env_listeners E),
      r1_is_close_msg_received = False, r1_is_tgt_res_hdr_received = False, r1_is_tgt_res_hdr_sent = False,
      r1_is_tgt_res_bdy_received = False, r1_farm_removals = []\<rparr>"

definition v1_is_active :: "rs1 \<Rightarrow> bool" where
  "v1_is_active s \<longleftrightarrow> sint (r1_client_req_start_ts s) > 0 \<and> sint (r1_duration_millis s) \<le> 0"

definition v1_send :: "ws_message \<Rightarrow> rs1 \<Rightarrow> rs1 \<times> bool" where
  "v1_send msg s = (case chan_send (r1_wss_send_task s) msg of (q, ok) \<Rightarrow> (s\<lparr>r1_wss_send_task := q\<rparr>, ok))"

definition v1_raise_completion_event :: "(rs1, 'm) v1_env \<Rightarrow> rs1 \<Rightarrow> rs1 \<times> unit res" where
  "v1_raise_completion_event E s =
     (let s1 = (if r1_farm_alive s then s\<lparr>r1_farm_removals := r1_farm_removals s @ [(r1_route s, r1_router_socket_id s)]\<rparr> else s)
      in if r1_client_req_start_ts s1 = 0 \<or> env_listeners E = [] then (s1, Inr ())
         else let s2 = s1\<lparr>r1_duration_millis := env_now E - r1_client_req_start_ts s1\<rparr>
              in (s2, env_on_complete E s2))"

definition v1_on_error :: "(rs1, 'm) v1_env \<Rightarrow> crex \<Rightarrow> rs1 \<Rightarrow> rs1 \<times> unit res" where
  "v1_on_error E err s =
     (case chan_send (r1_err_chan s) err of
        (q, True) \<Rightarrow> (fst (v1_raise_completion_event E (s\<lparr>r1_err_chan := q\<rparr>)), Inr ())
      | (q, False) \<Rightarrow> (s, Inl (crex_new (''rare ex that failed to send error to err chan: '' @ dbg_send_error E))))"

section \<open>The response\<close>

definition send_target_response_header_text_to_client :: "(rs1, 'm) v1_env \<Rightarrow> string \<Rightarrow> rs1 \<Rightarrow> rs1 \<times> unit res" where
  "send_target_response_header_text_to_client E msg s =
     (if r1_is_tgt_res_hdr_sent s \<or> r1_is_tgt_res_hdr_received s
      then (s, Inl (crex_new ''res header already handled!''))
      else let s1 = s\<lparr>r1_is_tgt_res_hdr_received := True\<rparr>
           in if length msg > HEADER_MAX_SIZE
              then (s1, Inl (crex_new ''response header too large: over 64 * 1024 bytes.''))
              else case chan_send (r1_tgt_res_hdr s1) (Inr msg) of
                     (q, ok) \<Rightarrow>
                       (s1\<lparr>r1_tgt_res_hdr := chan_close q, r1_is_tgt_res_hdr_sent := True,
                           r1_bytes_sent := (if ok then r1_bytes_sent s1 + of_nat (length msg) else r1_bytes_sent s1)\<rparr>,
                        if ok then Inr ()
                        else Inl (crex_new (''rare ex: failed to send txt to cli res chan: '' @ dbg_send_error E @ ''. ''))))"

definition send_target_response_body_binary_fragment_to_client :: "(rs1, 'm) v1_env \<Rightarrow> bytes \<Rightarrow> rs1 \<Rightarrow> rs1 \<times> unit res" where
  "send_target_response_body_binary_fragment_to_client E bin s =
     (if \<not> r1_is_tgt_res_hdr_received s \<or> \<not> r1_is_tgt_res_hdr_sent s
      then (s, Inl (crex_new ''res header not handle yet but comes binary first''))
      else let s1 = s\<lparr>r1_is_tgt_res_bdy_received := True\<rparr>
           in case chan_send (r1_tgt_res_bdy s1) (Inr bin) of
                (q, True) \<Rightarrow> (s1\<lparr>r1_tgt_res_bdy := q, r1_bytes_sent := r1_bytes_sent s1 + of_nat (length bin)\<rparr>, Inr ())
              | (q, False) \<Rightarrow> (s1, Inl (crex_new (''failed to send binary to cli res chan: '' @ dbg_send_error E))))"

definition v1_on_text :: "(rs1, 'm) v1_env \<Rightarrow> string \<Rightarrow> rs1 \<Rightarrow> rs1 \<times> unit res" where
  "v1_on_text E msg s =
     (if \<not> r1_is_tgt_can_send_res_now s then (s, Inl (crex_new ''recv txt before handle cli req.''))
      else send_target_response_header_text_to_client E msg s)"

definition v1_on_binary :: "(rs1, 'm) v1_env \<Rightarrow> bytes \<Rightarrow> rs1 \<Rightarrow> rs1 \<times> unit res" where
  "v1_on_binary E bin s =
     (if \<not> r1_is_tgt_can_send_res_now s then (s, Inl (crex_new ''recv bin before handle cli req.''))
      else case send_target_response_body_binary_fragment_to_client E bin
                  (s\<lparr>r1_binary_frame_received := r1_binary_frame_received s + 1\<rparr>) of
             (s1, Inl e) \<Rightarrow> (s1, Inl e)
           | (s1, Inr _) \<Rightarrow>
               (s1, if r1_needs_response_chunk s1
                    then all_hooks (\<lambda>l. on_response_body_chunk_received_from_target l s1 bin)
                           (filter really_need_on_response_body_chunk (env_listeners E))
                    else Inr ()))"

definition v1_on_ping :: "(rs1, 'm) v1_env \<Rightarrow> bytes \<Rightarrow> rs1 \<Rightarrow> rs1 \<times> unit res" where
  "v1_on_ping E ping_msg s =
     (case v1_send (WPong ping_msg) s of
        (s1, True) \<Rightarrow> (s1, Inr ())
      | (s1, False) \<Rightarrow> v1_on_error E (crex_new (''failed to pong back '' @ dbg_send_error E)) s1)"

section \<open>The end\<close>

text \<open>An error raised while a close is handled joins the others.\<close>

definition close_error :: "(rs1, 'm) v1_env \<Rightarrow> crex \<Rightarrow> crex option \<Rightarrow> rs1 \<Rightarrow> rs1 \<times> crex option" where
  "close_error E ex total_err s = (case v1_on_error E ex s of (s1, may_ex) \<Rightarrow> (s1, compose_ex total_err may_ex))"

definition v1_on_close :: "(rs1, 'm) v1_env \<Rightarrow> (nat \<times> string) option \<Rightarrow> rs1 \<Rightarrow> rs1 \<times> unit res" where
  "v1_on_close E opt_close_frame s =
     (let s1 = fst (v1_send (WClose opt_close_frame) (s\<lparr>r1_is_close_msg_received := True\<rparr>));
          (code, reason) = (case opt_close_frame of Some (c, r) \<Rightarrow> (c, r) | None \<Rightarrow> (4000, []));
          (s2, err2) =
            (if r1_is_tgt_can_send_res_now s1 \<and> r1_bytes_received s1 = 0
             then (if code = 1011 then close_error E (with_status_code (crex_new ''ws code 1011'') 502) None s1
                   else if code = 1008 then close_error E (with_status_code (crex_new ''ws code 1008'') 400) None s1
                   else (s1, None))
             else (s1, None));
          (s3, err3) =
            (if \<not> chan_closed (r1_tgt_res_hdr s2) \<or> \<not> chan_closed (r1_tgt_res_bdy s2)
             then let (s2', err2') =
                    (if code = 1000 then (s2, err2)
                     else let ex = crex_new (''upstream server error: ws code='' @ show_nat code @ '', reason='' @ reason)
                          in close_error E ex err2
                               (s2\<lparr>r1_tgt_res_hdr := chan_push (r1_tgt_res_hdr s2) (Inl ex),
                                   r1_tgt_res_bdy := chan_push (r1_tgt_res_bdy s2) (Inl ex)\<rparr>))
                  in (s2'\<lparr>r1_tgt_res_hdr := chan_close (r1_tgt_res_hdr s2'), r1_tgt_res_bdy := chan_close (r1_tgt_res_bdy s2')\<rparr>, err2')
             else (s2, err2));
          (s4, may_ex) = v1_raise_completion_event E s3;
          total_err = compose_ex err3 may_ex
      in (s4, case total_err of Some e \<Rightarrow> Inl e | None \<Rightarrow> Inr ()))"

definition v1_terminate_all_conn :: "crex option \<Rightarrow> rs1 \<Rightarrow> rs1 \<times> unit res" where
  "v1_terminate_all_conn opt_crex s =
     (let crex = (case opt_crex of Some e \<Rightarrow> e | None \<Rightarrow> crex_new ''ex occurs and should terminate all conn.'')
      in (s\<lparr>r1_tgt_res_hdr := chan_close (chan_push (r1_tgt_res_hdr s) (Inl crex)),
            r1_tgt_res_bdy := chan_close (chan_push (r1_tgt_res_bdy s) (Inl crex))\<rparr>, Inr ()))"

definition v1_inc_bytes_received_from_cli :: "i32 \<Rightarrow> rs1 \<Rightarrow> rs1" where
  "v1_inc_bytes_received_from_cli byte_count s = s\<lparr>r1_bytes_received := r1_bytes_received s + word_of_int (sint byte_count)\<rparr>"

definition v1_try_provide_general_error :: "crex option \<Rightarrow> rs1 \<Rightarrow> rs1" where
  "v1_try_provide_general_error opt_crex s = s\<lparr>r1_error := opt_crex\<rparr>"

definition v1_drop :: "rs1 \<Rightarrow> rs1" where
  "v1_drop s = s\<lparr>r1_tgt_res_hdr := chan_close (r1_tgt_res_hdr s), r1_tgt_res_bdy := chan_close (r1_tgt_res_bdy s),
     r1_wss_send_task := chan_close (r1_wss_send_task s)\<rparr>"

section \<open>The request\<close>

text \<open>The header hook of every listener in turn; unlike in version 3 its error keeps its own kind.\<close>

fun v1_before_hooks :: "('i, 'm) proxy_listener list \<Rightarrow> 'i \<Rightarrow> 'm \<Rightarrow> 'm res" where
  "v1_before_hooks [] i m = Inr m"
| "v1_before_hooks (l # ls) i m =
     (case on_before_proxy_to_target l i m of
        (m', Inl e) \<Rightarrow> Inl e
      | (m', Inr _) \<Rightarrow> v1_before_hooks ls i m')"

text \<open>
  The beginning of \<^verbatim>\<open>on_client_req\<close>: the text of the request. The builder renders the headers when it is
  given them, before the listeners see them.
\<close>

definition v1_request_text ::
    "('m, 'v) header_ops \<Rightarrow> string \<Rightarrow> (rs1, 'm) v1_env \<Rightarrow> ('l, 'f) router_config \<Rightarrow> string \<Rightarrow> string \<Rightarrow> orig_uri \<Rightarrow> 'm \<Rightarrow>
     string \<Rightarrow> bool \<Rightarrow> bool \<Rightarrow> rs1 \<Rightarrow> (rs1 \<times> string res) outcome" where
  "v1_request_text H local_ip E cfg http_version meth uri headers ip is_tls has_body s =
     (if r1_is_removed s
      then Ret (s, Inl (crex_new (''try to handle cli req in a is_removed router socket. router_socket_id='' @ r1_router_socket_id s)))
      else
        let s1 = s\<lparr>r1_socket_wait_in_millis := r1_socket_wait_in_millis s + env_now E, r1_client_req_start_ts := env_now E,
                   r1_duration_millis := - env_now E\<rparr>
        in bind_outcome (set_target_request_headers H local_ip cfg headers (hm_new H) http_version ip uri is_tls)
             (\<lambda>(hdr_to_tgt, _).
                let cranker_req_bdr = with_request_headers H (with_request_line request_builder_new (create_request_line meth uri)) hdr_to_tgt
                in case v1_before_hooks (env_listeners E) s1 hdr_to_tgt of
                     Inl e \<Rightarrow> Ret (s1, Inl e)
                   | Inr _ \<Rightarrow>
                       Ret (s1, request_build (if has_body then with_request_body_pending cranker_req_bdr
                                               else with_request_has_no_body cranker_req_bdr))))"

text \<open>The task that sends a request, one step per turn of its loop.\<close>

datatype v1_part_one =
    V1_Start string "bytes res list option"
  | V1_Body "bytes res list"
  | V1_Done "unit res"

definition v1_all_sent :: "(rs1, 'm) v1_env \<Rightarrow> rs1 \<Rightarrow> v1_part_one" where
  "v1_all_sent E s = V1_Done (all_hooks (\<lambda>l. on_request_body_sent_to_target l s) (env_listeners E))"

definition v1_start :: "(rs1, 'm) v1_env \<Rightarrow> string \<Rightarrow> bytes res list option \<Rightarrow> rs1 \<Rightarrow> v1_part_one \<times> rs1" where
  "v1_start E cranker_req opt_body s =
     (case v1_send (WText cranker_req) (s\<lparr>r1_is_tgt_can_send_res_now := True\<rparr>) of
        (s1, False) \<Rightarrow> (V1_Done (Inl (crex_new (''failed to send cli req hdr to tgt: '' @ dbg_send_error E))), s1)
      | (s1, True) \<Rightarrow> (case opt_body of None \<Rightarrow> (v1_all_sent E s1, s1) | Some body \<Rightarrow> (V1_Body body, s1)))"

definition v1_chunk :: "(rs1, 'm) v1_env \<Rightarrow> bytes \<Rightarrow> bytes res list \<Rightarrow> rs1 \<Rightarrow> v1_part_one \<times> rs1" where
  "v1_chunk E chunk rest s =
     (case all_hooks (\<lambda>l. on_before_request_body_chunk_sent_to_target l s chunk) (env_listeners E) of
        Inl e \<Rightarrow> (V1_Done (Inl e), s)
      | Inr _ \<Rightarrow>
          (case all_hooks (\<lambda>l. on_request_body_chunk_sent_to_target l s chunk) (env_listeners E) of
             Inl e \<Rightarrow> (V1_Done (Inl e), s)
           | Inr _ \<Rightarrow>
               (case v1_send (WBinary chunk) s of
                  (s1, False) \<Rightarrow> (V1_Done (Inl (crex_new (''error when sending req body to tgt: '' @ dbg_send_error E))), s1)
                | (s1, True) \<Rightarrow>
                    (case (if r1_needs_request_chunk s1
                           then all_hooks (\<lambda>l. on_request_body_chunk_sent_to_target l s1 chunk)
                                  (filter really_need_on_request_body_chunk (env_listeners E))
                           else Inr ()) of
                       Inl e \<Rightarrow> (V1_Done (Inl e), s1)
                     | Inr _ \<Rightarrow> (V1_Body rest, s1)))))"

definition v1_end_of_body :: "(rs1, 'm) v1_env \<Rightarrow> rs1 \<Rightarrow> v1_part_one \<times> rs1" where
  "v1_end_of_body E s =
     (case request_build (with_request_body_ended request_builder_new) of
        Inl e \<Rightarrow> (V1_Done (Inl e), s)
      | Inr end_of_body \<Rightarrow>
          (case v1_send (WText end_of_body) s of
             (s1, False) \<Rightarrow> (V1_Done (Inl (crex_new (''failed to send end of body end marker to tgt: '' @ dbg_send_error E))), s1)
           | (s1, True) \<Rightarrow> (v1_all_sent E s1, s1)))"

fun v1_part_one_step :: "(rs1, 'm) v1_env \<Rightarrow> v1_part_one \<Rightarrow> rs1 \<Rightarrow> v1_part_one \<times> rs1" where
  "v1_part_one_step E (V1_Start cranker_req opt_body) s = v1_start E cranker_req opt_body s"
| "v1_part_one_step E (V1_Body []) s = v1_end_of_body E s"
| "v1_part_one_step E (V1_Body (Inl e # rest)) s = (V1_Done (Inl e), s)"
| "v1_part_one_step E (V1_Body (Inr chunk # rest)) s = v1_chunk E chunk rest s"
| "v1_part_one_step E (V1_Done r) s = (V1_Done r, s)"

definition v1_part_one_result :: "(rs1, 'm) v1_env \<Rightarrow> unit res \<Rightarrow> rs1 \<Rightarrow> rs1" where
  "v1_part_one_result E r s = (case r of Inr _ \<Rightarrow> s | Inl crex \<Rightarrow> fst (v1_on_error E crex s))"

text \<open>The first value of the header channel decides; \<open>None\<close> while there is none.\<close>

definition v1_split_part_two ::
    "('m, 'v) header_ops \<Rightarrow> (nat \<Rightarrow> bool) \<Rightarrow> (string \<Rightarrow> bool) \<Rightarrow> (string set \<Rightarrow> string list) \<Rightarrow>
     (rs1, 'm) v1_env \<Rightarrow> rs1 \<Rightarrow> (rs1 \<times> (nat \<times> 'm) res) option" where
  "v1_split_part_two H valid_status valid_name iter E s =
     (case chan_try_recv (r1_tgt_res_hdr s) of
        None \<Rightarrow>
          if chan_closed (r1_tgt_res_hdr s)
          then Some (s, Inl (crex_new (''rare ex seems nothing received from tgt res hdr chan and it closed: '' @ dbg_recv_error E @
                 ''. router_socket_id='' @ r1_router_socket_id s)))
          else None
      | Some (r, q) \<Rightarrow>
          let s1 = s\<lparr>r1_tgt_res_hdr := q\<rparr>
          in Some (s1,
            case r of Inl e \<Rightarrow> Inl e
            | Inr message_to_apply \<Rightarrow>
              (case try_from_string (dbg_parse_int_error E) message_to_apply of
                 Inl e \<Rightarrow> Inl e
               | Inr cranker_res \<Rightarrow>
                   (case response_build H valid_status valid_name (dbg_lines E) iter cranker_res of
                      Inl e \<Rightarrow> Inl e
                    | Inr res_builder \<Rightarrow>
                        (case all_hooks (\<lambda>l. case on_before_responding_to_client l s1 of
                              Inl e \<Rightarrow> Inl e
                            | Inr _ \<Rightarrow> on_after_target_to_proxy_headers_received l s1 (cr_status cranker_res)
                                        (map_option snd res_builder)) (env_listeners E) of
                           Inl e \<Rightarrow> Inl e
                         | Inr _ \<Rightarrow>
                             (case res_builder of
                                Some res \<Rightarrow> Inr res
                              | None \<Rightarrow> Inl (crex_new (''failed to build body: '' @ dbg_build_error E))))))))"

text \<open>The task that runs when the body stream to the client ends.\<close>

definition v1_body_stream_ended :: "(rs1, 'm) v1_env \<Rightarrow> rs1 \<Rightarrow> rs1" where
  "v1_body_stream_ended E s =
     (if r1_is_close_msg_received s then s
      else fst (v1_on_error E (with_err_kind (crex_new ''connection to client closed unexpectedly'') BrokenConnection_0011) s))"

section \<open>The response reaches the client in order\<close>

fun v1_receive :: "(rs1, 'm) v1_env \<Rightarrow> ws_message list \<Rightarrow> rs1 \<Rightarrow> rs1 \<times> unit res list" where
  "v1_receive E [] s = (s, [])"
| "v1_receive E (WText t # ms) s = (let (s1, r) = v1_on_text E t s; (s2, rs) = v1_receive E ms s1 in (s2, r # rs))"
| "v1_receive E (WBinary b # ms) s = (let (s1, r) = v1_on_binary E b s; (s2, rs) = v1_receive E ms s1 in (s2, r # rs))"
| "v1_receive E (_ # ms) s = v1_receive E ms s"

definition v1_hooks_agree :: "(rs1, 'm) v1_env \<Rightarrow> bool" where
  "v1_hooks_agree E \<longleftrightarrow> (\<forall>l \<in> set (env_listeners E). \<forall>i b. on_response_body_chunk_received_from_target l i b = Inr ())"

text \<open>A socket whose request was sent and that has received nothing yet.\<close>

definition v1_awaiting :: "rs1 \<Rightarrow> bool" where
  "v1_awaiting s \<longleftrightarrow> r1_is_tgt_can_send_res_now s \<and> \<not> r1_is_tgt_res_hdr_received s \<and> \<not> r1_is_tgt_res_hdr_sent s \<and>
     \<not> chan_closed (r1_tgt_res_hdr s) \<and> \<not> chan_closed (r1_tgt_res_bdy s)"

lemma v1_receive_chunks:
  assumes "v1_hooks_agree E" "r1_is_tgt_can_send_res_now s" "r1_is_tgt_res_hdr_received s" "r1_is_tgt_res_hdr_sent s"
    "\<not> chan_closed (r1_tgt_res_bdy s)"
  shows "\<exists>t. v1_receive E (map WBinary bs) s = (t, map (\<lambda>_. Inr ()) bs) \<and> r1_tgt_res_hdr t = r1_tgt_res_hdr s \<and>
    chan_items (r1_tgt_res_bdy t) = chan_items (r1_tgt_res_bdy s) @ map Inr bs \<and>
    r1_bytes_sent t = r1_bytes_sent s + of_nat (length (concat bs)) \<and>
    r1_binary_frame_received t = r1_binary_frame_received s + of_nat (length bs) \<and> r1_is_tgt_res_hdr_sent t"
  using assms(2-)
proof (induction bs arbitrary: s)
  case (Cons b bs)
  let ?s = "s\<lparr>r1_binary_frame_received := r1_binary_frame_received s + 1, r1_is_tgt_res_bdy_received := True,
    r1_tgt_res_bdy := (r1_tgt_res_bdy s)\<lparr>chan_items := chan_items (r1_tgt_res_bdy s) @ [Inr b]\<rparr>,
    r1_bytes_sent := r1_bytes_sent s + of_nat (length b)\<rparr>"
  have "all_hooks (\<lambda>l. on_response_body_chunk_received_from_target l ?s b) (filter really_need_on_response_body_chunk (env_listeners E)) = Inr ()"
    using assms(1) by (auto simp: all_hooks_Inr_iff v1_hooks_agree_def)
  then have "v1_on_binary E b s = (?s, Inr ())"
    using Cons.prems by (simp add: v1_on_binary_def send_target_response_body_binary_fragment_to_client_def chan_send_def Let_def)
  moreover obtain t where "v1_receive E (map WBinary bs) ?s = (t, map (\<lambda>_. Inr ()) bs) \<and> r1_tgt_res_hdr t = r1_tgt_res_hdr ?s \<and>
    chan_items (r1_tgt_res_bdy t) = chan_items (r1_tgt_res_bdy ?s) @ map Inr bs \<and>
    r1_bytes_sent t = r1_bytes_sent ?s + of_nat (length (concat bs)) \<and>
    r1_binary_frame_received t = r1_binary_frame_received ?s + of_nat (length bs) \<and> r1_is_tgt_res_hdr_sent t"
    using Cons.IH [of ?s] Cons.prems by auto
  ultimately show ?case by (simp add: Let_def)
qed simp

text \<open>
  Claim C23: a version 1 socket hands the client exactly the response its connector sends: the one text
  message, up to 64 KiB, is the head, after which its channel is closed; the binary messages that
  follow are the body, in order; all of them are counted. A second text, or a binary message before
  the head, is refused and changes neither channel.
\<close>

theorem v1_response_in_order:
  assumes "v1_hooks_agree E" "v1_awaiting s" "length head \<le> HEADER_MAX_SIZE"
  shows "\<exists>t. v1_receive E (WText head # map WBinary bs) s = (t, map (\<lambda>_. Inr ()) (WText head # map WBinary bs)) \<and>
    chan_items (r1_tgt_res_hdr t) = chan_items (r1_tgt_res_hdr s) @ [Inr head] \<and> chan_closed (r1_tgt_res_hdr t) \<and>
    chan_items (r1_tgt_res_bdy t) = chan_items (r1_tgt_res_bdy s) @ map Inr bs \<and>
    r1_bytes_sent t = r1_bytes_sent s + of_nat (length head + length (concat bs)) \<and>
    (\<exists>e. v1_on_text E again t = (t, Inl e)) \<and>
    (\<exists>e u. v1_on_binary E early s = (u, Inl e) \<and> r1_tgt_res_hdr u = r1_tgt_res_hdr s \<and> r1_tgt_res_bdy u = r1_tgt_res_bdy s)"
proof -
  let ?s = "s\<lparr>r1_is_tgt_res_hdr_received := True,
    r1_tgt_res_hdr := chan_close ((r1_tgt_res_hdr s)\<lparr>chan_items := chan_items (r1_tgt_res_hdr s) @ [Inr head]\<rparr>),
    r1_is_tgt_res_hdr_sent := True, r1_bytes_sent := r1_bytes_sent s + of_nat (length head)\<rparr>"
  have "v1_on_text E head s = (?s, Inr ())"
    using assms(2,3) by (simp add: v1_on_text_def send_target_response_header_text_to_client_def v1_awaiting_def chan_send_def Let_def)
  moreover obtain t where t: "v1_receive E (map WBinary bs) ?s = (t, map (\<lambda>_. Inr ()) bs)" "r1_tgt_res_hdr t = r1_tgt_res_hdr ?s"
    "chan_items (r1_tgt_res_bdy t) = chan_items (r1_tgt_res_bdy ?s) @ map Inr bs" "r1_bytes_sent t = r1_bytes_sent ?s + of_nat (length (concat bs))"
    "r1_is_tgt_res_hdr_sent t"
    using v1_receive_chunks [OF assms(1), of ?s bs] assms(2) by (auto simp: v1_awaiting_def)
  moreover have "\<exists>e. v1_on_text E again t = (t, Inl e)"
    using t(5) by (simp add: v1_on_text_def send_target_response_header_text_to_client_def)
  moreover have "\<exists>e u. v1_on_binary E early s = (u, Inl e) \<and> r1_tgt_res_hdr u = r1_tgt_res_hdr s \<and> r1_tgt_res_bdy u = r1_tgt_res_bdy s"
    using assms(2) by (simp add: v1_on_binary_def send_target_response_body_binary_fragment_to_client_def v1_awaiting_def)
  ultimately show ?thesis by (simp add: Let_def comp_def)
qed

definition v1_sample_env :: "(rs1, (string \<times> string) list) v1_env" where
  "v1_sample_env = \<lparr>env_listeners = [default_listener], env_now = 5, dbg_send_error = [], dbg_recv_error = [],
     dbg_utf8_error = (\<lambda>_. []), dbg_parse_int_error = (\<lambda>_. []), dbg_lines = (\<lambda>_. []), dbg_build_error = [], env_on_complete = (\<lambda>_. Inr ())\<rparr>"

definition v1_sample :: rs1 where
  "v1_sample = (rs1_new v1_sample_env ''web'' ''web'' ''s1'' ''c1'' ''10.0.0.1'' 60000 10000)\<lparr>r1_is_tgt_can_send_res_now := True\<rparr>"

theorem v1_response_in_order_witness:
  "\<exists>t. v1_receive v1_sample_env [WText ''HTTP/1.1 200 OK'', WBinary [104], WBinary [105]] v1_sample = (t, [Inr (), Inr (), Inr ()]) \<and>
     chan_items (r1_tgt_res_bdy t) = [Inr [104], Inr [105]]"
proof -
  have "v1_hooks_agree v1_sample_env" by (simp add: v1_hooks_agree_def v1_sample_env_def default_listener_def)
  moreover have "v1_awaiting v1_sample" by (simp add: v1_awaiting_def v1_sample_def rs1_new_def)
  moreover have "length ''HTTP/1.1 200 OK'' \<le> HEADER_MAX_SIZE" by (simp add: HEADER_MAX_SIZE_def)
  moreover have "chan_items (r1_tgt_res_bdy v1_sample) = []" by (simp add: v1_sample_def rs1_new_def)
  ultimately show ?thesis
    using v1_response_in_order [of v1_sample_env v1_sample "''HTTP/1.1 200 OK''" "[[104], [105]]" "[]" "[]"] by auto
qed

section \<open>The request leaves in order\<close>

fun v1_body_messages :: "bytes res list \<Rightarrow> ws_message list" where
  "v1_body_messages [] = [WText ''_3'']"
| "v1_body_messages (Inr chunk # rest) = WBinary chunk # v1_body_messages rest"
| "v1_body_messages (Inl e # rest) = []"

fun v1_todo :: "v1_part_one \<Rightarrow> ws_message list" where
  "v1_todo (V1_Start head None) = [WText head]"
| "v1_todo (V1_Start head (Some body)) = WText head # v1_body_messages body"
| "v1_todo (V1_Body body) = v1_body_messages body"
| "v1_todo (V1_Done r) = []"

lemma v1_send_ok: "v1_send m s = (t, True) \<Longrightarrow> chan_items (r1_wss_send_task t) = chan_items (r1_wss_send_task s) @ [m]"
  by (auto simp: v1_send_def chan_send_def split: if_splits)

lemma end_marker_text: "request_build (with_request_body_ended request_builder_new) = Inr ''_3''"
  by (simp add: request_build_def with_request_body_ended_def request_builder_new_def)

text \<open>
  Claim C24: each step of the task that sends a version 1 request appends exactly its next messages: the
  text of the request, one binary message per chunk of the body, in order, and the end marker, or
  the text alone when there is no body.
\<close>

theorem v1_sender_order:
  assumes "v1_part_one_step E pc s = (pc', t)" "\<forall>e. pc' \<noteq> V1_Done (Inl e)"
  shows "\<exists>sent. chan_items (r1_wss_send_task t) = chan_items (r1_wss_send_task s) @ sent \<and> v1_todo pc = sent @ v1_todo pc'"
  using assms
proof (cases "(E, pc, s)" rule: v1_part_one_step.cases)
  case (1 E head opt_body s)
  then show ?thesis
    using assms by (cases opt_body) (auto simp: v1_start_def v1_all_sent_def dest!: v1_send_ok split: prod.splits bool.splits)
next
  case (2 E s)
  then show ?thesis
    using assms by (auto simp: v1_end_of_body_def end_marker_text v1_all_sent_def dest!: v1_send_ok split: prod.splits bool.splits)
next
  case (4 E chunk rest s)
  then show ?thesis
    using assms by (auto simp: v1_chunk_def dest!: v1_send_ok split: sum.splits prod.splits bool.splits if_splits)
qed (use assms in auto)

theorem v1_sender_order_witness:
  "\<exists>t. v1_part_one_step v1_sample_env (V1_Body [Inr [1, 2]]) v1_sample = (V1_Body [], t) \<and>
     chan_items (r1_wss_send_task t) = chan_items (r1_wss_send_task v1_sample) @ [WBinary [1, 2]]"
proof -
  have "fst (v1_part_one_step v1_sample_env (V1_Body [Inr [1, 2]]) v1_sample) = V1_Body []"
    by (simp add: v1_chunk_def v1_sample_env_def default_listener_def v1_send_def chan_send_def v1_sample_def rs1_new_def)
  then obtain t where t: "v1_part_one_step v1_sample_env (V1_Body [Inr [1, 2]]) v1_sample = (V1_Body [], t)"
    by (metis prod.collapse)
  from v1_sender_order [OF this] t show ?thesis by (auto simp: append_eq_Cons_conv)
qed

text \<open>
  Claim C38: the text a version 1 socket sends for a request is made of the request line, the headers as
  the router rewrote them and the marker for the body. What the listeners do to the headers before the
  request is proxied is not in it, whoever they are: they can only refuse the request.
\<close>

theorem v1_request_text_ignores_listeners:
  assumes "v1_request_text H local_ip E cfg ver meth uri headers ip tls has_body s = Ret (s1, Inr msg)"
  shows "\<exists>hdr has. set_target_request_headers H local_ip cfg headers (hm_new H) ver ip uri tls = Ret (hdr, has) \<and>
    msg = build_req_and_hdr (create_request_line meth uri) (build_header_str H hdr) (if has_body then RequestBodyPending else RequestHasNoBody)"
  using assms
  by (auto simp: v1_request_text_def bind_outcome_Ret_iff Let_def request_build_def with_request_body_pending_def with_request_has_no_body_def
      with_request_headers_def with_request_line_def request_builder_new_def split: if_splits sum.splits)

text \<open>A listener that adds a header: it is not in the text.\<close>

definition adding_listener :: "(rs1, (string \<times> string) list) proxy_listener" where
  "adding_listener = default_listener\<lparr>on_before_proxy_to_target := (\<lambda>_ m. (m @ [(''x-added'', ''1'')], Inr ()))\<rparr>"

theorem v1_request_text_ignores_listeners_witness:
  "\<exists>s1 hdr. v1_request_text lhm ''10.0.0.9'' (v1_sample_env\<lparr>env_listeners := [adding_listener]\<rparr>) sample_config ''HTTP/1.1'' ''GET''
      sample_uri sample_request ''10.0.0.1'' False False v1_sample =
    Ret (s1, Inr (build_req_and_hdr (create_request_line ''GET'' sample_uri) (build_header_str lhm hdr) RequestHasNoBody))"
proof -
  obtain hdr has where ret: "set_target_request_headers lhm ''10.0.0.9'' sample_config
       sample_request (hm_new lhm) ''HTTP/1.1'' ''10.0.0.1'' sample_uri False = Ret (hdr, has)"
    using sample_returns by blast
  then obtain s1 msg where sent: "v1_request_text lhm ''10.0.0.9'' (v1_sample_env\<lparr>env_listeners := [adding_listener]\<rparr>) sample_config ''HTTP/1.1'' ''GET''
      sample_uri sample_request ''10.0.0.1'' False False v1_sample = Ret (s1, Inr msg)"
    by (simp add: v1_request_text_def v1_sample_def rs1_new_def adding_listener_def Let_def request_build_def with_request_has_no_body_def
        with_request_headers_def with_request_line_def request_builder_new_def)
  from v1_request_text_ignores_listeners [OF sent] show ?thesis using sent by auto
qed

end
