(* ===== verification/Router_Socket_V3.thy ===== *)
theory Router_Socket_V3
  imports Frames Protocol Request_Context Proxy_Listener
begin

text \<open>
  The multiplexed socket (\<^verbatim>\<open>src/src/router_socket_v3.rs\<close>): one websocket that carries many requests,
  each with a context. Contexts are shared by reference between the socket's map and the tasks
  that serve them, so they live in a store, a list, and a reference is an index into it; the map
  takes request ids to references. A handler is a function on the state that runs to completion;
  what the code spawns to run later is recorded as a task, and run by an operation of its own.
\<close>

section \<open>The state\<close>

record rs3 =
  r3_route :: string
  r3_domain :: string
  r3_component_name :: string
  r3_router_socket_id :: string
  r3_connector_id :: string
  r3_remote_ip :: string
  r3_idle_read_timeout_ms :: int
  r3_ping_sent_after_no_write_for_ms :: int
  r3_farm_alive :: bool
  r3_is_removed :: bool
  context_map :: "(i32 \<times> nat) list"
  ctxs :: "ctx list"
  req_id_generator :: i32
  r3_err_chan :: "crex chan"
  r3_wss_send_task :: "ws_message chan"
  r3_needs_response_chunk :: bool
  r3_needs_request_chunk :: bool
  removal_tasks :: "i32 list"
  r3_farm_removals :: "(string \<times> string) list"
  r3_completions :: "i32 list"

text \<open>
  \<^verbatim>\<open>new_arc\<close>. \<open>removal_tasks\<close> holds the spawned removals of contexts, \<open>r3_farm_removals\<close> the calls that
  ask the farm to remove the socket, \<open>r3_completions\<close> the requests whose completion the listeners
  were told of.
\<close>

definition rs3_new :: "('i, 'm) sock_env \<Rightarrow> string \<Rightarrow> string \<Rightarrow> string \<Rightarrow> string \<Rightarrow> string \<Rightarrow> string \<Rightarrow> int \<Rightarrow> int \<Rightarrow> rs3" where
  "rs3_new E route domain component socket_id connector ip idle ping =
     \<lparr>r3_route = route, r3_domain = domain, r3_component_name = component, r3_router_socket_id = socket_id,
      r3_connector_id = connector, r3_remote_ip = ip,
      r3_idle_read_timeout_ms = idle, r3_ping_sent_after_no_write_for_ms = ping,
      r3_farm_alive = True, r3_is_removed = False, context_map = [], ctxs = [], req_id_generator = 0,
      r3_err_chan = chan_new, r3_wss_send_task = chan_new,
      r3_needs_response_chunk = list_ex really_need_on_response_body_chunk (env_listeners E),
      r3_needs_request_chunk = list_ex really_need_on_request_body_chunk (env_listeners E),
      removal_tasks = [], r3_farm_removals = [], r3_completions = []\<rparr>"

definition get_ctx :: "rs3 \<Rightarrow> nat \<Rightarrow> ctx" where
  "get_ctx s a = ctxs s ! a"

definition upd_ctx :: "nat \<Rightarrow> (ctx \<Rightarrow> ctx) \<Rightarrow> rs3 \<Rightarrow> rs3" where
  "upd_ctx a f s = s\<lparr>ctxs := (ctxs s)[a := f (ctxs s ! a)]\<rparr>"

definition inflight_count :: "rs3 \<Rightarrow> i32" where
  "inflight_count s = of_nat (length (context_map s))"

definition r3_is_active :: "rs3 \<Rightarrow> bool" where
  "r3_is_active s \<longleftrightarrow> sint (inflight_count s) > 0"

section \<open>Sending and completing\<close>

definition send_data :: "(ctx, 'm) sock_env \<Rightarrow> ws_message \<Rightarrow> rs3 \<Rightarrow> rs3 \<times> unit res" where
  "send_data E msg s =
     (case chan_send (r3_wss_send_task s) msg of
        (q, True) \<Rightarrow> (s\<lparr>r3_wss_send_task := q\<rparr>, Inr ())
      | (q, False) \<Rightarrow> (s, Inl (crex_new (''failed to send_data: '' @ dbg_send_error E @ ''. route = '' @ r3_route s @
            '' , router socket id = '' @ r3_router_socket_id s))))"

definition raise_completion_event :: "(ctx, 'm) sock_env \<Rightarrow> i32 option \<Rightarrow> rs3 \<Rightarrow> rs3 \<times> unit res" where
  "raise_completion_event E opt_cli_req_id s =
     (case opt_cli_req_id of
        None \<Rightarrow> (s, Inr ())
      | Some req_id \<Rightarrow>
          (case am_get (context_map s) req_id of
             None \<Rightarrow> (s, Inr ())
           | Some a \<Rightarrow>
               ((upd_ctx a (\<lambda>c. c\<lparr>duration_millis := env_now E - req_start_time c\<rparr>) s)
                  \<lparr>r3_completions := r3_completions s @ [req_id]\<rparr>, Inr ())))"

definition try_spawn_remove_req_ctx :: "i32 \<Rightarrow> rs3 \<Rightarrow> rs3" where
  "try_spawn_remove_req_ctx req_id s = s\<lparr>removal_tasks := removal_tasks s @ [req_id]\<rparr>"

text \<open>The body of a spawned removal.\<close>

definition run_removal :: "rs3 \<Rightarrow> rs3" where
  "run_removal s =
     (case removal_tasks s of
        [] \<Rightarrow> s
      | req_id # rest \<Rightarrow> s\<lparr>context_map := am_del (context_map s) req_id, removal_tasks := rest\<rparr>)"

definition reset_stream :: "(ctx, 'm) sock_env \<Rightarrow> nat \<Rightarrow> i32 \<Rightarrow> string \<Rightarrow> rs3 \<Rightarrow> rs3" where
  "reset_stream E a err_code msg s =
     (let c = get_ctx s a;
          s1 = (if \<not> is_completed (ctx_state c) \<and> \<not> is_rst_stream_sent c
                then upd_ctx a (\<lambda>c. c\<lparr>is_rst_stream_sent := True\<rparr>)
                       (fst (send_data E (WBinary (rst_message (request_id c) err_code msg)) s))
                else s)
      in try_spawn_remove_req_ctx (request_id c) s1)"

definition check_if_context_exists :: "i32 \<Rightarrow> rs3 \<Rightarrow> nat res" where
  "check_if_context_exists req_id s =
     (case am_get (context_map s) req_id of
        None \<Rightarrow> Inl (crex_new (''can not find ctx for req id='' @ show_int (sint req_id) @ '' in router_socket_id='' @
                  r3_router_socket_id s @ ''. route = '' @ r3_route s))
      | Some a \<Rightarrow> Inr a)"

definition try_provide_general_error :: "crex option \<Rightarrow> rs3 \<Rightarrow> rs3" where
  "try_provide_general_error opt_crex s =
     (case opt_crex of
        None \<Rightarrow> s
      | Some crex \<Rightarrow> foldl (\<lambda>s a. upd_ctx a (\<lambda>c. c\<lparr>ctx_error := Some crex\<rparr>) s) s (map snd (context_map s)))"

section \<open>Telling the client\<close>

definition is_cli_req_not_start_to_send_to_tgt_yet :: "ctx \<Rightarrow> bool" where
  "is_cli_req_not_start_to_send_to_tgt_yet c \<longleftrightarrow> is_tgt_can_send_res_now c \<and> from_client_bytes c = 0"

text \<open>An error sent to both the header and the body channel; a closed channel ignores it.\<close>

definition send_err_both :: "crex \<Rightarrow> ctx \<Rightarrow> ctx" where
  "send_err_both e c = c\<lparr>tgt_res_hdr := chan_push (tgt_res_hdr c) (Inl e), tgt_res_bdy := chan_push (tgt_res_bdy c) (Inl e)\<rparr>"

definition cli_fail_prior_to_tgt_res :: "nat \<Rightarrow> string option \<Rightarrow> nat option \<Rightarrow> rs3 \<Rightarrow> rs3" where
  "cli_fail_prior_to_tgt_res a opt_reason opt_status s =
     (let failed_reason = (case opt_reason of Some r \<Rightarrow> r | None \<Rightarrow> ''unknown early failed reason'');
          failed_code = (case opt_status of Some c \<Rightarrow> c | None \<Rightarrow> 500)
      in upd_ctx a (send_err_both (with_status_code (crex_new failed_reason) failed_code)) s)"

definition notify_client_request_close ::
    "(ctx, 'm) sock_env \<Rightarrow> nat \<Rightarrow> nat \<Rightarrow> string option \<Rightarrow> rs3 \<Rightarrow> rs3 \<times> unit res" where
  "notify_client_request_close E a ws_status_code opt_reason s =
     (let code = ws_status_code;
          reason = (case opt_reason of Some r \<Rightarrow> r | None \<Rightarrow> ''closed by router'');
          req_id = request_id (get_ctx s a);
          s1 = (if is_cli_req_not_start_to_send_to_tgt_yet (get_ctx s a)
                then (if code = 1011 then cli_fail_prior_to_tgt_res a (Some ''ws code 1011'') (Some 502) s
                      else if code = 1008 then cli_fail_prior_to_tgt_res a (Some ''ws code 1008'') (Some 400) s
                      else s)
                else s);
          s2 = (if \<not> chan_closed (tgt_res_hdr (get_ctx s1 a)) \<or> \<not> chan_closed (tgt_res_bdy (get_ctx s1 a))
                then let s1' = (if code = 1000 then s1
                       else upd_ctx a (send_err_both (crex_new (''upstream server error: ws code='' @ show_nat code @
                              '', reason='' @ reason))) s1)
                     in upd_ctx a (\<lambda>c. c\<lparr>tgt_res_hdr := chan_close (tgt_res_hdr c), tgt_res_bdy := chan_close (tgt_res_bdy c)\<rparr>) s1'
                else s1);
          (s3, may_ex) = raise_completion_event E (Some req_id) s2;
          s4 = try_spawn_remove_req_ctx req_id s3
      in case may_ex of
           Inr _ \<Rightarrow> (s4, Inr ())
         | Inl crex \<Rightarrow> (upd_ctx a (\<lambda>c. c\<lparr>ctx_error := Some crex\<rparr>) s4, Inl crex))"

text \<open>The error the client is given for an error of the socket.\<close>

definition error_for_client :: "ctx \<Rightarrow> crex \<Rightarrow> crex" where
  "error_for_client c crex =
     (if opt_err_kind crex = Some Timeout_0001
      then (if is_cli_req_not_start_to_send_to_tgt_yet c then crex
            else prepend_str (append_str (with_status_code crex 504) ''closing cli req early due to timeout'')
                   ''504 Gateway Timeout'')
      else (if is_cli_req_not_start_to_send_to_tgt_yet c
            then prepend_str (with_status_code crex 502) ''502 Bad Gateway''
            else append_str crex ''closing cli req early due to cranker wss conn err''))"

definition notify_client_request_error :: "(ctx, 'm) sock_env \<Rightarrow> nat \<Rightarrow> crex \<Rightarrow> rs3 \<Rightarrow> rs3" where
  "notify_client_request_error E a crex s =
     (let s1 = upd_ctx a (\<lambda>c. c\<lparr>ctx_error := Some crex\<rparr>) s;
          s2 = upd_ctx a (send_err_both (error_for_client (get_ctx s1 a) crex)) s1;
          req_id = request_id (get_ctx s a);
          (s3, _) = raise_completion_event E (Some req_id) s2
      in try_spawn_remove_req_ctx req_id s3)"

section \<open>Frames from the connector\<close>

definition check_if_tgt_can_send_res_first :: "nat \<Rightarrow> i32 \<Rightarrow> rs3 \<Rightarrow> unit res" where
  "check_if_tgt_can_send_res_first a req_id s =
     (if \<not> is_tgt_can_send_res_now (get_ctx s a)
      then Inl (crex_new (''recv data/bin before handle cli req. route = '' @ r3_route s @ '' , router socket id = '' @
             r3_router_socket_id s @ '' , req id = '' @ show_int (sint req_id)))
      else Inr ())"

text \<open>A chunk of the response goes to the body channel; the connector is then credited its length.\<close>

definition deliver_body :: "(ctx, 'm) sock_env \<Rightarrow> nat \<Rightarrow> bool \<Rightarrow> i32 \<Rightarrow> bytes \<Rightarrow> rs3 \<Rightarrow> rs3 \<times> unit res" where
  "deliver_body E a is_end_stream req_id bin s =
     (case chan_send (tgt_res_bdy (get_ctx s a)) (Inr bin) of
        (q, True) \<Rightarrow>
          let s1 = upd_ctx a (\<lambda>c. c\<lparr>tgt_res_bdy := q\<rparr>) s;
              s2 = (if is_end_stream then fst (notify_client_request_close E a 1000 None s1) else s1);
              s3 = upd_ctx a (\<lambda>c. c\<lparr>to_client_bytes := to_client_bytes c + of_nat (length bin)\<rparr>) s2
          in (fst (send_data E (WBinary (window_update_message req_id (of_nat (length bin)))) s3), Inr ())
      | (q, False) \<Rightarrow>
          let crex = crex_new (''rare ex failed to send bin to tgt_res_bdy chan: '' @ dbg_send_error E)
          in (try_provide_general_error (Some crex) s, Inl crex))"

text \<open>The listeners that asked for response chunks; an error of theirs replaces the result.\<close>

definition response_chunk_hooks :: "(ctx, 'm) sock_env \<Rightarrow> nat \<Rightarrow> bytes \<Rightarrow> rs3 \<times> unit res \<Rightarrow> rs3 \<times> unit res" where
  "response_chunk_hooks E a bin sr =
     (if r3_needs_response_chunk (fst sr)
      then (case all_hooks (\<lambda>l. on_response_body_chunk_received_from_target l (get_ctx (fst sr) a) bin)
                   (filter really_need_on_response_body_chunk (env_listeners E)) of
              Inl e \<Rightarrow> (fst sr, Inl e)
            | Inr _ \<Rightarrow> sr)
      else sr)"

definition handle_data :: "(ctx, 'm) sock_env \<Rightarrow> nat \<Rightarrow> u8 \<Rightarrow> i32 \<Rightarrow> bytes \<Rightarrow> rs3 \<Rightarrow> rs3 \<times> unit res" where
  "handle_data E a flags req_id bin s =
     (case check_if_tgt_can_send_res_first a req_id s of
        Inl e \<Rightarrow> (s, Inl e)
      | Inr _ \<Rightarrow>
          let is_end_stream = judge_is_stream_end_from_flags flags;
              s1 = (if is_end_stream then upd_ctx a (\<lambda>c. c\<lparr>is_end_stream_received_from_tgt := True\<rparr>) s else s)
          in if length bin = 0
             then (if is_end_stream then fst (notify_client_request_close E a 1000 None s1) else s1, Inr ())
             else response_chunk_hooks E a bin
                    (deliver_body E a is_end_stream req_id bin
                      (upd_ctx a (\<lambda>c. c\<lparr>wss_on_binary_call_count := wss_on_binary_call_count c + 1\<rparr>) s1)))"

text \<open>A part of the header is appended; with the last part the whole text goes to the header channel.\<close>

definition take_header_text :: "(ctx, 'm) sock_env \<Rightarrow> nat \<Rightarrow> bool \<Rightarrow> string \<Rightarrow> rs3 \<Rightarrow> rs3 \<times> unit res" where
  "take_header_text E a is_header_end content s =
     (let s1 = upd_ctx a (\<lambda>c. c\<lparr>header_line_builder := header_line_builder c @ content\<rparr>) s
      in if is_header_end
         then (case chan_send (tgt_res_hdr (get_ctx s1 a)) (Inr (header_line_builder (get_ctx s1 a))) of
                 (q, True) \<Rightarrow> (upd_ctx a (\<lambda>c. c\<lparr>tgt_res_hdr := q\<rparr>) s1, Inr ())
               | (q, False) \<Rightarrow> (s1, Inl (crex_new (''failed to send header text : '' @ dbg_send_error E))))
         else (s1, Inr ()))"

text \<open>The conversions of a header frame; one of \<open>2 ^ 31\<close> bytes or more has no 32 bit length.\<close>

definition header_frame_text :: "(ctx, 'm) sock_env \<Rightarrow> i32 \<Rightarrow> bytes \<Rightarrow> rs3 \<Rightarrow> string res" where
  "header_frame_text E req_id bin s =
     (let where_text = ''req id = '' @ show_int (sint req_id) @ '' , router socket id = '' @
            r3_router_socket_id s @ '' , route = '' @ r3_route s
      in if length bin \<ge> 2 ^ 31
         then Inl (crex_new (''failed to handle remaining bin msg len, it's even larger than i32::MAX ? ex : TryFromIntError(()) , ''
                @ where_text))
         else case from_utf8 bin of
                None \<Rightarrow> Inl (crex_new (''failed to convert binary to header text in utf8 : '' @ dbg_utf8_error E bin @ '', '' @ where_text))
              | Some content \<Rightarrow> Inr content)"

definition handle_header :: "(ctx, 'm) sock_env \<Rightarrow> nat \<Rightarrow> u8 \<Rightarrow> i32 \<Rightarrow> bytes \<Rightarrow> rs3 \<Rightarrow> rs3 \<times> unit res" where
  "handle_header E a flags req_id bin s =
     (case check_if_tgt_can_send_res_first a req_id s of
        Inl e \<Rightarrow> (s, Inl e)
      | Inr _ \<Rightarrow>
          let is_stream_end = judge_is_stream_end_from_flags flags;
              s1 = (if is_stream_end then upd_ctx a (\<lambda>c. c\<lparr>is_end_stream_received_from_tgt := True\<rparr>) s else s)
          in case header_frame_text E req_id bin s1 of
               Inl e \<Rightarrow> (s1, Inl e)
             | Inr content \<Rightarrow>
                 (case take_header_text E a (judge_is_header_end_from_flags flags) content s1 of
                    (s2, Inl e) \<Rightarrow> (s2, Inl e)
                  | (s2, Inr _) \<Rightarrow>
                      send_data E (WBinary (window_update_message req_id (of_nat (length bin))))
                        (if is_stream_end then fst (notify_client_request_close E a 1000 None s2) else s2)))"

definition handle_rst_stream :: "(ctx, 'm) sock_env \<Rightarrow> nat \<Rightarrow> i32 \<Rightarrow> bytes \<Rightarrow> rs3 \<Rightarrow> (rs3 \<times> unit res) outcome" where
  "handle_rst_stream E a req_id bin s =
     bind_outcome (get_error_code bin) (\<lambda>(error_code, rest).
       let error_message = get_error_message rest
       in Ret (notify_client_request_error E a (crex_new (''stream closed by connector, error code: '' @
            show_int (sint error_code) @ '', error message: '' @ error_message @ '', req id = '' @ show_int (sint req_id) @
            '' , router socket id = '' @ r3_router_socket_id s @ '' , route = '' @ r3_route s)) s, Inr ()))"

text \<open>Reading the window from fewer than four bytes panics.\<close>

definition handle_window_update :: "nat \<Rightarrow> bytes \<Rightarrow> rs3 \<Rightarrow> (rs3 \<times> unit res) outcome" where
  "handle_window_update a bin s =
     bind_outcome (get_i32 bin) (\<lambda>(window_update, rest).
       Ret (upd_ctx a (target_connector_ack_bytes window_update) s, Inr ()))"

definition dispatch_frame ::
    "(ctx, 'm) sock_env \<Rightarrow> u8 \<Rightarrow> u8 \<Rightarrow> i32 \<Rightarrow> bytes \<Rightarrow> nat \<Rightarrow> rs3 \<Rightarrow> (rs3 \<times> unit res) outcome" where
  "dispatch_frame E msg_type flags req_id bin a s =
     (if msg_type = MESSAGE_TYPE_DATA then Ret (handle_data E a flags req_id bin s)
      else if msg_type = MESSAGE_TYPE_HEADER then Ret (handle_header E a flags req_id bin s)
      else if msg_type = MESSAGE_TYPE_RST_STREAM then handle_rst_stream E a req_id bin s
      else if msg_type = MESSAGE_TYPE_WINDOW_UPDATE then handle_window_update a bin s
      else Ret (s, Inr ()))"

definition on_binary :: "(ctx, 'm) sock_env \<Rightarrow> bytes \<Rightarrow> rs3 \<Rightarrow> (rs3 \<times> unit res) outcome" where
  "on_binary E binary_msg s =
     bind_outcome (decode_frame binary_msg) (\<lambda>d. case d of
       Dropped _ \<Rightarrow> Ret (s, Inr ())
     | Frame msg_type flags req_id bin \<Rightarrow>
         (case check_if_context_exists req_id s of
            Inl _ \<Rightarrow> Ret (s, Inr ())
          | Inr a \<Rightarrow>
              bind_outcome (dispatch_frame E msg_type flags req_id bin a s) (\<lambda>(s1, bin_handle_res).
                case bin_handle_res of
                  Inr _ \<Rightarrow> Ret (s1, Inr ())
                | Inl crex \<Rightarrow>
                    Ret (reset_stream E a 1001 ''Going away'' (notify_client_request_error E a crex s1), Inr ()))))"

section \<open>Other websocket events\<close>

definition on_text :: "string \<Rightarrow> rs3 \<Rightarrow> rs3 \<times> unit res" where
  "on_text text_msg s = (s, Inr ())"

definition r3_on_error :: "(ctx, 'm) sock_env \<Rightarrow> crex \<Rightarrow> rs3 \<Rightarrow> rs3 \<times> unit res" where
  "r3_on_error E err s =
     (case chan_send (r3_err_chan s) err of
        (q, True) \<Rightarrow> (s\<lparr>r3_err_chan := q\<rparr>, Inr ())
      | (q, False) \<Rightarrow> (s, Inl (crex_new (''rare ex that failed to send error to err chan: '' @ dbg_send_error E))))"

definition on_ping :: "(ctx, 'm) sock_env \<Rightarrow> (crex \<Rightarrow> string) \<Rightarrow> bytes \<Rightarrow> rs3 \<Rightarrow> rs3 \<times> unit res" where
  "on_ping E dbg_crex ping_msg s =
     (case send_data E (WPong ping_msg) s of
        (s1, Inl e) \<Rightarrow> r3_on_error E (crex_new (''failed to pong back '' @ dbg_crex e)) s1
      | (s1, Inr _) \<Rightarrow> (s1, Inr ()))"

definition remove_from_farm :: "rs3 \<Rightarrow> rs3" where
  "remove_from_farm s =
     (if \<not> r3_is_removed s
      then s\<lparr>r3_farm_removals := r3_farm_removals s @ (if r3_farm_alive s then [(r3_route s, r3_router_socket_id s)] else []),
             r3_is_removed := True\<rparr>
      else s)"

definition on_close :: "(ctx, 'm) sock_env \<Rightarrow> (nat \<times> string) option \<Rightarrow> rs3 \<Rightarrow> rs3 \<times> unit res" where
  "on_close E close_msg s =
     (let s1 = remove_from_farm s;
          (code, reason) = (case close_msg of Some (clo_code, clo_reason) \<Rightarrow> (clo_code, Some clo_reason) | None \<Rightarrow> (4000, None))
      in (foldl (\<lambda>s a. fst (notify_client_request_close E a code reason s)) s1 (map snd (context_map s1)), Inr ()))"

definition terminate_all_conn :: "(ctx, 'm) sock_env \<Rightarrow> crex option \<Rightarrow> rs3 \<Rightarrow> rs3 \<times> unit res" where
  "terminate_all_conn E opt_crex s =
     (let crex = (case opt_crex of Some e \<Rightarrow> e
            | None \<Rightarrow> crex_new ''terminating all connections on cranker router v3 for unknown reason'');
          s1 = foldl (\<lambda>s a. notify_client_request_error E a crex s) s (map snd (context_map s))
      in (if context_map s1 \<noteq> [] then s1\<lparr>context_map := []\<rparr> else s1, Inr ()))"

text \<open>Dropping the socket: the weak self-reference no longer upgrades, so only the send queue closes.\<close>

definition drop_rs3 :: "rs3 \<Rightarrow> rs3" where
  "drop_rs3 s = s\<lparr>r3_wss_send_task := chan_close (r3_wss_send_task s)\<rparr>"

section \<open>Requests of clients\<close>

text \<open>
  The first steps of \<^verbatim>\<open>on_client_req\<close>: refuse on a removed socket, otherwise take the next id and
  register a new context under it. Gives the id and the reference.
\<close>

definition on_client_req_begin :: "(ctx, 'm) sock_env \<Rightarrow> string \<Rightarrow> orig_uri \<Rightarrow> rs3 \<Rightarrow> rs3 \<times> (i32 \<times> nat) res" where
  "on_client_req_begin E meth uri s =
     (if r3_is_removed s
      then (s, Inl (crex_new (''try to handle cli req in a is_removed router socket. router_socket_id='' @ r3_router_socket_id s)))
      else
        let req_id = req_id_generator s + 1; a = length (ctxs s)
        in (s\<lparr>req_id_generator := req_id, ctxs := ctxs s @ [ctx_new (env_now E) req_id meth uri],
              context_map := am_put (context_map s) req_id a\<rparr>, Inr (req_id, a)))"

text \<open>
  The head of \<^verbatim>\<open>send_request_over_websocket_v3\<close>: the headers for the target and the text of the
  request; a listener may refuse.
\<close>

definition request_head ::
    "('m, 'v) header_ops \<Rightarrow> string \<Rightarrow> (ctx, 'm) sock_env \<Rightarrow> ('l, 'f) router_config \<Rightarrow> string \<Rightarrow> string \<Rightarrow> orig_uri \<Rightarrow> 'm \<Rightarrow>
     string \<Rightarrow> bool \<Rightarrow> nat \<Rightarrow> rs3 \<Rightarrow> ('m \<times> string) res outcome" where
  "request_head H local_ip E cfg http_version meth uri headers ip is_tls a s =
     bind_outcome (set_target_request_headers H local_ip cfg headers (hm_new H) http_version ip uri is_tls)
       (\<lambda>(hdr, _).
          case before_proxy_hooks (env_listeners E) (get_ctx s a) hdr of
            (hdr', Inl e) \<Rightarrow> Ret (Inl e)
          | (hdr', Inr _) \<Rightarrow>
              Ret (Inr (hdr', create_request_line meth uri @ [newline] @ build_header_str H hdr' @ [newline])))"

text \<open>The header frames, each counted before it is sent.\<close>

fun send_header_frames :: "(ctx, 'm) sock_env \<Rightarrow> nat \<Rightarrow> bytes list \<Rightarrow> rs3 \<Rightarrow> rs3 \<times> unit res" where
  "send_header_frames E a [] s = (s, Inr ())"
| "send_header_frames E a (hb # hbs) s =
     (let payload_len = of_nat (length hb - HEADER_LEN_IN_BYTES);
          s1 = upd_ctx a (inc_rtr_to_tgt_pending_ack_bytes payload_len) s
      in case send_data E (WBinary hb) s1 of
           (s2, Inl e) \<Rightarrow> (s2, Inl e)
         | (s2, Inr _) \<Rightarrow>
             send_header_frames E a hbs
               (upd_ctx a (\<lambda>c. c\<lparr>from_client_bytes := from_client_bytes c + word_of_int (sint payload_len)\<rparr>) s2))"

text \<open>
  The task that sends a request: it starts with the header frames, sends the body's chunks, may
  wait for the connector's acknowledgement, and ends. The client's body is the list of the chunks,
  or errors, that reading it gives.
\<close>

datatype part_one =
    P1_Start string "bytes res list option"
  | P1_Body "bytes res list"
  | P1_Wait nat "bytes res list"
  | P1_Finish bool
  | P1_Done "unit res"

definition part_one_start ::
    "(ctx, 'm) sock_env \<Rightarrow> nat \<Rightarrow> i32 \<Rightarrow> string \<Rightarrow> bytes res list option \<Rightarrow> rs3 \<Rightarrow> part_one \<times> rs3" where
  "part_one_start E a req_id header_text opt_body s =
     (let frames = header_messages req_id True (opt_body = None) header_text;
          s1 = upd_ctx a (\<lambda>c. c\<lparr>is_tgt_can_send_res_now := True\<rparr>) s
      in case send_header_frames E a frames s1 of
           (s2, Inl e) \<Rightarrow> (P1_Done (Inl e), s2)
         | (s2, Inr _) \<Rightarrow> ((case opt_body of None \<Rightarrow> P1_Finish False | Some body \<Rightarrow> P1_Body body), s2))"

definition part_one_chunk ::
    "(ctx, 'm) sock_env \<Rightarrow> nat \<Rightarrow> i32 \<Rightarrow> bytes \<Rightarrow> bytes res list \<Rightarrow> rs3 \<Rightarrow> part_one \<times> rs3" where
  "part_one_chunk E a req_id chunk rest s =
     (case all_hooks (\<lambda>l. on_before_request_body_chunk_sent_to_target l (get_ctx s a) chunk) (env_listeners E) of
        Inl e \<Rightarrow> (P1_Done (Inl e), s)
      | Inr _ \<Rightarrow>
          let data = data_messages req_id False (Some chunk);
              s1 = upd_ctx a (inc_rtr_to_tgt_pending_ack_bytes (of_nat (length data - HEADER_LEN_IN_BYTES))) s
          in case send_data E (WBinary data) s1 of
               (s2, Inl e) \<Rightarrow> (P1_Done (Inl e), s2)
             | (s2, Inr _) \<Rightarrow>
                 let s3 = upd_ctx a (\<lambda>c. c\<lparr>from_client_bytes := from_client_bytes c + of_nat (length chunk)\<rparr>) s2
                 in case (if r3_needs_request_chunk s3
                          then all_hooks (\<lambda>l. on_request_body_chunk_sent_to_target l (get_ctx s3 a) chunk)
                                 (filter really_need_on_request_body_chunk (env_listeners E))
                          else Inr ()) of
                      Inl e \<Rightarrow> (P1_Done (Inl e), s3)
                    | Inr _ \<Rightarrow>
                        if is_wss_writable (get_ctx s3 a) then (P1_Body rest, s3)
                        else (case register_callback (get_ctx s3 a) of
                                (c, None) \<Rightarrow> (P1_Done (Inl (crex_new (''failed to send to should_keep_read_from_cli_tx: '' @ dbg_send_error E))), s3)
                              | (c, Some cb) \<Rightarrow> (P1_Wait cb rest, upd_ctx a (\<lambda>_. write_it_maybe c) s3)))"

definition part_one_finish ::
    "(ctx, 'm) sock_env \<Rightarrow> 'm \<Rightarrow> nat \<Rightarrow> i32 \<Rightarrow> bool \<Rightarrow> rs3 \<Rightarrow> part_one \<times> rs3" where
  "part_one_finish E hdr_to_tgt a req_id has_body s =
     (case (if has_body then send_data E (WBinary (data_messages req_id True None)) s else (s, Inr ())) of
        (s1, Inl e) \<Rightarrow> (P1_Done (Inl e), s1)
      | (s1, Inr _) \<Rightarrow>
          (P1_Done (all_hooks
             (\<lambda>l. case on_after_proxy_to_target_headers_sent l (get_ctx s1 a) hdr_to_tgt of
                     Inl e \<Rightarrow> Inl e
                   | Inr _ \<Rightarrow> on_request_body_sent_to_target l (get_ctx s1 a)) (env_listeners E)), s1))"

text \<open>One turn of \<^verbatim>\<open>split_part_one_send_or_err\<close>. A waiting task moves only once its callback has fired.\<close>

fun part_one_step :: "(ctx, 'm) sock_env \<Rightarrow> 'm \<Rightarrow> nat \<Rightarrow> i32 \<Rightarrow> part_one \<Rightarrow> rs3 \<Rightarrow> part_one \<times> rs3" where
  "part_one_step E hdr a req_id (P1_Start header_text opt_body) s = part_one_start E a req_id header_text opt_body s"
| "part_one_step E hdr a req_id (P1_Body []) s = (P1_Finish True, s)"
| "part_one_step E hdr a req_id (P1_Body (Inl e # rest)) s =
     (P1_Done (Inl (with_err_kind e ClientRequestBodyReadError_0010)), s)"
| "part_one_step E hdr a req_id (P1_Body (Inr chunk # rest)) s = part_one_chunk E a req_id chunk rest s"
| "part_one_step E hdr a req_id (P1_Wait cb rest) s =
     (if cb \<in> set (fired (get_ctx s a)) then (P1_Body rest, s) else (P1_Wait cb rest, s))"
| "part_one_step E hdr a req_id (P1_Finish has_body) s = part_one_finish E hdr a req_id has_body s"
| "part_one_step E hdr a req_id (P1_Done r) s = (P1_Done r, s)"

text \<open>What the spawned task does with the result.\<close>

definition part_one_result :: "(ctx, 'm) sock_env \<Rightarrow> nat \<Rightarrow> unit res \<Rightarrow> rs3 \<Rightarrow> rs3" where
  "part_one_result E a r s =
     (case r of
        Inr _ \<Rightarrow> s
      | Inl crex \<Rightarrow> if \<not> is_end_stream_received_from_tgt (get_ctx s a) then notify_client_request_error E a crex s else s)"

section \<open>Responses to clients\<close>

datatype 'a poll = NotReady | Ready 'a

text \<open>
  \<^verbatim>\<open>split_part_two_recv_and_res\<close>: the first value of the header channel decides. The response is its
  status and headers; its body is what arrives on the body channel.
\<close>

definition split_part_two ::
    "('m, 'v) header_ops \<Rightarrow> (nat \<Rightarrow> bool) \<Rightarrow> (string \<Rightarrow> bool) \<Rightarrow> (string set \<Rightarrow> string list) \<Rightarrow>
     (ctx, 'm) sock_env \<Rightarrow> nat \<Rightarrow> rs3 \<Rightarrow> (rs3 \<times> (nat \<times> 'm) res) poll" where
  "split_part_two H valid_status valid_name iter E a s =
     (case chan_try_recv (tgt_res_hdr (get_ctx s a)) of
        None \<Rightarrow>
          if chan_closed (tgt_res_hdr (get_ctx s a))
          then Ready (s, Inl (crex_new (''failed to receive header from ctx: '' @ dbg_recv_error E))) else NotReady
      | Some (r, q) \<Rightarrow>
          let s1 = upd_ctx a (\<lambda>c. c\<lparr>tgt_res_hdr := q\<rparr>) s
          in Ready (s1,
            case r of Inl e \<Rightarrow> Inl e
            | Inr full_content \<Rightarrow>
              (case try_from_string (dbg_parse_int_error E) full_content of
                 Inl e \<Rightarrow> Inl e
               | Inr cpr \<Rightarrow>
                   (case response_build H valid_status valid_name (dbg_lines E) iter cpr of
                      Inl e \<Rightarrow> Inl e
                    | Inr res_builder \<Rightarrow>
                        (case all_hooks (\<lambda>l. case on_before_responding_to_client l (get_ctx s1 a) of
                              Inl e \<Rightarrow> Inl e
                            | Inr _ \<Rightarrow> on_after_target_to_proxy_headers_received l (get_ctx s1 a) (cr_status cpr)
                                        (map_option snd res_builder)) (env_listeners E) of
                           Inl e \<Rightarrow> Inl e
                         | Inr _ \<Rightarrow>
                             (case res_builder of
                                Some res \<Rightarrow> Inr res
                              | None \<Rightarrow> Inl (crex_new (''failed to build body: '' @ dbg_build_error E))))))))"

text \<open>The task that runs when the response body ends or the client goes away.\<close>

definition body_stream_ended :: "(ctx, 'm) sock_env \<Rightarrow> nat \<Rightarrow> i32 \<Rightarrow> rs3 \<Rightarrow> rs3" where
  "body_stream_ended E a req_id s =
     (if is_end_stream_received_from_tgt (get_ctx s a) then s
      else case check_if_context_exists req_id s of
             Inl _ \<Rightarrow> s
           | Inr b \<Rightarrow>
               reset_stream E b 1001 ''Going away''
                 (upd_ctx b (\<lambda>c. c\<lparr>ctx_error := Some (with_err_kind
                    (crex_new ''connection to client closed unexpectedly'') BrokenConnection_0011)\<rparr>) s))"

text \<open>What \<^verbatim>\<open>on_client_req\<close> does when the request failed.\<close>

definition on_client_req_failed :: "(ctx, 'm) sock_env \<Rightarrow> nat \<Rightarrow> crex \<Rightarrow> rs3 \<Rightarrow> rs3" where
  "on_client_req_failed E a crex s =
     (let s1 = notify_client_request_error E a crex s
      in case opt_err_kind crex of
           Some ProxyListenerError_0009 \<Rightarrow> reset_stream E a ERROR_INTERNAL ''Proxy listener error'' s1
         | Some ClientRequestBodyReadError_0010 \<Rightarrow> reset_stream E a ERROR_INTERNAL ''Client request body read error'' s1
         | _ \<Rightarrow> reset_stream E a 1001 ''Going away'' s1)"

section \<open>What a handler leaves alone\<close>

text \<open>
  \<open>quiet strict a s t\<close>: from \<open>s\<close> to \<open>t\<close> only the context \<open>a\<close> changed, not its id nor its reset flag; of
  the socket only the queue of frames grew, by frames that are no resets, and the records of tasks
  and completions. When not \<open>strict\<close>, the error field of other contexts may also have changed.
\<close>

definition forget_error :: "ctx \<Rightarrow> ctx" where
  "forget_error c = c\<lparr>ctx_error := None\<rparr>"

definition is_rst :: "ws_message \<Rightarrow> bool" where
  "is_rst m \<longleftrightarrow> (case m of WBinary (t # _) \<Rightarrow> t = MESSAGE_TYPE_RST_STREAM | _ \<Rightarrow> False)"

definition quiet :: "bool \<Rightarrow> nat \<Rightarrow> rs3 \<Rightarrow> rs3 \<Rightarrow> bool" where
  "quiet strict a s t \<longleftrightarrow>
     length (ctxs t) = length (ctxs s) \<and> context_map t = context_map s \<and> r3_is_removed t = r3_is_removed s \<and>
     r3_err_chan t = r3_err_chan s \<and> req_id_generator t = req_id_generator s \<and> r3_farm_removals t = r3_farm_removals s \<and>
     r3_route t = r3_route s \<and> r3_router_socket_id t = r3_router_socket_id s \<and>
     chan_closed (r3_wss_send_task t) = chan_closed (r3_wss_send_task s) \<and>
     (\<exists>ms. chan_items (r3_wss_send_task t) = chan_items (r3_wss_send_task s) @ ms \<and> (\<forall>m \<in> set ms. \<not> is_rst m)) \<and>
     (\<forall>b < length (ctxs s). request_id (ctxs t ! b) = request_id (ctxs s ! b) \<and>
        is_rst_stream_sent (ctxs t ! b) = is_rst_stream_sent (ctxs s ! b)) \<and>
     (\<forall>b < length (ctxs s). b \<noteq> a \<longrightarrow> forget_error (ctxs t ! b) = forget_error (ctxs s ! b) \<and>
        (strict \<longrightarrow> ctxs t ! b = ctxs s ! b))"

lemma quiet_refl [simp]: "quiet strict a s s"
  by (simp add: quiet_def)

lemma quiet_trans: "quiet strict a s t \<Longrightarrow> quiet strict a t u \<Longrightarrow> quiet strict a s u"
  unfolding quiet_def by (elim conjE exE) auto

lemma quiet_weaken: "quiet True a s t \<Longrightarrow> quiet strict a s t"
  unfolding quiet_def by auto

lemma quiet_upd:
  "request_id (f (ctxs s ! a)) = request_id (ctxs s ! a) \<Longrightarrow>
   is_rst_stream_sent (f (ctxs s ! a)) = is_rst_stream_sent (ctxs s ! a) \<Longrightarrow> quiet strict a s (upd_ctx a f s)"
  by (cases "a < length (ctxs s)") (auto simp: quiet_def upd_ctx_def nth_list_update)

lemma quiet_send: "\<not> is_rst m \<Longrightarrow> quiet strict a s (fst (send_data E m s))"
  by (auto simp: quiet_def send_data_def chan_send_def)

lemma quiet_spawn: "quiet strict a s (try_spawn_remove_req_ctx req_id s)"
  by (simp add: quiet_def try_spawn_remove_req_ctx_def)

lemma quiet_completions: "quiet strict a s t \<Longrightarrow> quiet strict a s (t\<lparr>r3_completions := x\<rparr>)"
  by (simp add: quiet_def)

lemma quiet_raise:
  "am_get (context_map s) req_id \<in> {None, Some a} \<Longrightarrow> quiet strict a s (fst (raise_completion_event E (Some req_id) s))"
  by (auto simp: raise_completion_event_def intro!: quiet_completions quiet_upd)

lemma raise_completion_ok [simp]: "snd (raise_completion_event E x s) = Inr ()"
  by (simp add: raise_completion_event_def split: option.split)

text \<open>The reference is the one registered under its context's id, or none is.\<close>

definition registered :: "nat \<Rightarrow> rs3 \<Rightarrow> bool" where
  "registered a s \<longleftrightarrow> am_get (context_map s) (request_id (ctxs s ! a)) \<in> {None, Some a}"

lemma quiet_registered: "quiet strict a s t \<Longrightarrow> a < length (ctxs s) \<Longrightarrow> registered a s \<Longrightarrow> registered a t"
  by (auto simp: quiet_def registered_def)

lemma quiet_request_id: "quiet strict a s t \<Longrightarrow> a < length (ctxs s) \<Longrightarrow> request_id (get_ctx t a) = request_id (get_ctx s a)"
  by (auto simp: quiet_def get_ctx_def)

lemma quiet_length: "quiet strict a s t \<Longrightarrow> length (ctxs t) = length (ctxs s)"
  by (simp add: quiet_def)

lemma send_err_both_simps [simp]:
  "request_id (send_err_both e c) = request_id c" "is_rst_stream_sent (send_err_both e c) = is_rst_stream_sent c"
  by (simp_all add: send_err_both_def)

lemma quiet_close:
  assumes "a < length (ctxs s)" "registered a s"
  shows "quiet strict a s (fst (notify_client_request_close E a wcode opt_reason s))"
proof -
  define s1 where "s1 = (if is_cli_req_not_start_to_send_to_tgt_yet (get_ctx s a)
      then (if wcode = 1011 then cli_fail_prior_to_tgt_res a (Some ''ws code 1011'') (Some 502) s
            else if wcode = 1008 then cli_fail_prior_to_tgt_res a (Some ''ws code 1008'') (Some 400) s else s) else s)"
  define r where "r = (case opt_reason of Some r \<Rightarrow> r | None \<Rightarrow> ''closed by router'')"
  define s1' where "s1' = (if wcode = 1000 then s1 else upd_ctx a (send_err_both (crex_new (''upstream server error: ws code='' @
      show_nat wcode @ '', reason='' @ r))) s1)"
  define s2 where "s2 = (if \<not> chan_closed (tgt_res_hdr (get_ctx s1 a)) \<or> \<not> chan_closed (tgt_res_bdy (get_ctx s1 a))
      then upd_ctx a (\<lambda>c. c\<lparr>tgt_res_hdr := chan_close (tgt_res_hdr c), tgt_res_bdy := chan_close (tgt_res_bdy c)\<rparr>) s1' else s1)"
  define id where "id = request_id (get_ctx s a)"
  have eq: "fst (notify_client_request_close E a wcode opt_reason s) =
      try_spawn_remove_req_ctx id (fst (raise_completion_event E (Some id) s2))"
    using raise_completion_ok [of E "Some id" s2]
    unfolding notify_client_request_close_def s2_def s1'_def s1_def id_def r_def Let_def
    by (simp only: split_beta) simp
  have q1: "quiet strict a s s1"
    by (auto simp: s1_def cli_fail_prior_to_tgt_res_def Let_def intro: quiet_upd)
  have q1': "quiet strict a s1 s1'"
    by (auto simp: s1'_def intro: quiet_upd)
  have "quiet strict a s1' (upd_ctx a (\<lambda>c. c\<lparr>tgt_res_hdr := chan_close (tgt_res_hdr c), tgt_res_bdy := chan_close (tgt_res_bdy c)\<rparr>) s1')"
    by (rule quiet_upd) simp_all
  with q1' have "quiet strict a s1 s2"
    by (auto simp: s2_def intro: quiet_trans)
  with q1 have q2: "quiet strict a s s2"
    by (rule quiet_trans)
  have "am_get (context_map s2) id \<in> {None, Some a}"
    using quiet_registered [OF q2 assms] quiet_request_id [OF q2 assms(1)] by (simp add: registered_def id_def get_ctx_def)
  then show ?thesis
    unfolding eq by (intro quiet_trans [OF quiet_trans [OF q2 quiet_raise] quiet_spawn])
qed

lemma quiet_error:
  assumes "a < length (ctxs s)" "registered a s"
  shows "quiet strict a s (notify_client_request_error E a crex s)"
proof -
  let ?s1 = "upd_ctx a (\<lambda>c. c\<lparr>ctx_error := Some crex\<rparr>) s"
  let ?s2 = "upd_ctx a (send_err_both (error_for_client (get_ctx ?s1 a) crex)) ?s1"
  let ?id = "request_id (get_ctx s a)"
  have q: "quiet strict a s ?s2"
    by (rule quiet_trans [OF quiet_upd quiet_upd]) simp_all
  have "am_get (context_map ?s2) ?id \<in> {None, Some a}"
    using quiet_registered [OF q assms] quiet_request_id [OF q assms(1)] by (simp add: registered_def get_ctx_def)
  then have "quiet strict a s (try_spawn_remove_req_ctx ?id (fst (raise_completion_event E (Some ?id) ?s2)))"
    by (intro quiet_trans [OF quiet_trans [OF q quiet_raise] quiet_spawn])
  then show ?thesis
    by (simp add: notify_client_request_error_def Let_def split_beta)
qed

lemma not_rst_frames [simp]:
  "\<not> is_rst (WBinary (window_update_message k w))" "\<not> is_rst (WBinary (data_messages k e d))"
  "\<not> is_rst (WPong p)"
  by (simp_all add: is_rst_def window_update_message_def data_messages_def MESSAGE_TYPE_RST_STREAM_def
      MESSAGE_TYPE_WINDOW_UPDATE_def MESSAGE_TYPE_DATA_def)

lemma not_rst_header: "\<forall>f \<in> set (header_messages k h e t). \<not> is_rst (WBinary f)"
proof -
  have one: "\<not> is_rst (WBinary (header_message k h e t))" for k h e t
    by (simp add: header_message_def is_rst_def MESSAGE_TYPE_RST_STREAM_def MESSAGE_TYPE_HEADER_def Let_def)
  have "\<forall>f \<in> set (header_chunk_frames k e cs). \<not> is_rst (WBinary f)" for k e cs
    by (induction k e cs rule: header_chunk_frames.induct) (auto simp: one)
  with one show ?thesis by (auto simp: header_messages_def)
qed

text \<open>A store of the same error into the contexts of a list of references.\<close>

lemma provide_error_fold:
  "let t = foldl (\<lambda>s a. upd_ctx a (\<lambda>c. c\<lparr>ctx_error := Some e\<rparr>) s) s as
   in quiet False a s t \<and> (\<forall>b < length (ctxs s). forget_error (ctxs t ! b) = forget_error (ctxs s ! b))"
proof (induction as arbitrary: s)
  case (Cons x as)
  let ?s = "upd_ctx x (\<lambda>c. c\<lparr>ctx_error := Some e\<rparr>) s"
  have "quiet False a s ?s"
    by (cases "x < length (ctxs s)") (auto simp: quiet_def upd_ctx_def nth_list_update forget_error_def)
  moreover have "\<forall>b < length (ctxs s). forget_error (ctxs ?s ! b) = forget_error (ctxs s ! b)"
    by (cases "x < length (ctxs s)") (auto simp: upd_ctx_def nth_list_update forget_error_def)
  moreover have "length (ctxs ?s) = length (ctxs s)"
    by (simp add: upd_ctx_def)
  ultimately show ?case
    using Cons.IH [of ?s] by (auto simp: Let_def intro: quiet_trans)
qed simp

lemma quiet_provide_error: "quiet False a s (try_provide_general_error x s)"
  using provide_error_fold [of _ s "map snd (context_map s)" a]
  by (auto simp: try_provide_general_error_def Let_def split: option.splits)

lemma quiet_upd_then:
  "quiet strict a s t \<Longrightarrow> request_id (f (ctxs t ! a)) = request_id (ctxs t ! a) \<Longrightarrow>
   is_rst_stream_sent (f (ctxs t ! a)) = is_rst_stream_sent (ctxs t ! a) \<Longrightarrow> quiet strict a s (upd_ctx a f t)"
  by (rule quiet_trans [OF _ quiet_upd])

lemma quiet_close_then:
  "quiet strict a s t \<Longrightarrow> a < length (ctxs s) \<Longrightarrow> registered a s \<Longrightarrow>
   quiet strict a s (fst (notify_client_request_close E a wcode opt_reason t))"
  by (metis quiet_close quiet_length quiet_registered quiet_trans)

lemma quiet_deliver_body:
  assumes "a < length (ctxs s)" "registered a s"
    and "strict \<Longrightarrow> \<not> chan_closed (tgt_res_bdy (get_ctx s a))"
  shows "quiet strict a s (fst (deliver_body E a is_end req_id bin s))"
proof (cases "chan_closed (tgt_res_bdy (get_ctx s a))")
  case True
  with assms(3) have "\<not> strict" by blast
  with True show ?thesis
    by (simp add: deliver_body_def chan_send_def Let_def quiet_provide_error)
next
  case False
  define q where "q = fst (chan_send (tgt_res_bdy (get_ctx s a)) (Inr bin))"
  have snd: "chan_send (tgt_res_bdy (get_ctx s a)) (Inr bin) = (q, True)"
    using False by (simp add: q_def chan_send_def)
  have q1: "quiet strict a s (upd_ctx a (\<lambda>c. c\<lparr>tgt_res_bdy := q\<rparr>) s)"
    by (rule quiet_upd) simp_all
  from quiet_close_then [OF q1 assms(1,2), where E = E] q1 show ?thesis
    unfolding deliver_body_def snd Let_def prod.case bool.case fst_conv
    by (intro quiet_trans [OF quiet_upd_then quiet_send]) (simp_all split: if_split)
qed

lemma quiet_handle_data:
  assumes "a < length (ctxs s)" "registered a s"
    and "strict \<Longrightarrow> \<not> chan_closed (tgt_res_bdy (get_ctx s a))"
  shows "quiet strict a s (fst (handle_data E a flags req_id bin s))"
proof (cases "check_if_tgt_can_send_res_first a req_id s")
  case (Inr u)
  define s1 where "s1 = (if judge_is_stream_end_from_flags flags
    then upd_ctx a (\<lambda>c. c\<lparr>is_end_stream_received_from_tgt := True\<rparr>) s else s)"
  define s2 where "s2 = upd_ctx a (\<lambda>c. c\<lparr>wss_on_binary_call_count := wss_on_binary_call_count c + 1\<rparr>) s1"
  have q1: "quiet strict a s s1" by (auto simp: s1_def intro: quiet_upd)
  then have q2: "quiet strict a s s2"
    unfolding s2_def by (rule quiet_upd_then) simp_all
  have "strict \<Longrightarrow> \<not> chan_closed (tgt_res_bdy (get_ctx s2 a))"
    using assms(1,3) by (simp add: s2_def s1_def upd_ctx_def get_ctx_def)
  then have "quiet strict a s2 (fst (deliver_body E a is_end req_id bin s2))" for is_end
    using assms q2 by (intro quiet_deliver_body) (auto simp: quiet_length intro: quiet_registered)
  with q2 have "quiet strict a s (fst (response_chunk_hooks E a bin (deliver_body E a is_end req_id bin s2)))" for is_end
    by (simp add: response_chunk_hooks_def split: sum.split) (blast intro: quiet_trans)
  with q1 quiet_close_then [OF q1 assms(1,2), where E = E] Inr show ?thesis
    unfolding handle_data_def Let_def s1_def [symmetric] s2_def [symmetric] by simp
qed (simp add: handle_data_def)

lemma quiet_take_header_text: "quiet strict a s (fst (take_header_text E a is_header_end content s))"
proof -
  let ?s1 = "upd_ctx a (\<lambda>c. c\<lparr>header_line_builder := header_line_builder c @ content\<rparr>) s"
  have q1: "quiet strict a s ?s1" by (rule quiet_upd) simp_all
  then have "quiet strict a s (upd_ctx a (\<lambda>c. c\<lparr>tgt_res_hdr := q\<rparr>) ?s1)" for q
    by (rule quiet_upd_then) simp_all
  with q1 show ?thesis
    by (simp add: take_header_text_def Let_def chan_send_def)
qed

lemma quiet_handle_header:
  assumes "a < length (ctxs s)" "registered a s"
  shows "quiet strict a s (fst (handle_header E a flags req_id bin s))"
proof (cases "check_if_tgt_can_send_res_first a req_id s")
  case (Inr u)
  define s1 where "s1 = (if judge_is_stream_end_from_flags flags
    then upd_ctx a (\<lambda>c. c\<lparr>is_end_stream_received_from_tgt := True\<rparr>) s else s)"
  have q1: "quiet strict a s s1" by (auto simp: s1_def intro: quiet_upd)
  show ?thesis
  proof (cases "header_frame_text E req_id bin s1")
    case (Inl e)
    with Inr q1 show ?thesis
      unfolding handle_header_def Let_def s1_def [symmetric] by simp
  next
    case content: (Inr content)
    obtain s2 r2 where s2: "take_header_text E a (judge_is_header_end_from_flags flags) content s1 = (s2, r2)"
      by (cases "take_header_text E a (judge_is_header_end_from_flags flags) content s1")
    have q2: "quiet strict a s s2"
      using quiet_trans [OF q1 quiet_take_header_text, of E "judge_is_header_end_from_flags flags" content] by (simp add: s2)
    note q3 = quiet_close_then [OF q2 assms, where E = E]
    show ?thesis
    proof (cases r2)
      case (Inl e)
      with Inr content s2 q2 show ?thesis
        unfolding handle_header_def Let_def s1_def [symmetric] by simp
    next
      case ok: (Inr u2)
      from Inr content s2 ok have "handle_header E a flags req_id bin s =
          send_data E (WBinary (window_update_message req_id (of_nat (length bin))))
            (if judge_is_stream_end_from_flags flags then fst (notify_client_request_close E a 1000 None s2) else s2)"
        unfolding handle_header_def Let_def s1_def [symmetric] by simp
      then show ?thesis
        using quiet_trans [OF q2 quiet_send [where E = E]] quiet_trans [OF q3 quiet_send [where E = E]] by simp
    qed
  qed
qed (simp add: handle_header_def)

lemma target_connector_ack_bytes_simps [simp]:
  "request_id (target_connector_ack_bytes w c) = request_id c"
  "is_rst_stream_sent (target_connector_ack_bytes w c) = is_rst_stream_sent c"
  by (simp_all add: target_connector_ack_bytes_def Let_def write_it_maybe_spec)

lemma quiet_dispatch:
  assumes "a < length (ctxs s)" "registered a s"
    and "strict \<Longrightarrow> \<not> chan_closed (tgt_res_bdy (get_ctx s a))"
    and "dispatch_frame E msg_type flags req_id bin a s = Ret (t, r)"
  shows "quiet strict a s t"
  using assms(4) quiet_handle_data [where strict = strict and E = E and flags = flags and req_id = req_id and bin = bin, OF assms(1,2)] assms(3)
    quiet_handle_header [where strict = strict and E = E and flags = flags and req_id = req_id and bin = bin, OF assms(1,2)]
    quiet_error [where strict = strict and E = E, OF assms(1,2)]
  by (auto simp: dispatch_frame_def handle_rst_stream_def handle_window_update_def bind_outcome_Ret_iff Let_def
      intro: quiet_upd split: if_splits)

section \<open>The steps of a socket\<close>

text \<open>
  Everything that can happen to a socket, in any order: events of the websocket, requests of
  clients and the tasks that serve them, spawned removals, and its end; and the steps of the tasks that
  send requests. The environments \<open>Es\<close> differ in their time. A socket serves fewer than \<open>2 ^ 32\<close>
  requests, so that ids do not repeat.
\<close>

inductive v3_event :: "('m, 'v) header_ops \<Rightarrow> (ctx, 'm) sock_env set \<Rightarrow> rs3 \<Rightarrow> rs3 \<Rightarrow> bool" for H Es where
  binary: "E \<in> Es \<Longrightarrow> on_binary E bin s = Ret (t, r) \<Longrightarrow> v3_event H Es s t"
| ping: "E \<in> Es \<Longrightarrow> v3_event H Es s (fst (on_ping E dbg p s))"
| close: "E \<in> Es \<Longrightarrow> v3_event H Es s (fst (on_close E frame s))"
| err: "E \<in> Es \<Longrightarrow> v3_event H Es s (fst (r3_on_error E e s))"
| general_error: "v3_event H Es s (try_provide_general_error opt s)"
| close_queue: "v3_event H Es s (drop_rs3 s)"
| terminate: "E \<in> Es \<Longrightarrow> v3_event H Es s (fst (terminate_all_conn E opt s))"
| removal: "v3_event H Es s (run_removal s)"
| client: "E \<in> Es \<Longrightarrow> length (ctxs s) < 2 ^ 32 - 1 \<Longrightarrow> v3_event H Es s (fst (on_client_req_begin E meth uri s))"
| sender_result: "E \<in> Es \<Longrightarrow> a < length (ctxs s) \<Longrightarrow> v3_event H Es s (part_one_result E a r s)"
| responder: "E \<in> Es \<Longrightarrow> a < length (ctxs s) \<Longrightarrow>
    split_part_two H valid_status valid_name iter E a s = Ready (t, r) \<Longrightarrow> v3_event H Es s t"
| client_gone: "E \<in> Es \<Longrightarrow> a < length (ctxs s) \<Longrightarrow> v3_event H Es s (body_stream_ended E a req_id s)"
| client_failed: "E \<in> Es \<Longrightarrow> a < length (ctxs s) \<Longrightarrow> v3_event H Es s (on_client_req_failed E a e s)"

inductive v3_step :: "('m, 'v) header_ops \<Rightarrow> (ctx, 'm) sock_env set \<Rightarrow> rs3 \<Rightarrow> rs3 \<Rightarrow> bool" for H Es where
  event: "v3_event H Es s t \<Longrightarrow> v3_step H Es s t"
| sender: "E \<in> Es \<Longrightarrow> a < length (ctxs s) \<Longrightarrow> req_id = request_id (get_ctx s a) \<Longrightarrow>
    v3_step H Es s (snd (part_one_step E hdr a req_id pc s))"

section \<open>The invariant of a socket\<close>

definition map_ok :: "rs3 \<Rightarrow> bool" where
  "map_ok s \<longleftrightarrow> am_ok (context_map s) \<and>
     (\<forall>(k, a) \<in> set (context_map s). a < length (ctxs s) \<and> request_id (ctxs s ! a) = k)"

definition ids_ok :: "rs3 \<Rightarrow> bool" where
  "ids_ok s \<longleftrightarrow> length (ctxs s) < 2 ^ 32 \<and> req_id_generator s = of_nat (length (ctxs s)) \<and>
     (\<forall>i < length (ctxs s). request_id (ctxs s ! i) = of_nat (Suc i))"

text \<open>The reset frames of a request among the frames queued so far.\<close>

definition rst_for :: "i32 \<Rightarrow> ws_message \<Rightarrow> bool" where
  "rst_for k m \<longleftrightarrow> (case m of WBinary b \<Rightarrow> (case decode_frame b of Ret (Frame t f r p) \<Rightarrow> t = MESSAGE_TYPE_RST_STREAM \<and> r = k | _ \<Rightarrow> False)
                    | _ \<Rightarrow> False)"

definition rst_count :: "i32 \<Rightarrow> rs3 \<Rightarrow> nat" where
  "rst_count k s = length (filter (rst_for k) (chan_items (r3_wss_send_task s)))"

definition rst_ok :: "rs3 \<Rightarrow> bool" where
  "rst_ok s \<longleftrightarrow>
     (\<forall>i < length (ctxs s). rst_count (request_id (ctxs s ! i)) s \<le> (if is_rst_stream_sent (ctxs s ! i) then 1 else 0)) \<and>
     (\<forall>k. 0 < rst_count k s \<longrightarrow> (\<exists>i < length (ctxs s). request_id (ctxs s ! i) = k))"

definition v3_inv :: "rs3 \<Rightarrow> bool" where
  "v3_inv s \<longleftrightarrow> map_ok s \<and> ids_ok s \<and> rst_ok s"

lemma rst_for_is_rst: "rst_for k m \<Longrightarrow> is_rst m"
  by (auto simp: rst_for_def is_rst_def decode_frame_Frame_iff split: ws_message.splits outcome.splits decoded.splits)

lemma rst_for_rst_message [simp]: "rst_for k (WBinary (rst_message k' err msg)) \<longleftrightarrow> k = k'"
  using decode_frame_bytes [of MESSAGE_TYPE_RST_STREAM 0 k' "put_i32 err @ as_bytes msg"]
  by (auto simp: rst_for_def rst_message_def)

lemma ids_inj:
  assumes "ids_ok s" "i < length (ctxs s)" "j < length (ctxs s)" "request_id (ctxs s ! i) = request_id (ctxs s ! j)"
  shows "i = j"
proof -
  from assms have "(of_nat (Suc i) :: i32) = of_nat (Suc j)" "Suc i < 2 ^ 32" "Suc j < 2 ^ 32"
    by (auto simp: ids_ok_def)
  then have "Suc i = Suc j"
    by (simp only: word_of_nat_eq_iff) (simp add: take_bit_nat_eq_self del: of_nat_Suc)
  then show ?thesis by simp
qed

lemma registered_all: "v3_inv s \<Longrightarrow> a < length (ctxs s) \<Longrightarrow> registered a s"
proof -
  assume inv: "v3_inv s" and a: "a < length (ctxs s)"
  show ?thesis
  proof (cases "am_get (context_map s) (request_id (ctxs s ! a))")
    case (Some b)
    then have "b < length (ctxs s)" "request_id (ctxs s ! b) = request_id (ctxs s ! a)"
      using inv am_get_in_set [OF Some] by (auto simp: v3_inv_def map_ok_def)
    then have "b = a" using ids_inj [of s b a] inv a by (simp add: v3_inv_def)
    with Some show ?thesis by (simp add: registered_def)
  qed (simp add: registered_def)
qed

lemma quiet_rst_count:
  assumes "quiet strict a s t"
  shows "rst_count k t = rst_count k s"
proof -
  obtain ms where "chan_items (r3_wss_send_task t) = chan_items (r3_wss_send_task s) @ ms" "\<forall>m \<in> set ms. \<not> is_rst m"
    using assms unfolding quiet_def by blast
  moreover from this(2) have "filter (rst_for k) ms = []"
    using rst_for_is_rst by (auto simp: filter_empty_conv)
  ultimately show ?thesis by (simp add: rst_count_def)
qed

lemma quiet_inv: "quiet strict a s t \<Longrightarrow> v3_inv s \<Longrightarrow> v3_inv t"
proof -
  assume q: "quiet strict a s t" and inv: "v3_inv s"
  have same: "length (ctxs t) = length (ctxs s)" "context_map t = context_map s" "req_id_generator t = req_id_generator s"
    "\<And>b. b < length (ctxs s) \<Longrightarrow> request_id (ctxs t ! b) = request_id (ctxs s ! b)"
    "\<And>b. b < length (ctxs s) \<Longrightarrow> is_rst_stream_sent (ctxs t ! b) = is_rst_stream_sent (ctxs s ! b)"
    using q by (auto simp: quiet_def)
  have "map_ok t"
    using inv same by (fastforce simp: v3_inv_def map_ok_def)
  moreover have "ids_ok t"
    using inv same by (simp add: v3_inv_def ids_ok_def)
  moreover have "rst_ok t"
    unfolding rst_ok_def quiet_rst_count [OF q] same(1)
  proof (intro conjI allI impI)
    show "rst_count (request_id (ctxs t ! i)) s \<le> (if is_rst_stream_sent (ctxs t ! i) then 1 else 0)" if "i < length (ctxs s)" for i
      using inv that same(4,5) [OF that] by (simp add: v3_inv_def rst_ok_def)
    show "\<exists>i < length (ctxs s). request_id (ctxs t ! i) = k" if "0 < rst_count k s" for k
      using inv that same(4) unfolding v3_inv_def rst_ok_def by blast
  qed
  ultimately show ?thesis by (simp add: v3_inv_def)
qed

text \<open>Marking the context \<open>a\<close> as reset, with the reset frame queued or, on a closed queue, not.\<close>

definition marked :: "i32 \<Rightarrow> string \<Rightarrow> nat \<Rightarrow> rs3 \<Rightarrow> rs3 \<Rightarrow> bool" where
  "marked err msg a s t \<longleftrightarrow>
     context_map t = context_map s \<and> req_id_generator t = req_id_generator s \<and>
     ctxs t = (ctxs s)[a := (ctxs s ! a)\<lparr>is_rst_stream_sent := True\<rparr>] \<and>
     (chan_items (r3_wss_send_task t) = chan_items (r3_wss_send_task s) \<or>
      chan_items (r3_wss_send_task t) = chan_items (r3_wss_send_task s) @ [WBinary (rst_message (request_id (ctxs s ! a)) err msg)])"

lemma marked_ids: "marked err msg a s t \<Longrightarrow> b < length (ctxs s) \<Longrightarrow> request_id (ctxs t ! b) = request_id (ctxs s ! b)"
  by (cases "b = a") (simp_all add: marked_def)

lemma marked_count: "marked err msg a s t \<Longrightarrow> rst_count k t \<le> rst_count k s + (if k = request_id (ctxs s ! a) then 1 else 0)"
  by (auto simp: marked_def rst_count_def)

lemma marked_counts_ok:
  assumes "v3_inv s" "a < length (ctxs s)" "\<not> is_rst_stream_sent (ctxs s ! a)" "marked err msg a s t" "i < length (ctxs s)"
  shows "rst_count (request_id (ctxs t ! i)) t \<le> (if is_rst_stream_sent (ctxs t ! i) then 1 else 0)"
proof (cases "i = a")
  case True
  have "rst_count (request_id (ctxs s ! a)) s = 0"
    using assms(1-3) by (force simp: v3_inv_def rst_ok_def)
  moreover have "is_rst_stream_sent (ctxs t ! a)" using assms(2,4) by (simp add: marked_def)
  ultimately show ?thesis
    using marked_count [OF assms(4), of "request_id (ctxs s ! a)"] True marked_ids [OF assms(4,5)] by simp
next
  case False
  then have "request_id (ctxs s ! i) \<noteq> request_id (ctxs s ! a)"
    using ids_inj [of s i a] assms(1,2,5) by (auto simp: v3_inv_def)
  then have "rst_count (request_id (ctxs s ! i)) t \<le> rst_count (request_id (ctxs s ! i)) s"
    using marked_count [OF assms(4), of "request_id (ctxs s ! i)"] by simp
  also have "\<dots> \<le> (if is_rst_stream_sent (ctxs s ! i) then 1 else 0)"
    using assms(1,5) by (simp add: v3_inv_def rst_ok_def)
  finally show ?thesis using False marked_ids [OF assms(4,5)] assms(4) by (simp add: marked_def)
qed

lemma marked_known:
  assumes "v3_inv s" "a < length (ctxs s)" "marked err msg a s t" "0 < rst_count k t"
  shows "\<exists>i < length (ctxs s). request_id (ctxs t ! i) = k"
proof (cases "k = request_id (ctxs s ! a)")
  case True
  then show ?thesis using assms(2) marked_ids [OF assms(3)] by blast
next
  case False
  with assms(4) marked_count [OF assms(3), of k] have "0 < rst_count k s" by simp
  then obtain i where "i < length (ctxs s)" "request_id (ctxs s ! i) = k"
    using assms(1) by (auto simp: v3_inv_def rst_ok_def)
  then show ?thesis using marked_ids [OF assms(3)] by blast
qed

lemma marked_inv:
  assumes "v3_inv s" "a < length (ctxs s)" "\<not> is_rst_stream_sent (ctxs s ! a)" "marked err msg a s t"
  shows "v3_inv t"
proof -
  note ids = marked_ids [OF assms(4)]
  have t: "context_map t = context_map s" "req_id_generator t = req_id_generator s" "length (ctxs t) = length (ctxs s)"
    using assms(4) by (simp_all add: marked_def)
  have "map_ok t"
    using assms(1) ids by (fastforce simp: v3_inv_def map_ok_def t)
  moreover have "ids_ok t"
    using assms(1) ids by (simp add: v3_inv_def ids_ok_def t)
  moreover have "rst_ok t"
    by (simp add: rst_ok_def t(3) marked_counts_ok [OF assms] marked_known [OF assms(1,2,4)])
  ultimately show ?thesis by (simp add: v3_inv_def)
qed

lemma reset_stream_inv:
  assumes "v3_inv s" "a < length (ctxs s)"
  shows "v3_inv (reset_stream E a err msg s)"
proof (cases "\<not> is_completed (ctx_state (get_ctx s a)) \<and> \<not> is_rst_stream_sent (get_ctx s a)")
  case False
  then show ?thesis
    using quiet_inv [OF quiet_spawn assms(1)] unfolding reset_stream_def Let_def by (simp only: if_False)
next
  case True
  define t where "t = upd_ctx a (\<lambda>c. c\<lparr>is_rst_stream_sent := True\<rparr>) (fst (send_data E (WBinary (rst_message (request_id (get_ctx s a)) err msg)) s))"
  have "marked err msg a s t"
    by (auto simp: marked_def t_def upd_ctx_def send_data_def chan_send_def get_ctx_def)
  moreover have "\<not> is_rst_stream_sent (ctxs s ! a)" using True by (simp add: get_ctx_def)
  ultimately have "v3_inv t" using marked_inv [OF assms] by blast
  then show ?thesis
    using True quiet_inv [OF quiet_spawn] by (simp add: reset_stream_def Let_def t_def)
qed

lemma reset_stream_length [simp]: "length (ctxs (reset_stream E a err msg s)) = length (ctxs s)"
  by (auto simp: reset_stream_def Let_def try_spawn_remove_req_ctx_def upd_ctx_def send_data_def chan_send_def)

lemma on_binary_cases:
  assumes "on_binary E bin s = Ret (t, r)"
  obtains (ignored) "t = s" "r = Inr ()"
      "\<And>ty fl k p. decode_frame bin = Ret (Frame ty fl k p) \<Longrightarrow> am_get (context_map s) k = None"
  | (handled) ty fl k p a where "decode_frame bin = Ret (Frame ty fl k p)" "am_get (context_map s) k = Some a"
      "dispatch_frame E ty fl k p a s = Ret (t, Inr ())" "r = Inr ()"
  | (failed) ty fl k p a s1 e where "decode_frame bin = Ret (Frame ty fl k p)" "am_get (context_map s) k = Some a"
      "dispatch_frame E ty fl k p a s = Ret (s1, Inl e)" "r = Inr ()"
      "t = reset_stream E a 1001 ''Going away'' (notify_client_request_error E a e s1)"
proof -
  obtain d where d: "decode_frame bin = Ret d"
    using decode_frame_total [of bin] by (cases "decode_frame bin") auto
  show ?thesis
  proof (cases d)
    case (Dropped x)
    then have "t = s" "r = Inr ()"
      using assms d by (simp_all add: on_binary_def)
    then show ?thesis
      by (rule ignored) (simp add: d Dropped)
  next
    case (Frame ty fl k p)
    note d = d [unfolded Frame]
    show ?thesis
    proof (cases "am_get (context_map s) k")
      case None
      then have "t = s" "r = Inr ()"
        using assms d by (simp_all add: on_binary_def check_if_context_exists_def)
      then show ?thesis
        by (rule ignored) (use d None in simp)
    next
      case (Some a)
      with assms d obtain s1 r1 where disp: "dispatch_frame E ty fl k p a s = Ret (s1, r1)"
        by (auto simp: on_binary_def check_if_context_exists_def bind_outcome_Ret_iff)
      show ?thesis
      proof (cases r1)
        case (Inl e)
        with assms d Some disp have "t = reset_stream E a 1001 ''Going away'' (notify_client_request_error E a e s1)" "r = Inr ()"
          by (simp_all add: on_binary_def check_if_context_exists_def)
        with d Some disp Inl show ?thesis by (intro failed) simp_all
      next
        case (Inr u)
        with assms d Some disp have "t = s1" "r = Inr ()"
          by (simp_all add: on_binary_def check_if_context_exists_def)
        with d Some disp Inr show ?thesis by (intro handled) simp_all
      qed
    qed
  qed
qed

lemma dispatch_keeps:
  assumes "v3_inv s" "am_get (context_map s) k = Some a" "dispatch_frame E ty fl k p a s = Ret (t, r)"
  shows "quiet False a s t" "v3_inv t" "a < length (ctxs s)" "a < length (ctxs t)" "registered a t"
proof -
  show a: "a < length (ctxs s)"
    using assms(1) am_get_in_set [OF assms(2)] by (auto simp: v3_inv_def map_ok_def)
  show q: "quiet False a s t"
    by (rule quiet_dispatch [OF a registered_all [OF assms(1) a] _ assms(3)]) simp
  show "v3_inv t" and l: "a < length (ctxs t)"
    using quiet_inv [OF q assms(1)] a quiet_length [OF q] by simp_all
  then show "registered a t" by (rule registered_all)
qed

lemma error_inv:
  assumes "v3_inv s" "a < length (ctxs s)"
  shows "v3_inv (notify_client_request_error E a e s)" "length (ctxs (notify_client_request_error E a e s)) = length (ctxs s)"
  using quiet_inv [OF quiet_error [where E = E and crex = e, OF assms(2) registered_all [OF assms]] assms(1)]
    quiet_length [OF quiet_error [where E = E and crex = e, OF assms(2) registered_all [OF assms]]] by simp_all

lemma on_binary_inv:
  assumes "v3_inv s" "on_binary E bin s = Ret (t, r)"
  shows "v3_inv t"
  using assms(2)
proof (cases rule: on_binary_cases)
  case (handled ty fl k p a)
  from dispatch_keeps(2) [OF assms(1) this(2,3)] show ?thesis .
next
  case (failed ty fl k p a s1 e)
  note kept = dispatch_keeps [OF assms(1) failed(2,3)]
  show ?thesis
    unfolding failed(5) by (rule reset_stream_inv) (simp_all add: error_inv kept)
qed (use assms in simp)

lemma v3_inv_cong:
  "v3_inv s \<Longrightarrow> ctxs t = ctxs s \<Longrightarrow> context_map t = context_map s \<Longrightarrow> req_id_generator t = req_id_generator s \<Longrightarrow>
   chan_items (r3_wss_send_task t) = chan_items (r3_wss_send_task s) \<Longrightarrow> v3_inv t"
  by (simp only: v3_inv_def map_ok_def ids_ok_def rst_ok_def rst_count_def) blast

lemma map_refs_valid: "v3_inv s \<Longrightarrow> a \<in> set (map snd (context_map s)) \<Longrightarrow> a < length (ctxs s)"
  by (auto simp: v3_inv_def map_ok_def)

text \<open>A handler that serves one context after the other keeps the invariant.\<close>

lemma fold_inv:
  assumes "\<And>s a. v3_inv s \<Longrightarrow> a < length (ctxs s) \<Longrightarrow> quiet strict a s (f s a)"
    and "v3_inv s" "\<forall>a \<in> set as. a < length (ctxs s)"
  shows "v3_inv (foldl f s as) \<and> length (ctxs (foldl f s as)) = length (ctxs s) \<and>
    context_map (foldl f s as) = context_map s \<and> r3_is_removed (foldl f s as) = r3_is_removed s \<and>
    r3_farm_removals (foldl f s as) = r3_farm_removals s"
  using assms(2,3)
proof (induction as arbitrary: s)
  case (Cons a as)
  then have q: "quiet strict a s (f s a)" by (intro assms(1)) simp_all
  from Cons.IH [of "f s a"] Cons.prems quiet_inv [OF q] quiet_length [OF q] q show ?case
    by (simp add: quiet_def)
qed simp

lemma close_quiet_inv: "v3_inv s \<Longrightarrow> a < length (ctxs s) \<Longrightarrow> quiet strict a s (fst (notify_client_request_close E a wcode opt_reason s))"
  by (rule quiet_close [OF _ registered_all])

lemma error_quiet_inv: "v3_inv s \<Longrightarrow> a < length (ctxs s) \<Longrightarrow> quiet strict a s (notify_client_request_error E a e s)"
  by (rule quiet_error [OF _ registered_all])

lemma on_close_inv:
  assumes "v3_inv s"
  shows "v3_inv (fst (on_close E frame s))"
proof -
  have inv: "v3_inv (remove_from_farm s)"
    by (rule v3_inv_cong [OF assms]) (simp_all add: remove_from_farm_def)
  show ?thesis
    unfolding on_close_def Let_def split_beta fst_conv
    by (rule conjunct1, rule fold_inv [where strict = True]) (use inv close_quiet_inv map_refs_valid in auto)
qed

lemma terminate_inv:
  assumes "v3_inv s"
  shows "v3_inv (fst (terminate_all_conn E opt s))"
proof -
  let ?e = "case opt of Some e \<Rightarrow> e | None \<Rightarrow> crex_new ''terminating all connections on cranker router v3 for unknown reason''"
  let ?t = "foldl (\<lambda>s a. notify_client_request_error E a ?e s) s (map snd (context_map s))"
  have "v3_inv ?t"
    by (rule conjunct1, rule fold_inv [where strict = True]) (use assms error_quiet_inv map_refs_valid in auto)
  then show ?thesis
    by (auto simp: terminate_all_conn_def Let_def v3_inv_def map_ok_def ids_ok_def rst_ok_def rst_count_def)
qed

lemma run_removal_inv: "v3_inv s \<Longrightarrow> v3_inv (run_removal s)"
proof (cases "removal_tasks s")
  case (Cons k ks)
  assume inv: "v3_inv s"
  have "set (am_del (context_map s) k) \<subseteq> set (context_map s)" by (auto simp: am_del_def)
  with inv Cons show ?thesis
    by (auto simp: run_removal_def v3_inv_def map_ok_def ids_ok_def rst_ok_def rst_count_def)
qed (simp add: run_removal_def)

lemma set_am_put_subset: "set (am_put m k v) \<subseteq> insert (k, v) (set m)"
  by (induction m k v rule: am_put.induct) auto

lemma begin_inv:
  assumes "v3_inv s" "length (ctxs s) < 2 ^ 32 - 1"
  shows "v3_inv (fst (on_client_req_begin E meth uri s))"
proof (cases "r3_is_removed s")
  case False
  let ?n = "length (ctxs s)"
  let ?k = "of_nat (Suc ?n) :: i32"
  define t where "t = fst (on_client_req_begin E meth uri s)"
  have t: "ctxs t = ctxs s @ [ctx_new (env_now E) ?k meth uri]" "context_map t = am_put (context_map s) ?k ?n"
    "req_id_generator t = ?k" "r3_wss_send_task t = r3_wss_send_task s"
    using False assms by (simp_all add: t_def on_client_req_begin_def Let_def v3_inv_def ids_ok_def add.commute)
  have ids: "ids_ok t"
    using assms by (auto simp: v3_inv_def ids_ok_def t nth_append less_Suc_eq ctx_new_def)
  moreover have "map_ok t"
    using assms set_am_put_subset [of "context_map s" ?k ?n]
    by (fastforce simp: v3_inv_def map_ok_def t nth_append ctx_new_def)
  moreover have "rst_ok t"
  proof -
    have fresh: "request_id (ctxs s ! i) \<noteq> ?k" if "i < ?n" for i
      using ids_inj [OF ids, of i ?n] that by (auto simp: t nth_append ctx_new_def)
    then have "rst_count ?k s = 0"
      using assms(1) by (auto simp: v3_inv_def rst_ok_def)
    moreover have "rst_count k t = rst_count k s" for k
      by (simp add: rst_count_def t)
    moreover have "\<exists>i < length (ctxs t). request_id (ctxs t ! i) = k" if "0 < rst_count k s" for k
    proof -
      obtain i where "i < ?n" "request_id (ctxs s ! i) = k"
        using assms(1) \<open>0 < rst_count k s\<close> by (auto simp: v3_inv_def rst_ok_def)
      then show ?thesis by (intro exI [of _ i]) (simp add: t nth_append)
    qed
    moreover have "\<forall>i < ?n. rst_count (request_id (ctxs s ! i)) s \<le> (if is_rst_stream_sent (ctxs s ! i) then 1 else 0)"
      using assms(1) by (simp add: v3_inv_def rst_ok_def)
    ultimately show ?thesis
      unfolding rst_ok_def by (auto simp: t nth_append less_Suc_eq ctx_new_def)
  qed
  ultimately show ?thesis by (simp add: v3_inv_def t_def)
qed (use assms in \<open>simp add: on_client_req_begin_def\<close>)

lemma inc_simps [simp]:
  "request_id (inc_rtr_to_tgt_pending_ack_bytes p c) = request_id c"
  "is_rst_stream_sent (inc_rtr_to_tgt_pending_ack_bytes p c) = is_rst_stream_sent c"
  by (simp_all add: inc_rtr_to_tgt_pending_ack_bytes_def Let_def)

lemma quiet_send_headers:
  "\<forall>f \<in> set fs. \<not> is_rst (WBinary f) \<Longrightarrow> quiet strict a s (fst (send_header_frames E a fs s))"
proof (induction E a fs s rule: send_header_frames.induct)
  case (2 E a hb hbs s)
  let ?s1 = "upd_ctx a (inc_rtr_to_tgt_pending_ack_bytes (of_nat (length hb - HEADER_LEN_IN_BYTES))) s"
  obtain s2 r where s2: "send_data E (WBinary hb) ?s1 = (s2, r)" by (cases "send_data E (WBinary hb) ?s1")
  have "quiet strict a ?s1 s2"
    using quiet_send [of "WBinary hb" strict a ?s1 E] "2.prems" by (simp add: s2)
  then have q2: "quiet strict a s s2"
    by (rule quiet_trans [OF quiet_upd, rotated 2]) simp_all
  show ?case
  proof (cases r)
    case (Inr u)
    let ?s3 = "upd_ctx a (\<lambda>c. c\<lparr>from_client_bytes := from_client_bytes c + word_of_int (sint (of_nat (length hb - HEADER_LEN_IN_BYTES) :: i32))\<rparr>) s2"
    have "quiet strict a ?s3 (fst (send_header_frames E a hbs ?s3))"
      using "2.IH" [OF refl refl s2 [symmetric] Inr] "2.prems" by simp
    moreover have "quiet strict a s ?s3"
      by (rule quiet_upd_then [OF q2]) simp_all
    ultimately show ?thesis
      using s2 Inr by (simp add: Let_def) (blast intro: quiet_trans)
  qed (use s2 q2 in \<open>simp add: Let_def\<close>)
qed simp

lemma quiet_part_one_start: "quiet strict a s (snd (part_one_start E a req_id text opt_body s))"
proof -
  let ?s1 = "upd_ctx a (\<lambda>c. c\<lparr>is_tgt_can_send_res_now := True\<rparr>) s"
  let ?fs = "header_messages req_id True (opt_body = None) text"
  have "quiet strict a s ?s1" by (rule quiet_upd) simp_all
  then have "quiet strict a s (fst (send_header_frames E a ?fs ?s1))"
    by (rule quiet_trans) (rule quiet_send_headers [OF not_rst_header])
  then show ?thesis
    by (cases "send_header_frames E a ?fs ?s1") (simp add: part_one_start_def Let_def split: sum.split)
qed

lemma quiet_part_one_chunk: "quiet strict a s (snd (part_one_chunk E a req_id chunk rest s))"
proof (cases "all_hooks (\<lambda>l. on_before_request_body_chunk_sent_to_target l (get_ctx s a) chunk) (env_listeners E)")
  case (Inr u)
  let ?data = "data_messages req_id False (Some chunk)"
  let ?s1 = "upd_ctx a (inc_rtr_to_tgt_pending_ack_bytes (of_nat (length ?data - HEADER_LEN_IN_BYTES))) s"
  obtain s2 r where s2: "send_data E (WBinary ?data) ?s1 = (s2, r)" by (cases "send_data E (WBinary ?data) ?s1")
  have "quiet strict a ?s1 s2"
    using quiet_send [of "WBinary ?data" strict a ?s1 E] by (simp add: s2)
  then have q2: "quiet strict a s s2"
    by (rule quiet_trans [OF quiet_upd, rotated 2]) simp_all
  define s3 where "s3 = upd_ctx a (\<lambda>c. c\<lparr>from_client_bytes := from_client_bytes c + of_nat (length chunk)\<rparr>) s2"
  have q3: "quiet strict a s s3"
    unfolding s3_def by (rule quiet_upd_then [OF q2]) simp_all
  have q4: "quiet strict a s (upd_ctx a (\<lambda>_. write_it_maybe c) s3)" if "register_callback (get_ctx s3 a) = (c, Some cb)" for c cb
    using that by (intro quiet_upd_then [OF q3])
      (auto simp: register_callback_def get_ctx_def write_it_maybe_spec chan_send_def split: if_splits)
  show ?thesis
    unfolding part_one_chunk_def Inr sum.case Let_def s2 prod.case s3_def [symmetric]
    using q2 q3 q4 by (auto split: sum.splits prod.splits option.splits)
qed (simp add: part_one_chunk_def)

lemma quiet_part_one_finish: "quiet strict a s (snd (part_one_finish E hdr a req_id has_body s))"
  using quiet_send [of "WBinary (data_messages req_id True None)" strict a s E]
  by (auto simp: part_one_finish_def split: prod.splits sum.splits)

lemma quiet_part_one_step: "quiet strict a s (snd (part_one_step E hdr a req_id pc s))"
  by (cases "(E, hdr, a, req_id, pc, s)" rule: part_one_step.cases)
    (simp_all add: quiet_part_one_start quiet_part_one_chunk quiet_part_one_finish)

lemma quiet_part_two:
  "split_part_two H valid_status valid_name iter E a s = Ready (t, r) \<Longrightarrow> quiet strict a s t"
  by (auto simp: split_part_two_def Let_def intro: quiet_upd split: option.splits if_splits)

lemma client_failed_inv: "v3_inv s \<Longrightarrow> a < length (ctxs s) \<Longrightarrow> v3_inv (on_client_req_failed E a e s)"
  by (auto simp: on_client_req_failed_def Let_def error_inv intro!: reset_stream_inv split: option.splits crex_kind.splits)

lemma client_gone_inv:
  assumes "v3_inv s"
  shows "v3_inv (body_stream_ended E a req_id s)"
proof -
  have "v3_inv (reset_stream E b 1001 ''Going away'' (upd_ctx b (\<lambda>c. c\<lparr>ctx_error := x\<rparr>) s))" if "am_get (context_map s) req_id = Some b" for b x
  proof -
    have b: "b < length (ctxs s)"
      using map_refs_valid [OF assms] am_get_in_set [OF that] by force
    have q: "quiet True b s (upd_ctx b (\<lambda>c. c\<lparr>ctx_error := x\<rparr>) s)"
      by (rule quiet_upd) simp_all
    show ?thesis
      by (rule reset_stream_inv [OF quiet_inv [OF q assms]]) (simp add: quiet_length [OF q] b)
  qed
  with assms show ?thesis
    by (simp add: body_stream_ended_def check_if_context_exists_def split: option.split)
qed

lemma v3_event_inv:
  assumes "v3_event H Es s t" "v3_inv s"
  shows "v3_inv t"
  using assms(1)
proof cases
  case (binary E bin r)
  then show ?thesis using assms(2) on_binary_inv by blast
next
  case (ping E dbg p)
  have "fst (send_data E (WPong p) s) = s \<or> quiet True 0 s (fst (send_data E (WPong p) s))"
    using quiet_send [of "WPong p" True 0 s E] by simp
  then have "v3_inv (fst (send_data E (WPong p) s))"
    using quiet_inv assms(2) by auto
  then show ?thesis
    using ping by (auto simp: on_ping_def r3_on_error_def chan_send_def split: prod.splits sum.splits if_splits
        intro: v3_inv_cong)
next
  case (err E e)
  then show ?thesis using assms(2) by (auto simp: r3_on_error_def chan_send_def intro: v3_inv_cong)
next
  case (general_error opt)
  then show ?thesis using quiet_inv [OF quiet_provide_error assms(2)] by simp
next
  case close_queue
  then show ?thesis using assms(2) by (auto simp: drop_rs3_def intro: v3_inv_cong)
next
  case (sender_result E a r)
  then show ?thesis using assms(2) by (simp add: part_one_result_def error_inv split: sum.split)
next
  case (responder E a valid_status valid_name iter r)
  then show ?thesis using quiet_inv [OF quiet_part_two assms(2)] by blast
qed (use assms(2) in \<open>simp_all add: on_close_inv terminate_inv run_removal_inv begin_inv client_failed_inv client_gone_inv\<close>)

lemma v3_step_inv:
  assumes "v3_step H Es s t" "v3_inv s"
  shows "v3_inv t"
  using assms(1)
proof cases
  case event
  then show ?thesis using v3_event_inv assms(2) by blast
next
  case (sender E a req_id hdr pc)
  then show ?thesis using quiet_inv [OF quiet_part_one_step assms(2)] by simp
qed

inductive v3_reachable :: "('m, 'v) header_ops \<Rightarrow> (ctx, 'm) sock_env set \<Rightarrow> rs3 \<Rightarrow> bool" for H Es where
  start: "E \<in> Es \<Longrightarrow> v3_reachable H Es (rs3_new E route domain component socket_id connector ip idle ping)"
| step: "v3_reachable H Es s \<Longrightarrow> v3_step H Es s t \<Longrightarrow> v3_reachable H Es t"

lemma v3_reachable_inv: "v3_reachable H Es s \<Longrightarrow> v3_inv s"
proof (induction rule: v3_reachable.induct)
  case start
  then show ?case
    by (simp add: v3_inv_def map_ok_def ids_ok_def rst_ok_def rst_count_def rs3_new_def)
next
  case step
  then show ?case using v3_step_inv by blast
qed

end
