(* ===== verification/Socket_V3_Laws.thy ===== *)
theory Socket_V3_Laws
  imports Router_Socket_V3
begin

text \<open>
  The laws of the version 3 socket: what holds in every state it can reach, what a frame of the
  connector does to the request it names and to the others, how a response is put together from
  its frames, how a request is sent, and how the socket ends.
\<close>

section \<open>A sample environment and a sample run\<close>

definition sample_env :: "(ctx, (string \<times> string) list) sock_env" where
  "sample_env = \<lparr>env_listeners = [default_listener], env_now = 0, dbg_send_error = [], dbg_recv_error = [],
     dbg_utf8_error = (\<lambda>_. []), dbg_parse_int_error = (\<lambda>_. []), dbg_lines = (\<lambda>_. []), dbg_build_error = []\<rparr>"

definition sample_start :: rs3 where
  "sample_start = rs3_new sample_env ''web'' ''*'' ''web'' ''s1'' ''c1'' ''10.0.0.9'' 60000 10000"

text \<open>Two requests, the first of which has been sent.\<close>

definition sample_two :: rs3 where
  "sample_two = fst (on_client_req_begin sample_env ''GET'' sample_uri
     (fst (on_client_req_begin sample_env ''GET'' sample_uri sample_start)))"

definition sample_sent :: rs3 where
  "sample_sent = snd (part_one_step sample_env [] 0 1 (P1_Start ''GET / HTTP/1.1'' None) sample_two)"

lemma sample_start_reachable: "v3_reachable lhm {sample_env} sample_start"
  unfolding sample_start_def by (rule v3_reachable.start) simp

lemma sample_two_ctxs: "ctxs sample_two = [ctx_new 0 1 ''GET'' sample_uri, ctx_new 0 2 ''GET'' sample_uri]"
  "context_map sample_two = [(1, 0), (2, 1)]" "r3_wss_send_task sample_two = chan_new"
  "r3_needs_response_chunk sample_two = False" "r3_is_removed sample_two = False"
  by (simp_all add: sample_two_def sample_start_def on_client_req_begin_def Let_def rs3_new_def sample_env_def default_listener_def)

lemma sample_two_reachable: "v3_reachable lhm {sample_env} sample_two"
  unfolding sample_two_def
  by (rule v3_reachable.step [OF v3_reachable.step [OF sample_start_reachable]]; (rule v3_step.event, rule v3_event.client))
    (simp_all add: sample_start_def on_client_req_begin_def Let_def rs3_new_def)

lemma sample_sent_reachable: "v3_reachable lhm {sample_env} sample_sent"
  unfolding sample_sent_def
  by (rule v3_reachable.step [OF sample_two_reachable], rule v3_step.sender)
    (simp_all add: sample_two_ctxs get_ctx_def ctx_new_def)

section \<open>In every reachable state\<close>



text \<open>
  Claim C14: in every reachable state the registry of requests is consistent: ids are not repeated,
  every id is that of the context it refers to, contexts have distinct ids, and the next id, the
  successor of the generator, is that of no context.
\<close>

theorem context_map_consistent:
  assumes "v3_reachable H Es s" "length (ctxs s) < 2 ^ 32 - 1"
  shows "am_ok (context_map s) \<and> (\<forall>(k, a) \<in> set (context_map s). a < length (ctxs s) \<and> request_id (ctxs s ! a) = k) \<and>
    distinct (map request_id (ctxs s)) \<and> req_id_generator s + 1 \<notin> set (map request_id (ctxs s))"
proof -
  have inv: "v3_inv s" by (rule v3_reachable_inv [OF assms(1)])
  have fresh: "req_id_generator s + 1 \<noteq> request_id (ctxs s ! i)" if "i < length (ctxs s)" for i
  proof -
    have "(of_nat (Suc (length (ctxs s))) :: i32) \<noteq> of_nat (Suc i)"
      using that assms(2) by (simp only: word_of_nat_eq_iff) (simp add: take_bit_nat_eq_self del: of_nat_Suc)
    then show ?thesis using inv that by (simp add: v3_inv_def ids_ok_def add.commute)
  qed
  have "distinct (map request_id (ctxs s))"
    using inv ids_inj by (auto simp: distinct_conv_nth v3_inv_def)
  moreover have "req_id_generator s + 1 \<notin> set (map request_id (ctxs s))"
  proof
    assume "req_id_generator s + 1 \<in> set (map request_id (ctxs s))"
    then obtain i where "i < length (ctxs s)" "req_id_generator s + 1 = request_id (ctxs s ! i)"
      by (auto simp: in_set_conv_nth)
    with fresh show False by blast
  qed
  ultimately show ?thesis
    using inv by (simp add: v3_inv_def map_ok_def)
qed

theorem context_map_consistent_witness:
  "length (ctxs sample_two) < 2 ^ 32 - 1 \<and> am_ok (context_map sample_two) \<and>
   distinct (map request_id (ctxs sample_two))"
proof -
  have "length (ctxs sample_two) < 2 ^ 32 - 1" by (simp add: sample_two_ctxs)
  with context_map_consistent [OF sample_two_reachable this] show ?thesis by blast
qed

section \<open>One frame of the connector\<close>

text \<open>What \<open>reset_stream\<close> leaves alone.\<close>

lemma reset_stream_frame:
  assumes "a < length (ctxs s)"
  shows "context_map (reset_stream E a err msg s) = context_map s \<and>
    r3_is_removed (reset_stream E a err msg s) = r3_is_removed s \<and>
    r3_err_chan (reset_stream E a err msg s) = r3_err_chan s \<and>
    (b \<noteq> a \<longrightarrow> ctxs (reset_stream E a err msg s) ! b = ctxs s ! b)"
  by (auto simp: reset_stream_def Let_def try_spawn_remove_req_ctx_def upd_ctx_def send_data_def chan_send_def)

lemma on_binary_frame:
  assumes "v3_inv s" "on_binary E bin s = Ret (t, r)" "b < length (ctxs s)"
    and other: "\<forall>ty fl p. decode_frame bin \<noteq> Ret (Frame ty fl (request_id (ctxs s ! b)) p)"
    and strict: "strict \<Longrightarrow> \<forall>ty fl k p a. decode_frame bin = Ret (Frame ty fl k p) \<longrightarrow> am_get (context_map s) k = Some a \<longrightarrow>
      \<not> chan_closed (tgt_res_bdy (ctxs s ! a))"
  shows "r = Inr () \<and> context_map t = context_map s \<and> r3_is_removed t = r3_is_removed s \<and> r3_err_chan t = r3_err_chan s \<and>
    forget_error (ctxs t ! b) = forget_error (ctxs s ! b) \<and> (strict \<longrightarrow> ctxs t ! b = ctxs s ! b)"
  using assms(2)
proof (cases rule: on_binary_cases)
  case (handled ty fl k p a)
  note kept = dispatch_keeps [OF assms(1) handled(2,3)]
  have "b \<noteq> a"
    using other handled(1,2) am_get_in_set [OF handled(2)] assms(1) by (auto simp: v3_inv_def map_ok_def)
  moreover have "quiet strict a s t"
    using strict handled(1,2)
    by (intro quiet_dispatch [OF kept(3) registered_all [OF assms(1) kept(3)] _ handled(3)]) (auto simp: get_ctx_def)
  ultimately show ?thesis using handled(4) assms(3) by (auto simp: quiet_def)
next
  case (failed ty fl k p a s1 e)
  note kept = dispatch_keeps [OF assms(1) failed(2,3)]
  have "b \<noteq> a"
    using other failed(1,2) am_get_in_set [OF failed(2)] assms(1) by (auto simp: v3_inv_def map_ok_def)
  moreover have q1: "quiet strict a s s1"
    using strict failed(1,2)
    by (intro quiet_dispatch [OF kept(3) registered_all [OF assms(1) kept(3)] _ failed(3)]) (auto simp: get_ctx_def)
  moreover have q2: "quiet strict a s (notify_client_request_error E a e s1)"
    by (rule quiet_trans [OF q1 error_quiet_inv [OF kept(2,4)]])
  ultimately show ?thesis
    using failed(4,5) assms(3) kept(3) quiet_length [OF q2]
      reset_stream_frame [of a "notify_client_request_error E a e s1" E 1001 "''Going away''" b]
    by (auto simp: quiet_def)
qed simp

lemma on_binary_panics:
  "on_binary E bin s = Panic \<longleftrightarrow> (\<exists>fl k p. decode_frame bin = Ret (Frame MESSAGE_TYPE_WINDOW_UPDATE fl k p) \<and>
     am_get (context_map s) k \<noteq> None \<and> length p < 4)"
proof -
  have nopanic: "dispatch_frame E ty fl k p a s = Panic \<longleftrightarrow> ty = MESSAGE_TYPE_WINDOW_UPDATE \<and> length p < 4" for ty fl k p a
    using get_i32_panics_iff [of p]
    by (auto simp: dispatch_frame_def handle_rst_stream_def handle_window_update_def get_error_code_def frame_consts Let_def
        bind_outcome_Panic_iff)
  show ?thesis
  proof (cases "decode_frame bin")
    case (Ret d)
    have answer: "(case r of Inl e \<Rightarrow> Ret (f e) | Inr u \<Rightarrow> Ret y) \<noteq> Panic" for r :: "unit res" and f and y :: "rs3 \<times> unit res"
      by (cases r) simp_all
    from Ret nopanic show ?thesis
      by (auto simp: on_binary_def check_if_context_exists_def bind_outcome_Panic_iff answer split: decoded.splits option.splits)
  qed (use decode_frame_total [of bin] in simp)
qed




section \<open>A response, frame by frame\<close>

text \<open>
  The frames that carry a response: parts of its head, with the flags for the end of the head and
  of the stream, and chunks of its body. The specification of a response is the text of the head
  so far, the heads and the chunks handed over, and whether it has ended. A step has no result when
  the frame is refused: a head that is no text, too long or after the end, a chunk after the end.
\<close>

datatype res_frame = HeadPart bool bool bytes | BodyChunk bool bytes

fun res_frame_bytes :: "i32 \<Rightarrow> res_frame \<Rightarrow> bytes" where
  "res_frame_bytes k (HeadPart he se p) = MESSAGE_TYPE_HEADER # frame_flags he se # put_i32 k @ p"
| "res_frame_bytes k (BodyChunk e p) = data_messages k e (Some p)"

record resp =
  resp_text :: string
  resp_heads :: "string res list"
  resp_body :: "bytes res list"
  resp_ended :: bool

fun resp_step :: "resp \<Rightarrow> res_frame \<Rightarrow> resp option" where
  "resp_step R (HeadPart he se p) =
     (case from_utf8 p of
        None \<Rightarrow> None
      | Some part \<Rightarrow>
          if length p \<ge> 2 ^ 31 \<or> he \<and> resp_ended R then None
          else Some (R\<lparr>resp_text := resp_text R @ part,
                       resp_heads := resp_heads R @ (if he then [Inr (resp_text R @ part)] else []),
                       resp_ended := resp_ended R \<or> se\<rparr>))"
| "resp_step R (BodyChunk e p) =
     (if p = [] then Some (R\<lparr>resp_ended := resp_ended R \<or> e\<rparr>)
      else if resp_ended R then None
      else Some (R\<lparr>resp_body := resp_body R @ [Inr p], resp_ended := resp_ended R \<or> e\<rparr>))"

text \<open>The window updates a frame is answered with.\<close>

fun res_credit :: "i32 \<Rightarrow> res_frame \<Rightarrow> ws_message list" where
  "res_credit k (HeadPart he se p) = [WBinary (window_update_message k (of_nat (length p)))]"
| "res_credit k (BodyChunk e p) = (if p = [] then [] else [WBinary (window_update_message k (of_nat (length p)))])"

fun resp_run :: "resp \<Rightarrow> res_frame list \<Rightarrow> resp option" where
  "resp_run R [] = Some R"
| "resp_run R (f # fs) = (case resp_step R f of None \<Rightarrow> None | Some R' \<Rightarrow> resp_run R' fs)"

fun binary_run :: "(ctx, 'm) sock_env \<Rightarrow> bytes list \<Rightarrow> rs3 \<Rightarrow> rs3 outcome" where
  "binary_run E [] s = Ret s"
| "binary_run E (b # bs) s = bind_outcome (on_binary E b s) (\<lambda>(t, _). binary_run E bs t)"

definition abs_resp :: "ctx \<Rightarrow> resp" where
  "abs_resp c = \<lparr>resp_text = header_line_builder c, resp_heads = chan_items (tgt_res_hdr c),
     resp_body = chan_items (tgt_res_bdy c), resp_ended = chan_closed (tgt_res_bdy c)\<rparr>"

text \<open>The states the refinement is about: the request is registered and was sent.\<close>

definition serving :: "i32 \<Rightarrow> nat \<Rightarrow> rs3 \<Rightarrow> bool" where
  "serving k a s \<longleftrightarrow> a < length (ctxs s) \<and> am_get (context_map s) k = Some a \<and> request_id (ctxs s ! a) = k \<and>
     is_tgt_can_send_res_now (ctxs s ! a) \<and>
     chan_closed (tgt_res_hdr (ctxs s ! a)) = chan_closed (tgt_res_bdy (ctxs s ! a)) \<and>
     \<not> chan_closed (r3_wss_send_task s)"

definition hooks_agree :: "(ctx, 'm) sock_env \<Rightarrow> bool" where
  "hooks_agree E \<longleftrightarrow> (\<forall>l \<in> set (env_listeners E). \<forall>i b. on_response_body_chunk_received_from_target l i b = Inr ())"

text \<open>Ending the stream normally: both channels close.\<close>

lemma close_normal:
  assumes "serving k a s"
  shows "let t = fst (notify_client_request_close E a 1000 None s) in
    serving k a t \<and> abs_resp (ctxs t ! a) = (abs_resp (ctxs s ! a))\<lparr>resp_ended := True\<rparr> \<and>
    r3_wss_send_task t = r3_wss_send_task s \<and> r3_needs_response_chunk t = r3_needs_response_chunk s"
  using assms
  by (auto simp: notify_client_request_close_def serving_def raise_completion_event_def try_spawn_remove_req_ctx_def Let_def
      upd_ctx_def get_ctx_def abs_resp_def)

lemma upd_serving:
  assumes "serving k a s" "request_id (f (ctxs s ! a)) = k" "is_tgt_can_send_res_now (f (ctxs s ! a))"
    and "chan_closed (tgt_res_hdr (f (ctxs s ! a))) = chan_closed (tgt_res_bdy (f (ctxs s ! a)))"
  shows "serving k a (upd_ctx a f s)" "ctxs (upd_ctx a f s) ! a = f (ctxs s ! a)"
    "r3_wss_send_task (upd_ctx a f s) = r3_wss_send_task s"
    "r3_needs_response_chunk (upd_ctx a f s) = r3_needs_response_chunk s"
  using assms by (auto simp: serving_def upd_ctx_def)

lemma send_serving:
  assumes "serving k a s"
  shows "let t = fst (send_data E m s) in serving k a t \<and> ctxs t = ctxs s \<and> snd (send_data E m s) = Inr () \<and>
    chan_items (r3_wss_send_task t) = chan_items (r3_wss_send_task s) @ [m]"
  using assms by (auto simp: serving_def send_data_def chan_send_def Let_def)

lemma deliver_serving:
  assumes "serving k a s" "\<not> chan_closed (tgt_res_bdy (ctxs s ! a))"
  shows "\<exists>t. deliver_body E a e k p s = (t, Inr ()) \<and> serving k a t \<and>
    abs_resp (ctxs t ! a) = (abs_resp (ctxs s ! a))\<lparr>resp_body := chan_items (tgt_res_bdy (ctxs s ! a)) @ [Inr p], resp_ended := e\<rparr> \<and>
    chan_items (r3_wss_send_task t) = chan_items (r3_wss_send_task s) @ [WBinary (window_update_message k (of_nat (length p)))]"
proof -
  define q where "q = fst (chan_send (tgt_res_bdy (get_ctx s a)) (Inr p))"
  have q: "chan_send (tgt_res_bdy (get_ctx s a)) (Inr p) = (q, True)" "\<not> chan_closed q"
    "chan_items q = chan_items (tgt_res_bdy (ctxs s ! a)) @ [Inr p]"
    using assms(2) by (simp_all add: q_def chan_send_def get_ctx_def)
  define s1 where "s1 = upd_ctx a (\<lambda>c. c\<lparr>tgt_res_bdy := q\<rparr>) s"
  have s1: "serving k a s1" "abs_resp (ctxs s1 ! a) = (abs_resp (ctxs s ! a))\<lparr>resp_body := chan_items q, resp_ended := False\<rparr>"
    "r3_wss_send_task s1 = r3_wss_send_task s"
    unfolding s1_def by (rule upd_serving) (use assms q in \<open>auto simp: serving_def abs_resp_def upd_ctx_def\<close>)
  define s2 where "s2 = (if e then fst (notify_client_request_close E a 1000 None s1) else s1)"
  have s2: "serving k a s2" "abs_resp (ctxs s2 ! a) = (abs_resp (ctxs s ! a))\<lparr>resp_body := chan_items q, resp_ended := e\<rparr>"
    "r3_wss_send_task s2 = r3_wss_send_task s"
    using s1 close_normal [OF s1(1), of E] by (auto simp: s2_def Let_def)
  define s3 where "s3 = upd_ctx a (\<lambda>c. c\<lparr>to_client_bytes := to_client_bytes c + of_nat (length p)\<rparr>) s2"
  have s3: "serving k a s3" "abs_resp (ctxs s3 ! a) = abs_resp (ctxs s2 ! a)" "r3_wss_send_task s3 = r3_wss_send_task s"
    unfolding s3_def by (rule upd_serving) (use s2 in \<open>auto simp: serving_def abs_resp_def upd_ctx_def\<close>)
  have "deliver_body E a e k p s = (fst (send_data E (WBinary (window_update_message k (of_nat (length p)))) s3), Inr ())"
    unfolding deliver_body_def q Let_def s3_def s2_def s1_def by simp
  then show ?thesis
    using send_serving [OF s3(1), of E "WBinary (window_update_message k (of_nat (length p)))"] s3 s2 q by (simp add: Let_def)
qed

lemma hooks_pass: "hooks_agree E \<Longrightarrow> response_chunk_hooks E a p (t, Inr ()) = (t, Inr ())"
proof -
  assume "hooks_agree E"
  then have "all_hooks (\<lambda>l. on_response_body_chunk_received_from_target l (get_ctx t a) p)
      (filter really_need_on_response_body_chunk (env_listeners E)) = Inr ()"
    by (auto simp: all_hooks_Inr_iff hooks_agree_def)
  then show ?thesis by (simp add: response_chunk_hooks_def)
qed

lemma mark_ended_serving:
  assumes "serving k a s"
  shows "let t = (if e then upd_ctx a (\<lambda>c. c\<lparr>is_end_stream_received_from_tgt := True\<rparr>) s else s) in
    serving k a t \<and> abs_resp (ctxs t ! a) = abs_resp (ctxs s ! a) \<and> r3_wss_send_task t = r3_wss_send_task s"
  using assms by (auto simp: serving_def abs_resp_def upd_ctx_def)

lemma data_refines:
  assumes "serving k a s" "hooks_agree E" "resp_step (abs_resp (ctxs s ! a)) (BodyChunk e p) = Some R"
  shows "\<exists>t. handle_data E a (if e then 1 else 0) k p s = (t, Inr ()) \<and> serving k a t \<and> abs_resp (ctxs t ! a) = R \<and>
    chan_items (r3_wss_send_task t) = chan_items (r3_wss_send_task s) @ res_credit k (BodyChunk e p)"
proof -
  define s1 where "s1 = (if e then upd_ctx a (\<lambda>c. c\<lparr>is_end_stream_received_from_tgt := True\<rparr>) s else s)"
  have s1: "serving k a s1" "abs_resp (ctxs s1 ! a) = abs_resp (ctxs s ! a)" "r3_wss_send_task s1 = r3_wss_send_task s"
    using mark_ended_serving [OF assms(1), of e] by (simp_all add: s1_def Let_def)
  have ok: "check_if_tgt_can_send_res_first a k s = Inr ()"
    using assms(1) by (simp add: serving_def check_if_tgt_can_send_res_first_def get_ctx_def)
  show ?thesis
  proof (cases "p = []")
    case True
    have "handle_data E a (if e then 1 else 0) k p s =
        (if e then fst (notify_client_request_close E a 1000 None s1) else s1, Inr ())"
      unfolding handle_data_def ok Let_def judge_data_flags s1_def [symmetric] by (simp add: True)
    moreover have "(abs_resp (ctxs s ! a))\<lparr>resp_ended := e \<or> resp_ended (abs_resp (ctxs s ! a))\<rparr> = R"
      using assms(3) True by (simp add: disj_commute)
    ultimately show ?thesis
      using s1 close_normal [OF s1(1), of E] True by (cases e) (simp_all add: Let_def)
  next
    case False
    define s2 where "s2 = upd_ctx a (\<lambda>c. c\<lparr>wss_on_binary_call_count := wss_on_binary_call_count c + 1\<rparr>) s1"
    have s2: "serving k a s2" "abs_resp (ctxs s2 ! a) = abs_resp (ctxs s ! a)" "r3_wss_send_task s2 = r3_wss_send_task s"
      using s1 by (auto simp: s2_def serving_def abs_resp_def upd_ctx_def)
    from False assms(3) have "\<not> resp_ended (abs_resp (ctxs s2 ! a))"
      by (auto simp only: s2(2) resp_step.simps split: if_splits)
    then have opened: "\<not> chan_closed (tgt_res_bdy (ctxs s2 ! a))" by (simp add: abs_resp_def)
    from False assms(3) have
      R: "R = (abs_resp (ctxs s ! a))\<lparr>resp_body := chan_items (tgt_res_bdy (ctxs s ! a)) @ [Inr p], resp_ended := e\<rparr>"
      by (auto simp: abs_resp_def split: if_splits)
    from deliver_serving [OF s2(1) opened, of E e p] obtain t where
      t: "deliver_body E a e k p s2 = (t, Inr ())" "serving k a t" "abs_resp (ctxs t ! a) = R"
      "chan_items (r3_wss_send_task t) = chan_items (r3_wss_send_task s) @ res_credit k (BodyChunk e p)"
      using False s2 by (auto simp: R abs_resp_def)
    then show ?thesis
      using ok False hooks_pass [OF assms(2)]
      by (simp add: handle_data_def Let_def s1_def [symmetric] s2_def [symmetric])
  qed
qed

lemma header_refines:
  assumes "serving k a s" "resp_step (abs_resp (ctxs s ! a)) (HeadPart he se p) = Some R"
  shows "\<exists>t. handle_header E a (frame_flags he se) k p s = (t, Inr ()) \<and> serving k a t \<and> abs_resp (ctxs t ! a) = R \<and>
    chan_items (r3_wss_send_task t) = chan_items (r3_wss_send_task s) @ res_credit k (HeadPart he se p)"
proof -
  define s1 where "s1 = (if se then upd_ctx a (\<lambda>c. c\<lparr>is_end_stream_received_from_tgt := True\<rparr>) s else s)"
  have s1: "serving k a s1" "abs_resp (ctxs s1 ! a) = abs_resp (ctxs s ! a)" "r3_wss_send_task s1 = r3_wss_send_task s"
    using mark_ended_serving [OF assms(1), of se] by (simp_all add: s1_def Let_def)
  have ok: "check_if_tgt_can_send_res_first a k s = Inr ()"
    using assms(1) by (simp add: serving_def check_if_tgt_can_send_res_first_def get_ctx_def)
  from assms(2) obtain part where part: "from_utf8 p = Some part" "length p < 2 ^ 31"
      "he \<Longrightarrow> \<not> chan_closed (tgt_res_hdr (ctxs s1 ! a))"
    and R: "R = (abs_resp (ctxs s ! a))\<lparr>resp_text := header_line_builder (ctxs s ! a) @ part,
      resp_heads := chan_items (tgt_res_hdr (ctxs s ! a)) @ (if he then [Inr (header_line_builder (ctxs s ! a) @ part)] else []),
      resp_ended := chan_closed (tgt_res_bdy (ctxs s ! a)) \<or> se\<rparr>"
    using s1 by (auto simp: abs_resp_def serving_def split: option.splits if_splits)
  define s2 where "s2 = fst (take_header_text E a he part s1)"
  have s2: "take_header_text E a he part s1 = (s2, Inr ())" "serving k a s2" "r3_wss_send_task s2 = r3_wss_send_task s"
    "(if se then (abs_resp (ctxs s2 ! a))\<lparr>resp_ended := True\<rparr> else abs_resp (ctxs s2 ! a)) = R"
    using part s1 unfolding s2_def R
    by (auto simp: take_header_text_def Let_def chan_send_def get_ctx_def upd_ctx_def serving_def abs_resp_def)
  define s3 where "s3 = (if se then fst (notify_client_request_close E a 1000 None s2) else s2)"
  have s3: "serving k a s3" "abs_resp (ctxs s3 ! a) = R" "r3_wss_send_task s3 = r3_wss_send_task s"
    using s2 close_normal [OF s2(2), of E] by (auto simp: s3_def Let_def split: if_splits)
  have "handle_header E a (frame_flags he se) k p s = send_data E (WBinary (window_update_message k (of_nat (length p)))) s3"
    using ok part s2(1) by (simp add: handle_header_def header_frame_text_def Let_def s1_def [symmetric] s3_def [symmetric])
  then show ?thesis
    using send_serving [OF s3(1), of E "WBinary (window_update_message k (of_nat (length p)))"] s3
    by (cases "send_data E (WBinary (window_update_message k (of_nat (length p)))) s3") (simp add: Let_def)
qed

lemma on_binary_refines:
  assumes "serving k a s" "hooks_agree E" "resp_step (abs_resp (ctxs s ! a)) f = Some R"
  shows "\<exists>t. on_binary E (res_frame_bytes k f) s = Ret (t, Inr ()) \<and> serving k a t \<and> abs_resp (ctxs t ! a) = R \<and>
    chan_items (r3_wss_send_task t) = chan_items (r3_wss_send_task s) @ res_credit k f"
proof (cases f)
  case (HeadPart he se p)
  with header_refines [OF assms(1), of he se p R E] assms show ?thesis
    by (auto simp: on_binary_def decode_frame_bytes check_if_context_exists_def serving_def dispatch_frame_def
        MESSAGE_TYPE_DATA_def MESSAGE_TYPE_HEADER_def)
next
  case (BodyChunk e p)
  have "decode_frame (res_frame_bytes k f) = Ret (Frame MESSAGE_TYPE_DATA (if e then 1 else 0) k p)"
    using decode_frame_bytes by (simp add: BodyChunk data_messages_def)
  with BodyChunk data_refines [OF assms(1,2), of e p R] assms show ?thesis
    by (auto simp: on_binary_def check_if_context_exists_def serving_def dispatch_frame_def)
qed

lemma response_run:
  assumes "serving k a s" "hooks_agree E" "resp_run (abs_resp (ctxs s ! a)) fs = Some R"
  shows "\<exists>t. binary_run E (map (res_frame_bytes k) fs) s = Ret t \<and> serving k a t \<and> abs_resp (ctxs t ! a) = R \<and>
    chan_items (r3_wss_send_task t) = chan_items (r3_wss_send_task s) @ concat (map (res_credit k) fs)"
  using assms(1,3)
proof (induction fs arbitrary: s)
  case (Cons f fs)
  then obtain R' where R': "resp_step (abs_resp (ctxs s ! a)) f = Some R'" "resp_run R' fs = Some R"
    by (auto split: option.splits)
  from on_binary_refines [OF Cons.prems(1) assms(2) R'(1)] obtain t where
    t: "on_binary E (res_frame_bytes k f) s = Ret (t, Inr ())" "serving k a t" "abs_resp (ctxs t ! a) = R'"
    "chan_items (r3_wss_send_task t) = chan_items (r3_wss_send_task s) @ res_credit k f" by blast
  from Cons.IH [OF t(2)] R'(2) t show ?case by auto
qed simp

text \<open>
  Claim C3: the socket implements the specification of a response. From any state that serves a
  request, and for any sequence of frames for it the specification accepts, the handler processes
  all of them; the context then holds exactly the specified head, chunks and end, in order; and the
  connector has been credited every payload in order, with its length.
\<close>

theorem response_refinement:
  assumes "serving k a s" "hooks_agree E" "resp_run (abs_resp (ctxs s ! a)) fs = Some R"
  shows "\<exists>t. binary_run E (map (res_frame_bytes k) fs) s = Ret t \<and> abs_resp (ctxs t ! a) = R \<and>
    chan_items (r3_wss_send_task t) = chan_items (r3_wss_send_task s) @ concat (map (res_credit k) fs)"
  using response_run [OF assms] by blast

lemma sample_sent_serving:
  "serving 1 0 sample_sent"
  "abs_resp (ctxs sample_sent ! 0) = \<lparr>resp_text = [], resp_heads = [], resp_body = [], resp_ended = False\<rparr>"
  "\<not> is_completed (ctx_state (ctxs sample_sent ! 0))" "\<not> is_rst_stream_sent (ctxs sample_sent ! 0)"
  by (simp_all add: serving_def abs_resp_def sample_sent_def part_one_start_def Let_def header_messages_def header_chunk_size_def
      send_data_def chan_send_def upd_ctx_def sample_two_ctxs ctx_new_def inc_rtr_to_tgt_pending_ack_bytes_def am_get_Cons)

text \<open>A response in four frames: a head in two parts, a chunk, and the end.\<close>

theorem response_refinement_witness:
  "\<exists>t. binary_run sample_env (map (res_frame_bytes 1)
       [HeadPart False False (as_bytes ''HTTP/1.1 ''), HeadPart True False (as_bytes ''200 OK''), BodyChunk False [104, 105], BodyChunk True []])
     sample_sent = Ret t \<and>
   abs_resp (ctxs t ! 0) = \<lparr>resp_text = ''HTTP/1.1 200 OK'', resp_heads = [Inr ''HTTP/1.1 200 OK''], resp_body = [Inr [104, 105]], resp_ended = True\<rparr>"
proof -
  have "hooks_agree sample_env" by (simp add: hooks_agree_def sample_env_def default_listener_def)
  moreover have "resp_run (abs_resp (ctxs sample_sent ! 0))
      [HeadPart False False (as_bytes ''HTTP/1.1 ''), HeadPart True False (as_bytes ''200 OK''), BodyChunk False [104, 105], BodyChunk True []] =
    Some \<lparr>resp_text = ''HTTP/1.1 200 OK'', resp_heads = [Inr ''HTTP/1.1 200 OK''], resp_body = [Inr [104, 105]], resp_ended = True\<rparr>"
  proof -
    have "from_utf8 (as_bytes ''HTTP/1.1 '') = Some ''HTTP/1.1 ''" "from_utf8 (as_bytes ''200 OK'') = Some ''200 OK''"
      by (rule from_utf8_as_bytes, code_simp)+
    then show ?thesis by (simp add: sample_sent_serving)
  qed
  ultimately show ?thesis
    using response_refinement [OF sample_sent_serving(1)] by blast
qed

section \<open>A refused frame\<close>

text \<open>What is left of a refused frame before the stream is reset: channels, queue and flags are as before.\<close>

definition same_channels :: "nat \<Rightarrow> rs3 \<Rightarrow> rs3 \<Rightarrow> bool" where
  "same_channels a s t \<longleftrightarrow> tgt_res_hdr (ctxs t ! a) = tgt_res_hdr (ctxs s ! a) \<and> tgt_res_bdy (ctxs t ! a) = tgt_res_bdy (ctxs s ! a) \<and>
     is_rst_stream_sent (ctxs t ! a) = is_rst_stream_sent (ctxs s ! a) \<and> ctx_state (ctxs t ! a) = ctx_state (ctxs s ! a) \<and>
     request_id (ctxs t ! a) = request_id (ctxs s ! a) \<and> length (ctxs t) = length (ctxs s) \<and>
     context_map t = context_map s \<and> r3_wss_send_task t = r3_wss_send_task s"

lemma provide_error_all:
  assumes "\<forall>b \<in> set as. b < length (ctxs s)"
  shows "let t = foldl (\<lambda>s a. upd_ctx a (\<lambda>c. c\<lparr>ctx_error := Some e\<rparr>) s) s as in
    (\<forall>b \<in> set as. ctx_error (ctxs t ! b) = Some e) \<and> (\<forall>b. ctx_error (ctxs s ! b) = Some e \<longrightarrow> ctx_error (ctxs t ! b) = Some e) \<and>
    same_channels a s t"
  using assms
proof (induction as arbitrary: s)
  case (Cons x as)
  let ?s = "upd_ctx x (\<lambda>c. c\<lparr>ctx_error := Some e\<rparr>) s"
  have "length (ctxs ?s) = length (ctxs s)" "same_channels a s ?s" "ctx_error (ctxs ?s ! x) = Some e"
    "\<forall>b. ctx_error (ctxs s ! b) = Some e \<longrightarrow> ctx_error (ctxs ?s ! b) = Some e"
    using Cons.prems by (auto simp: upd_ctx_def same_channels_def nth_list_update_neq nth_list_update split: if_splits)
  moreover have "same_channels a s u" if "same_channels a ?s u" for u
    using that \<open>same_channels a s ?s\<close> by (simp add: same_channels_def)
  ultimately show ?case
    using Cons.IH [of ?s] Cons.prems by (simp add: Let_def)
qed (simp add: same_channels_def)

lemma serving_checked: "serving k a s \<Longrightarrow> check_if_tgt_can_send_res_first a k s = Inr () \<and> a < length (ctxs s)"
  by (simp add: serving_def check_if_tgt_can_send_res_first_def get_ctx_def)

lemma refused_head:
  assumes "serving k a s" "resp_step (abs_resp (ctxs s ! a)) (HeadPart he se p) = None"
  shows "\<exists>t e. handle_header E a (frame_flags he se) k p s = (t, Inl e) \<and> same_channels a s t"
proof -
  note ok = serving_checked [OF assms(1)]
  define s1 where "s1 = (if se then upd_ctx a (\<lambda>c. c\<lparr>is_end_stream_received_from_tgt := True\<rparr>) s else s)"
  have s1: "same_channels a s s1" "a < length (ctxs s1)"
    using ok by (auto simp: s1_def same_channels_def upd_ctx_def)
  show ?thesis
  proof (cases "header_frame_text E k p s1")
    case (Inl e)
    then show ?thesis using s1 ok by (simp add: handle_header_def Let_def s1_def [symmetric])
  next
    case (Inr part)
    then have "from_utf8 p = Some part" "length p < 2 ^ 31"
      by (auto simp: header_frame_text_def Let_def split: if_splits option.splits)
    then have "he" "chan_closed (tgt_res_hdr (ctxs s1 ! a))"
      using assms s1(1) by (auto simp: abs_resp_def serving_def same_channels_def split: if_splits)
    then have "\<exists>e. take_header_text E a he part s1 = (upd_ctx a (\<lambda>c. c\<lparr>header_line_builder := header_line_builder c @ part\<rparr>) s1, Inl e)"
      using s1(2) by (simp add: take_header_text_def Let_def chan_send_def get_ctx_def upd_ctx_def)
    moreover have "same_channels a s (upd_ctx a (\<lambda>c. c\<lparr>header_line_builder := header_line_builder c @ part\<rparr>) s1)"
      using s1 by (simp add: same_channels_def upd_ctx_def)
    ultimately show ?thesis using Inr ok by (auto simp: handle_header_def Let_def s1_def [symmetric])
  qed
qed

lemma refused_chunk:
  assumes "serving k a s" "resp_step (abs_resp (ctxs s ! a)) (BodyChunk e p) = None" "v3_inv s"
  shows "\<exists>t x. handle_data E a (if e then 1 else 0) k p s = (t, Inl x) \<and> same_channels a s t \<and>
    (\<forall>b \<in> snd ` set (context_map s). ctx_error (ctxs t ! b) \<noteq> None)"
proof -
  note ok = serving_checked [OF assms(1)]
  define s1 where "s1 = (if e then upd_ctx a (\<lambda>c. c\<lparr>is_end_stream_received_from_tgt := True\<rparr>) s else s)"
  define s2 where "s2 = upd_ctx a (\<lambda>c. c\<lparr>wss_on_binary_call_count := wss_on_binary_call_count c + 1\<rparr>) s1"
  have s2: "same_channels a s s2" "a < length (ctxs s2)"
    using ok by (auto simp: s1_def s2_def same_channels_def upd_ctx_def)
  have p: "p \<noteq> []" "chan_closed (tgt_res_bdy (get_ctx s2 a))"
    using assms(2) s2(1) by (auto simp: abs_resp_def same_channels_def get_ctx_def split: if_splits)
  define x where "x = crex_new (''rare ex failed to send bin to tgt_res_bdy chan: '' @ dbg_send_error E)"
  define s3 where "s3 = try_provide_general_error (Some x) s2"
  have "\<forall>b \<in> set (map snd (context_map s2)). b < length (ctxs s2)"
    using s2(1) map_refs_valid [OF assms(3)] by (simp add: same_channels_def)
  from provide_error_all [OF this, of x a] have s3: "same_channels a s s3" "\<forall>b \<in> snd ` set (context_map s). ctx_error (ctxs s3 ! b) = Some x"
    using s2(1) by (auto simp: s3_def try_provide_general_error_def Let_def same_channels_def)
  have "deliver_body E a e k p s2 = (s3, Inl x)"
    using p by (simp add: deliver_body_def chan_send_def s3_def x_def Let_def)
  moreover have "\<exists>y. response_chunk_hooks E a p (s3, Inl x) = (s3, Inl y)"
    by (auto simp: response_chunk_hooks_def split: sum.split)
  ultimately have "\<exists>y. handle_data E a (if e then 1 else 0) k p s = (s3, Inl y)"
    using ok p by (simp add: handle_data_def Let_def s1_def [symmetric] s2_def [symmetric])
  with s3 show ?thesis by auto
qed

lemma refused_dispatch:
  assumes "serving k a s" "resp_step (abs_resp (ctxs s ! a)) f = None" "v3_inv s"
  shows "\<exists>ty fl p s1 e. decode_frame (res_frame_bytes k f) = Ret (Frame ty fl k p) \<and>
    dispatch_frame E ty fl k p a s = Ret (s1, Inl e) \<and> same_channels a s s1 \<and>
    ((\<exists>e' p'. f = BodyChunk e' p') \<longrightarrow> (\<forall>b \<in> snd ` set (context_map s). ctx_error (ctxs s1 ! b) \<noteq> None))"
proof (cases f)
  case (HeadPart he se p)
  with refused_head [OF assms(1), of he se p E] assms(2) show ?thesis
    by (auto simp: decode_frame_bytes dispatch_frame_def MESSAGE_TYPE_HEADER_def MESSAGE_TYPE_DATA_def)
next
  case (BodyChunk e p)
  have "decode_frame (res_frame_bytes k f) = Ret (Frame MESSAGE_TYPE_DATA (if e then 1 else 0) k p)"
    using decode_frame_bytes by (simp add: BodyChunk data_messages_def)
  with refused_chunk [OF assms(1), of e p E] assms(2,3) BodyChunk show ?thesis by (auto simp: dispatch_frame_def)
qed

text \<open>
  Claim C20: a frame that the specification of a response refuses ends that request and nothing
  else: the handler succeeds, the client is given an error on every channel that is still open, the
  completion is reported, the removal of the request is spawned, and the connector is sent one reset
  frame with code 1001, unless it was already sent one. A body chunk after the end also leaves an
  error in every registered context.
\<close>

theorem refused_frame_resets:
  assumes "v3_reachable H Es s" "serving k a s" "resp_step (abs_resp (ctxs s ! a)) f = None"
    and "\<not> is_completed (ctx_state (ctxs s ! a))"
  shows "\<exists>t e. on_binary E (res_frame_bytes k f) s = Ret (t, Inr ()) \<and>
    chan_items (r3_wss_send_task t) = chan_items (r3_wss_send_task s) @
      (if is_rst_stream_sent (ctxs s ! a) then [] else [WBinary (rst_message k 1001 ''Going away'')]) \<and>
    is_rst_stream_sent (ctxs t ! a) \<and> tgt_res_hdr (ctxs t ! a) = chan_push (tgt_res_hdr (ctxs s ! a)) (Inl e) \<and>
    tgt_res_bdy (ctxs t ! a) = chan_push (tgt_res_bdy (ctxs s ! a)) (Inl e) \<and>
    k \<in> set (removal_tasks t) \<and> k \<in> set (r3_completions t) \<and>
    ((\<exists>e' p. f = BodyChunk e' p) \<longrightarrow> (\<forall>b \<in> snd ` set (context_map s). ctx_error (ctxs t ! b) \<noteq> None))"
proof -
  from refused_dispatch [OF assms(2,3) v3_reachable_inv [OF assms(1)], of E] obtain ty fl p s1 e where
    d: "decode_frame (res_frame_bytes k f) = Ret (Frame ty fl k p)" "dispatch_frame E ty fl k p a s = Ret (s1, Inl e)"
      "same_channels a s s1"
      "(\<exists>e' p. f = BodyChunk e' p) \<longrightarrow> (\<forall>b \<in> snd ` set (context_map s). ctx_error (ctxs s1 ! b) \<noteq> None)" by blast
  let ?t = "reset_stream E a 1001 ''Going away'' (notify_client_request_error E a e s1)"
  have "on_binary E (res_frame_bytes k f) s = Ret (?t, Inr ())"
    using d(1,2) assms(2) by (simp add: on_binary_def check_if_context_exists_def serving_def)
  moreover have "a < length (ctxs s1)" "am_get (context_map s1) k = Some a" "request_id (ctxs s1 ! a) = k"
      "\<not> chan_closed (r3_wss_send_task s1)" "\<not> is_completed (ctx_state (ctxs s1 ! a))"
    using d(3) assms(2,4) by (simp_all add: same_channels_def serving_def)
  then have "chan_items (r3_wss_send_task ?t) = chan_items (r3_wss_send_task s1) @
      (if is_rst_stream_sent (ctxs s1 ! a) then [] else [WBinary (rst_message k 1001 ''Going away'')])"
    "is_rst_stream_sent (ctxs ?t ! a)" "k \<in> set (removal_tasks ?t)" "k \<in> set (r3_completions ?t)"
    "\<exists>e. tgt_res_hdr (ctxs ?t ! a) = chan_push (tgt_res_hdr (ctxs s1 ! a)) (Inl e) \<and>
       tgt_res_bdy (ctxs ?t ! a) = chan_push (tgt_res_bdy (ctxs s1 ! a)) (Inl e)"
    "\<forall>b. ctx_error (ctxs s1 ! b) \<noteq> None \<longrightarrow> ctx_error (ctxs ?t ! b) \<noteq> None"
    by (auto simp: reset_stream_def notify_client_request_error_def Let_def upd_ctx_def get_ctx_def raise_completion_event_def
        try_spawn_remove_req_ctx_def send_data_def chan_send_def send_err_both_def nth_list_update split: if_splits)
  ultimately show ?thesis
    using d(3,4) unfolding same_channels_def by auto
qed

text \<open>A head part of one byte that is no text.\<close>

theorem refused_frame_resets_witness:
  "\<exists>t. on_binary sample_env (res_frame_bytes 1 (HeadPart False False [255])) sample_sent = Ret (t, Inr ()) \<and>
     chan_items (r3_wss_send_task t) = chan_items (r3_wss_send_task sample_sent) @ [WBinary (rst_message 1 1001 ''Going away'')]"
proof -
  have "from_utf8 [255] = None" by code_simp
  then have "resp_step (abs_resp (ctxs sample_sent ! 0)) (HeadPart False False [255]) = None" by simp
  from refused_frame_resets [OF sample_sent_reachable sample_sent_serving(1) this sample_sent_serving(3), of sample_env]
  show ?thesis using sample_sent_serving(4) by auto
qed

section \<open>The end of a socket\<close>

lemma raise_keeps:
  assumes "a < length (ctxs s)"
  shows "tgt_res_hdr (ctxs (fst (raise_completion_event E x s)) ! a) = tgt_res_hdr (ctxs s ! a)"
    "tgt_res_bdy (ctxs (fst (raise_completion_event E x s)) ! a) = tgt_res_bdy (ctxs s ! a)"
    "ctx_error (ctxs (fst (raise_completion_event E x s)) ! a) = ctx_error (ctxs s ! a)"
proof -
  have "\<exists>d. ctxs (upd_ctx b (\<lambda>c. c\<lparr>duration_millis := f c\<rparr>) s) ! a = (ctxs s ! a)\<lparr>duration_millis := d\<rparr>" for b f
    using assms by (cases "b = a") (auto simp: upd_ctx_def intro: exI [of _ "duration_millis (ctxs s ! a)"])
  then have "\<exists>d. ctxs (fst (raise_completion_event E x s)) ! a = (ctxs s ! a)\<lparr>duration_millis := d\<rparr>"
    by (auto simp: raise_completion_event_def intro: exI [of _ "duration_millis (ctxs s ! a)"] split: option.split)
  then show "tgt_res_hdr (ctxs (fst (raise_completion_event E x s)) ! a) = tgt_res_hdr (ctxs s ! a)"
    "tgt_res_bdy (ctxs (fst (raise_completion_event E x s)) ! a) = tgt_res_bdy (ctxs s ! a)"
    "ctx_error (ctxs (fst (raise_completion_event E x s)) ! a) = ctx_error (ctxs s ! a)"
    by auto
qed

lemma raise_records:
  "removal_tasks (fst (raise_completion_event E (Some k) s)) = removal_tasks s"
  "r3_completions (fst (raise_completion_event E (Some k) s)) = r3_completions s @ (if am_get (context_map s) k = None then [] else [k])"
  by (simp_all add: raise_completion_event_def upd_ctx_def split: option.split)

lemma close_one:
  assumes "a < length (ctxs s)"
  shows "let t = fst (notify_client_request_close E a wcode opt_reason s) in
    chan_closed (tgt_res_hdr (ctxs t ! a)) \<and> chan_closed (tgt_res_bdy (ctxs t ! a)) \<and>
    removal_tasks t = removal_tasks s @ [request_id (ctxs s ! a)] \<and>
    r3_completions t = r3_completions s @ (if am_get (context_map s) (request_id (ctxs s ! a)) = None then [] else [request_id (ctxs s ! a)])"
proof -
  let ?k = "request_id (ctxs s ! a)"
  define s1 where "s1 = (if is_cli_req_not_start_to_send_to_tgt_yet (get_ctx s a)
      then (if wcode = 1011 then cli_fail_prior_to_tgt_res a (Some ''ws code 1011'') (Some 502) s
            else if wcode = 1008 then cli_fail_prior_to_tgt_res a (Some ''ws code 1008'') (Some 400) s else s) else s)"
  define s1' where "s1' = (if wcode = 1000 then s1 else upd_ctx a (send_err_both (crex_new (''upstream server error: ws code='' @
      show_nat wcode @ '', reason='' @ (case opt_reason of Some r \<Rightarrow> r | None \<Rightarrow> ''closed by router'')))) s1)"
  define s2 where "s2 = (if \<not> chan_closed (tgt_res_hdr (get_ctx s1 a)) \<or> \<not> chan_closed (tgt_res_bdy (get_ctx s1 a))
      then upd_ctx a (\<lambda>c. c\<lparr>tgt_res_hdr := chan_close (tgt_res_hdr c), tgt_res_bdy := chan_close (tgt_res_bdy c)\<rparr>) s1' else s1)"
  have t: "fst (notify_client_request_close E a wcode opt_reason s) = try_spawn_remove_req_ctx ?k (fst (raise_completion_event E (Some ?k) s2))"
    using raise_completion_ok [of E "Some ?k" s2]
    unfolding notify_client_request_close_def s2_def s1'_def s1_def get_ctx_def Let_def by (simp only: split_beta) simp
  have "length (ctxs s1) = length (ctxs s) \<and> context_map s1 = context_map s \<and> removal_tasks s1 = removal_tasks s \<and> r3_completions s1 = r3_completions s"
    by (simp add: s1_def cli_fail_prior_to_tgt_res_def upd_ctx_def Let_def)
  then have "context_map s2 = context_map s \<and> removal_tasks s2 = removal_tasks s \<and> r3_completions s2 = r3_completions s \<and>
      chan_closed (tgt_res_hdr (ctxs s2 ! a)) \<and> chan_closed (tgt_res_bdy (ctxs s2 ! a)) \<and> a < length (ctxs s2)"
    using assms by (simp add: s2_def s1'_def upd_ctx_def get_ctx_def)
  then show ?thesis
    unfolding t by (simp add: raise_records raise_keeps try_spawn_remove_req_ctx_def Let_def)
qed

lemma quiet_channels:
  assumes "quiet strict a s t" "b < length (ctxs s)" "b \<noteq> a"
  shows "tgt_res_hdr (ctxs t ! b) = tgt_res_hdr (ctxs s ! b) \<and> tgt_res_bdy (ctxs t ! b) = tgt_res_bdy (ctxs s ! b)"
proof -
  have "forget_error (ctxs t ! b) = forget_error (ctxs s ! b)"
    using assms by (simp add: quiet_def)
  from arg_cong [OF this, of tgt_res_hdr] arg_cong [OF this, of tgt_res_bdy] show ?thesis
    by (simp add: forget_error_def)
qed

lemma close_fold:
  fixes E :: "(ctx, 'm) sock_env" and wcode :: nat and opt_reason :: "string option"
  defines "f \<equiv> \<lambda>s a. fst (notify_client_request_close E a wcode opt_reason s)"
  assumes "v3_inv s" "\<forall>a \<in> set as. a < length (ctxs s) \<and> am_get (context_map s) (request_id (ctxs s ! a)) \<noteq> None"
  shows "(\<forall>a \<in> set as. chan_closed (tgt_res_hdr (ctxs (foldl f s as) ! a)) \<and> chan_closed (tgt_res_bdy (ctxs (foldl f s as) ! a))) \<and>
    (\<forall>b < length (ctxs s). chan_closed (tgt_res_hdr (ctxs s ! b)) \<and> chan_closed (tgt_res_bdy (ctxs s ! b)) \<longrightarrow>
       chan_closed (tgt_res_hdr (ctxs (foldl f s as) ! b)) \<and> chan_closed (tgt_res_bdy (ctxs (foldl f s as) ! b))) \<and>
    removal_tasks (foldl f s as) = removal_tasks s @ map (\<lambda>a. request_id (ctxs s ! a)) as \<and>
    r3_completions (foldl f s as) = r3_completions s @ map (\<lambda>a. request_id (ctxs s ! a)) as"
  using assms(2,3)
proof (induction as arbitrary: s)
  case (Cons a as)
  let ?s = "f s a"
  have q: "quiet True a s ?s"
    unfolding f_def by (rule close_quiet_inv) (use Cons.prems in simp_all)
  then have same: "length (ctxs ?s) = length (ctxs s)" "context_map ?s = context_map s"
    "\<And>b. b < length (ctxs s) \<Longrightarrow> request_id (ctxs ?s ! b) = request_id (ctxs s ! b)"
    by (auto simp: quiet_def)
  have one: "chan_closed (tgt_res_hdr (ctxs ?s ! a))" "chan_closed (tgt_res_bdy (ctxs ?s ! a))"
    "removal_tasks ?s = removal_tasks s @ [request_id (ctxs s ! a)]" "r3_completions ?s = r3_completions s @ [request_id (ctxs s ! a)]"
    using close_one [of a s E wcode opt_reason] Cons.prems by (auto simp: f_def Let_def)
  have keep: "chan_closed (tgt_res_hdr (ctxs ?s ! b)) \<and> chan_closed (tgt_res_bdy (ctxs ?s ! b))"
    if "b < length (ctxs s)" "chan_closed (tgt_res_hdr (ctxs s ! b)) \<and> chan_closed (tgt_res_bdy (ctxs s ! b))" for b
    using that one quiet_channels [OF q, of b] by (cases "b = a") simp_all
  have "v3_inv ?s" using quiet_inv [OF q] Cons.prems by blast
  from Cons.IH [OF this] Cons.prems same one keep show ?case by auto
qed simp

lemma map_entry:
  assumes "v3_inv s" "a \<in> set (map snd (context_map s))"
  shows "a < length (ctxs s)" "am_get (context_map s) (request_id (ctxs s ! a)) = Some a"
proof -
  from assms(2) obtain k where k: "(k, a) \<in> set (context_map s)" by auto
  with assms(1) show "a < length (ctxs s)" by (auto simp: v3_inv_def map_ok_def)
  have "am_get (context_map s) k = Some a"
    using assms(1) k by (auto simp: v3_inv_def map_ok_def am_ok_def am_get_def intro!: map_of_is_SomeI)
  then show "am_get (context_map s) (request_id (ctxs s ! a)) = Some a"
    using assms(1) k by (auto simp: v3_inv_def map_ok_def)
qed

lemma map_keys: "v3_inv s \<Longrightarrow> map (\<lambda>a. request_id (ctxs s ! a)) (map snd (context_map s)) = map fst (context_map s)"
  by (auto simp: v3_inv_def map_ok_def intro!: map_cong)

text \<open>
  Claim C21: when the websocket closes, whatever the close frame says, every registered request ends:
  its header and body channels are closed, its completion is reported once and its removal is
  spawned; the socket is marked removed and asks the farm, if that still exists, to forget it,
  once however many closes there are.
\<close>

theorem on_close_ends_all:
  assumes "v3_reachable H Es s"
  shows "let t = fst (on_close E frame s) in
    snd (on_close E frame s) = Inr () \<and> r3_is_removed t \<and> context_map t = context_map s \<and>
    (\<forall>(k, a) \<in> set (context_map s). chan_closed (tgt_res_hdr (ctxs t ! a)) \<and> chan_closed (tgt_res_bdy (ctxs t ! a))) \<and>
    r3_completions t = r3_completions s @ map fst (context_map s) \<and>
    removal_tasks t = removal_tasks s @ map fst (context_map s) \<and>
    r3_farm_removals t = r3_farm_removals s @
      (if \<not> r3_is_removed s \<and> r3_farm_alive s then [(r3_route s, r3_router_socket_id s)] else [])"
proof -
  define s1 where "s1 = remove_from_farm s"
  define wcode where "wcode = fst (case frame of Some (c, r) \<Rightarrow> (c, Some r) | None \<Rightarrow> (4000, None :: string option))"
  define opt_reason where "opt_reason = snd (case frame of Some (c, r) \<Rightarrow> (c, Some r) | None \<Rightarrow> (4000 :: nat, None))"
  let ?as = "map snd (context_map s)"
  let ?f = "\<lambda>s a. fst (notify_client_request_close E a wcode opt_reason s)"
  have same: "context_map s1 = context_map s" "ctxs s1 = ctxs s" "r3_completions s1 = r3_completions s"
    "removal_tasks s1 = removal_tasks s" "r3_is_removed s1" "req_id_generator s1 = req_id_generator s"
    "r3_wss_send_task s1 = r3_wss_send_task s"
    "r3_farm_removals s1 = r3_farm_removals s @ (if \<not> r3_is_removed s \<and> r3_farm_alive s then [(r3_route s, r3_router_socket_id s)] else [])"
    by (auto simp: s1_def remove_from_farm_def)
  define t where "t = foldl ?f s1 ?as"
  have close: "on_close E frame s = (t, Inr ())"
    by (simp add: on_close_def Let_def s1_def [symmetric] same split_beta wcode_def opt_reason_def t_def)
  have inv: "v3_inv s" by (rule v3_reachable_inv [OF assms])
  then have inv1: "v3_inv s1" by (rule v3_inv_cong) (simp_all add: same)
  have entries: "\<forall>a \<in> set ?as. a < length (ctxs s1) \<and> am_get (context_map s1) (request_id (ctxs s1 ! a)) \<noteq> None"
    using map_entry [OF inv] by (simp only: same) blast
  have "v3_inv t \<and> length (ctxs t) = length (ctxs s1) \<and>
      context_map t = context_map s1 \<and> r3_is_removed t = r3_is_removed s1 \<and> r3_farm_removals t = r3_farm_removals s1"
    unfolding t_def by (rule fold_inv [where strict = True, OF _ inv1]) (use entries in \<open>auto intro: close_quiet_inv\<close>)
  then have kept: "context_map t = context_map s" "r3_is_removed t" "r3_farm_removals t = r3_farm_removals s1"
    by (simp_all add: same)
  have ended: "chan_closed (tgt_res_hdr (ctxs t ! a)) \<and> chan_closed (tgt_res_bdy (ctxs t ! a))" if "(k, a) \<in> set (context_map s)" for k a
    using close_fold [OF inv1 entries, of E wcode opt_reason, folded t_def] that by force
  have "removal_tasks t = removal_tasks s @ map fst (context_map s)" "r3_completions t = r3_completions s @ map fst (context_map s)"
    using close_fold [OF inv1 entries, of E wcode opt_reason, folded t_def] unfolding same map_keys [OF inv] by blast+
  with kept ended show ?thesis
    unfolding close by (auto simp: same(8) Let_def)
qed

theorem on_close_ends_all_witness:
  "r3_is_removed (fst (on_close sample_env (Some (1001, ''bye'')) sample_two)) \<and>
   r3_completions (fst (on_close sample_env (Some (1001, ''bye'')) sample_two)) = r3_completions sample_two @ [1, 2]"
  using on_close_ends_all [OF sample_two_reachable, of sample_env "Some (1001, ''bye'')"]
  by (simp add: Let_def sample_two_ctxs)

text \<open>The error every request of a terminated socket is given.\<close>

definition failed_with :: "crex \<Rightarrow> ctx \<Rightarrow> ctx \<Rightarrow> bool" where
  "failed_with e c d \<longleftrightarrow> tgt_res_hdr d = chan_push (tgt_res_hdr c) (Inl (error_for_client c e)) \<and>
     tgt_res_bdy d = chan_push (tgt_res_bdy c) (Inl (error_for_client c e)) \<and> ctx_error d = Some e"

lemma error_for_client_error [simp]: "error_for_client (c\<lparr>ctx_error := x\<rparr>) e = error_for_client c e"
  by (simp add: error_for_client_def is_cli_req_not_start_to_send_to_tgt_yet_def)

lemma error_one:
  assumes "a < length (ctxs s)"
  shows "failed_with e (ctxs s ! a) (ctxs (notify_client_request_error E a e s) ! a)"
proof -
  let ?s1 = "upd_ctx a (\<lambda>c. c\<lparr>ctx_error := Some e\<rparr>) s"
  define s2 where "s2 = upd_ctx a (send_err_both (error_for_client (get_ctx ?s1 a) e)) ?s1"
  have s2: "failed_with e (ctxs s ! a) (ctxs s2 ! a)" "a < length (ctxs s2)"
    using assms by (simp_all add: s2_def upd_ctx_def get_ctx_def failed_with_def send_err_both_def)
  have "failed_with e (ctxs s ! a) (ctxs (fst (raise_completion_event E x s2)) ! a)" for x
    using s2 by (simp add: raise_keeps failed_with_def)
  then show ?thesis
    unfolding notify_client_request_error_def s2_def [symmetric] Let_def split_beta by (simp add: try_spawn_remove_req_ctx_def)
qed

lemma error_fold:
  assumes "v3_inv s" "distinct as" "\<forall>a \<in> set as. a < length (ctxs s)"
  shows "\<forall>b < length (ctxs s).
    (if b \<in> set as then failed_with e (ctxs s ! b) (ctxs (foldl (\<lambda>s a. notify_client_request_error E a e s) s as) ! b)
     else ctxs (foldl (\<lambda>s a. notify_client_request_error E a e s) s as) ! b = ctxs s ! b)"
  using assms
proof (induction as arbitrary: s)
  case (Cons a as)
  define s' where "s' = notify_client_request_error E a e s"
  have q: "quiet True a s s'" unfolding s'_def by (rule error_quiet_inv) (use Cons.prems in simp_all)
  have same: "length (ctxs s') = length (ctxs s)" "\<And>b. b < length (ctxs s) \<Longrightarrow> b \<noteq> a \<Longrightarrow> ctxs s' ! b = ctxs s ! b"
    using q by (auto simp: quiet_def)
  have one: "failed_with e (ctxs s ! a) (ctxs s' ! a)"
    using error_one [of a s e E] Cons.prems(3) by (simp add: s'_def)
  have a: "a \<notin> set as" using Cons.prems(2) by simp
  have IH: "\<forall>b < length (ctxs s').
    (if b \<in> set as then failed_with e (ctxs s' ! b) (ctxs (foldl (\<lambda>s a. notify_client_request_error E a e s) s' as) ! b)
     else ctxs (foldl (\<lambda>s a. notify_client_request_error E a e s) s' as) ! b = ctxs s' ! b)"
    by (rule Cons.IH) (use quiet_inv [OF q] Cons.prems same in auto)
  show ?case
    unfolding foldl_Cons s'_def [symmetric]
  proof (intro allI impI)
    fix b assume b: "b < length (ctxs s)"
    show "if b \<in> set (a # as) then failed_with e (ctxs s ! b) (ctxs (foldl (\<lambda>s a. notify_client_request_error E a e s) s' as) ! b)
      else ctxs (foldl (\<lambda>s a. notify_client_request_error E a e s) s' as) ! b = ctxs s ! b"
      using IH [rule_format, of b] b same one a by (cases "b = a") (simp_all split: if_splits)
  qed
qed simp

lemma map_refs_distinct:
  assumes "v3_inv s"
  shows "distinct (map snd (context_map s))"
proof -
  have "distinct (map fst (context_map s))" using assms by (simp add: v3_inv_def map_ok_def am_ok_def)
  then have "distinct (map (\<lambda>a. request_id (ctxs s ! a)) (map snd (context_map s)))"
    unfolding map_keys [OF assms] .
  then show ?thesis using distinct_map by blast
qed

text \<open>
  Terminating the connections of a socket empties its registry and gives the error, with
  the status the state of the request calls for, to each registered request on each of its channels
  that is still open; contexts that are no longer registered stay as they are.
\<close>

lemma terminate_all_conn_fails_all:
  assumes "v3_reachable H Es s"
  shows "let t = fst (terminate_all_conn E (Some e) s) in
    snd (terminate_all_conn E (Some e) s) = Inr () \<and> context_map t = [] \<and> \<not> r3_is_active t \<and>
    (\<forall>b < length (ctxs s).
      (if b \<in> snd ` set (context_map s)
       then failed_with e (ctxs s ! b) (ctxs t ! b) else ctxs t ! b = ctxs s ! b))"
proof -
  have inv: "v3_inv s" by (rule v3_reachable_inv [OF assms])
  define u where "u = foldl (\<lambda>s a. notify_client_request_error E a e s) s (map snd (context_map s))"
  define t where "t = fst (terminate_all_conn E (Some e) s)"
  have t: "ctxs t = ctxs u" "context_map t = []" "snd (terminate_all_conn E (Some e) s) = Inr ()"
    by (simp_all add: t_def terminate_all_conn_def Let_def u_def)
  have "\<forall>a \<in> set (map snd (context_map s)). a < length (ctxs s)" using map_refs_valid [OF inv] by blast
  from error_fold [OF inv map_refs_distinct [OF inv] this, of e E] show ?thesis
    unfolding u_def [symmetric] t_def [symmetric] Let_def
    by (simp add: t r3_is_active_def inflight_count_def)
qed

lemma terminate_all_conn_fails_all_witness:
  "context_map (fst (terminate_all_conn sample_env (Some (crex_new ''gone'')) sample_two)) = [] \<and>
   ctx_error (ctxs (fst (terminate_all_conn sample_env (Some (crex_new ''gone'')) sample_two)) ! 1) = Some (crex_new ''gone'')"
  using terminate_all_conn_fails_all [OF sample_two_reachable, of sample_env "crex_new ''gone''"]
  by (auto simp: Let_def sample_two_ctxs failed_with_def)

section \<open>A request to the connector\<close>

text \<open>The frames a sender still has to send when reading the client's body meets no error.\<close>

fun body_frames :: "i32 \<Rightarrow> bytes res list \<Rightarrow> ws_message list" where
  "body_frames k [] = [WBinary (data_messages k True None)]"
| "body_frames k (Inr chunk # rest) = WBinary (data_messages k False (Some chunk)) # body_frames k rest"
| "body_frames k (Inl e # rest) = []"

fun todo :: "i32 \<Rightarrow> part_one \<Rightarrow> ws_message list" where
  "todo k (P1_Start head None) = map WBinary (header_messages k True True head)"
| "todo k (P1_Start head (Some body)) = map WBinary (header_messages k True False head) @ body_frames k body"
| "todo k (P1_Body body) = body_frames k body"
| "todo k (P1_Wait cb body) = body_frames k body"
| "todo k (P1_Finish has_body) = (if has_body then [WBinary (data_messages k True None)] else [])"
| "todo k (P1_Done r) = []"

fun failed :: "part_one \<Rightarrow> bool" where
  "failed (P1_Done (Inl e)) = True"
| "failed _ = False"

lemma upd_queue [simp]: "r3_wss_send_task (upd_ctx a f s) = r3_wss_send_task s"
  by (simp add: upd_ctx_def)

lemma send_ok:
  "send_data E m s = (t, Inr u) \<Longrightarrow> chan_items (r3_wss_send_task t) = chan_items (r3_wss_send_task s) @ [m]"
  by (auto simp: send_data_def chan_send_def split: if_splits)

lemma send_headers_queue:
  "send_header_frames E a fs s = (t, Inr u) \<Longrightarrow>
   chan_items (r3_wss_send_task t) = chan_items (r3_wss_send_task s) @ map WBinary fs"
  by (induction E a fs s rule: send_header_frames.induct)
    (auto simp: Let_def dest!: send_ok split: prod.splits sum.splits)

lemma chunk_step_queue:
  assumes "part_one_chunk E a k chunk rest s = (pc, t)" "\<not> failed pc"
  shows "chan_items (r3_wss_send_task t) = chan_items (r3_wss_send_task s) @ [WBinary (data_messages k False (Some chunk))] \<and>
    (pc = P1_Body rest \<or> (\<exists>cb. pc = P1_Wait cb rest))"
  using assms
  by (auto simp: part_one_chunk_def Let_def dest!: send_ok split: sum.splits prod.splits if_splits option.splits)

text \<open>
  Each step of the task that sends a request appends to the socket's queue exactly the next frames of the
  request, whatever the other tasks did before it.
\<close>

lemma sender_step_order:
  assumes "part_one_step E hdr a k pc s = (pc', t)" "\<not> failed pc'"
  shows "\<exists>sent. chan_items (r3_wss_send_task t) = chan_items (r3_wss_send_task s) @ sent \<and> todo k pc = sent @ todo k pc'"
  using assms
proof (cases "(E, hdr, a, k, pc, s)" rule: part_one_step.cases)
  case (1 E hdr a k head opt_body s)
  then show ?thesis
    using assms by (cases opt_body) (auto simp: part_one_start_def Let_def dest!: send_headers_queue split: prod.splits sum.splits)
next
  case (4 E hdr a k chunk rest s)
  then show ?thesis
    using assms chunk_step_queue [of E a k chunk rest s pc' t] by auto
next
  case (6 E hdr a k has_body s)
  then show ?thesis
    using assms by (auto simp: part_one_finish_def dest!: send_ok split: prod.splits sum.splits if_splits)
qed (use assms in \<open>auto split: if_splits\<close>)

text \<open>What a sender has left to do.\<close>

fun p1_size :: "part_one \<Rightarrow> nat" where
  "p1_size (P1_Start head opt_body) = (case opt_body of None \<Rightarrow> 3 | Some body \<Rightarrow> 2 * length body + 4)"
| "p1_size (P1_Body body) = 2 * length body + 2"
| "p1_size (P1_Wait cb body) = 2 * length body + 3"
| "p1_size (P1_Finish has_body) = 1"
| "p1_size (P1_Done r) = 0"



end
