(* ===== verification/Socket_Pipes.thy ===== *)
theory Socket_Pipes
  imports Router_Socket_V1 Socket_V3_Laws
begin

text \<open>
  The two tasks every socket runs (\<^verbatim>\<open>router_socket.rs\<close>): one dispatches what the connector sends to
  the handlers and turns their errors into an error of the socket; the other sends the queued
  messages and, on an error of the socket, shuts it down. They use a socket through a record of
  operations, of which version 1 and version 3 are instances; the locale states what the shutdown
  needs of them.
\<close>

section \<open>The operations of a socket\<close>

record 's wss_ops =
  op_on_text :: "string \<Rightarrow> 's \<Rightarrow> 's \<times> unit res"
  op_on_binary :: "bytes \<Rightarrow> 's \<Rightarrow> ('s \<times> unit res) outcome"
  op_on_ping :: "bytes \<Rightarrow> 's \<Rightarrow> 's \<times> unit res"
  op_on_close :: "(nat \<times> string) option \<Rightarrow> 's \<Rightarrow> 's \<times> unit res"
  op_on_error :: "crex \<Rightarrow> 's \<Rightarrow> 's \<times> unit res"
  op_is_removed :: "'s \<Rightarrow> bool"
  op_send_ws_msg :: "ws_message \<Rightarrow> 's \<Rightarrow> 's"
  op_try_provide_general_error :: "crex option \<Rightarrow> 's \<Rightarrow> 's"
  op_close_queue :: "'s \<Rightarrow> 's"
  op_ask_farm_removal :: "'s \<Rightarrow> 's"
  op_terminate_all_conn :: "crex option \<Rightarrow> 's \<Rightarrow> 's"
  op_inc_bytes_received :: "i32 \<Rightarrow> 's \<Rightarrow> 's"
  op_recv_err :: "'s \<Rightarrow> (crex \<times> 's) option"
  op_recv_task :: "'s \<Rightarrow> (ws_message \<times> 's) option"
  op_queue_closed :: "'s \<Rightarrow> bool"

section \<open>Receiving\<close>

text \<open>The default \<^verbatim>\<open>on_pong\<close> of \<^verbatim>\<open>websocket_listener.rs\<close> only logs.\<close>

fun recv_dispatch :: "'s wss_ops \<Rightarrow> ws_message \<Rightarrow> 's \<Rightarrow> ('s \<times> unit res) outcome" where
  "recv_dispatch ops (WText msg) s = Ret (op_on_text ops msg s)"
| "recv_dispatch ops (WBinary bin) s = op_on_binary ops bin s"
| "recv_dispatch ops (WPing ping_hello) s = Ret (op_on_ping ops ping_hello s)"
| "recv_dispatch ops (WPong pong_msg) s = Ret (s, Inr ())"
| "recv_dispatch ops (WClose opt_clo_fra) s = Ret (op_on_close ops opt_clo_fra s)"

definition recv_message :: "'s wss_ops \<Rightarrow> ws_message \<Rightarrow> 's \<Rightarrow> 's outcome" where
  "recv_message ops msg s =
     bind_outcome (recv_dispatch ops msg s) (\<lambda>(s1, r).
       Ret (case r of Inr _ \<Rightarrow> s1 | Inl ex \<Rightarrow> fst (op_on_error ops ex s1)))"

definition recv_end :: "'s wss_ops \<Rightarrow> crex option \<Rightarrow> 's \<Rightarrow> 's" where
  "recv_end ops may_ex s =
     (let s1 = (case may_ex of Some ex \<Rightarrow> fst (op_on_error ops ex s) | None \<Rightarrow> s)
      in if \<not> op_is_removed ops s1
         then fst (op_on_error ops (crex_new ''underlying wss already closed but still is_removed = false'') s1)
         else s1)"

text \<open>The stream gives messages until it ends, or an error, of which the debug text is given.\<close>

fun recv_pipe :: "'s wss_ops \<Rightarrow> (string + ws_message) list \<Rightarrow> 's \<Rightarrow> 's outcome" where
  "recv_pipe ops [] s = Ret (recv_end ops None s)"
| "recv_pipe ops (Inl wss_recv_err # _) s =
     Ret (recv_end ops (Some (crex_new (''underlying wss recv err: '' @ wss_recv_err @ ''.''))) s)"
| "recv_pipe ops (Inr msg # ms) s = bind_outcome (recv_message ops msg s) (recv_pipe ops ms)"

text \<open>What the timer does when nothing was read for too long, and the one of the sending side.\<close>

definition read_timeout :: "'s wss_ops \<Rightarrow> 's \<Rightarrow> 's" where
  "read_timeout ops s =
     fst (op_on_error ops (with_err_kind (crex_new ''uwss read idle timeout'') Timeout_0001)
       (op_send_ws_msg ops (WClose (Some (1001, ''timeout''))) s))"

definition write_timeout :: "'s wss_ops \<Rightarrow> 's \<Rightarrow> 's" where
  "write_timeout ops s = op_send_ws_msg ops (WPing (as_bytes ''ping'')) s"

section \<open>Sending\<close>

record 's pipe =
  p_sock :: 's
  p_sink :: "ws_message list"
  p_ended :: bool

text \<open>A slice of a text panics when its end is not between two characters.\<close>

definition is_char_boundary :: "string \<Rightarrow> nat \<Rightarrow> bool" where
  "is_char_boundary s n \<longleftrightarrow> n = length s \<or> n < length s \<and> \<not> cont_byte (code (s ! n))"

definition close_reason :: "string \<Rightarrow> string outcome" where
  "close_reason r = (if length r > 100 then (if is_char_boundary r 100 then Ret (take 100 r) else Panic) else Ret r)"

text \<open>The websocket takes the messages for which \<open>accepts\<close> holds; \<open>dbg\<close> renders its error otherwise.\<close>

definition send_pipe_err :: "(ws_message \<Rightarrow> bool) \<Rightarrow> 's wss_ops \<Rightarrow> crex \<Rightarrow> 's pipe \<Rightarrow> 's pipe outcome" where
  "send_pipe_err accepts ops crex p =
     (let s1 = (if \<not> op_is_removed ops (p_sock p) then op_try_provide_general_error ops (Some crex) (p_sock p) else p_sock p);
          s2 = op_close_queue ops s1
      in bind_outcome (close_reason (reason crex)) (\<lambda>reason_in_clo_frame.
           let clo = WClose (Some (1011, reason_in_clo_frame));
               s3 = (if \<not> op_is_removed ops s2 then op_ask_farm_removal ops s2 else s2)
           in Ret \<lparr>p_sock = op_terminate_all_conn ops (Some crex) s3,
                   p_sink = p_sink p @ (if accepts clo then [clo] else []), p_ended = True\<rparr>))"

text \<open>The length is converted to 32 bits; one that does not fit panics.\<close>

definition count_sent :: "'s wss_ops \<Rightarrow> nat \<Rightarrow> 's \<Rightarrow> 's outcome" where
  "count_sent ops n s = (if n < 2 ^ 31 then Ret (op_inc_bytes_received ops (of_nat n) s) else Panic)"

definition send_or_error :: "(ws_message \<Rightarrow> bool) \<Rightarrow> string \<Rightarrow> 's wss_ops \<Rightarrow> ws_message \<Rightarrow> 's pipe \<Rightarrow> 's pipe" where
  "send_or_error accepts dbg ops msg p =
     (if accepts msg then p\<lparr>p_sink := p_sink p @ [msg]\<rparr>
      else p\<lparr>p_sock := fst (op_on_error ops (crex_new (err_msg_for_uwss msg @ '' : '' @ dbg)) (p_sock p))\<rparr>)"

definition send_pipe_msg :: "(ws_message \<Rightarrow> bool) \<Rightarrow> string \<Rightarrow> 's wss_ops \<Rightarrow> ws_message \<Rightarrow> 's pipe \<Rightarrow> 's pipe outcome" where
  "send_pipe_msg accepts dbg ops msg p =
     (case msg of
        WBinary bin \<Rightarrow> bind_outcome (count_sent ops (length bin) (p_sock p)) (\<lambda>s. Ret (send_or_error accepts dbg ops msg (p\<lparr>p_sock := s\<rparr>)))
      | WText t \<Rightarrow> bind_outcome (count_sent ops (length t) (p_sock p)) (\<lambda>s. Ret (send_or_error accepts dbg ops msg (p\<lparr>p_sock := s\<rparr>)))
      | WClose f \<Rightarrow> Ret (send_or_error accepts dbg ops msg p)
      | _ \<Rightarrow>
          if accepts msg then Ret (p\<lparr>p_sink := p_sink p @ [msg]\<rparr>)
          else if \<not> op_is_removed ops (p_sock p) then Ret (send_or_error accepts dbg ops msg p)
          else Ret (p\<lparr>p_ended := True\<rparr>))"

text \<open>One turn of the loop: an error or a message, whichever is there; the end when the queue is closed and empty.\<close>

inductive send_turn :: "(ws_message \<Rightarrow> bool) \<Rightarrow> string \<Rightarrow> 's wss_ops \<Rightarrow> 's pipe \<Rightarrow> 's pipe outcome \<Rightarrow> bool" for accepts dbg ops where
  on_err: "\<not> p_ended p \<Longrightarrow> op_recv_err ops (p_sock p) = Some (crex, s) \<Longrightarrow>
    send_turn accepts dbg ops p (send_pipe_err accepts ops crex (p\<lparr>p_sock := s\<rparr>))"
| on_msg: "\<not> p_ended p \<Longrightarrow> op_recv_task ops (p_sock p) = Some (msg, s) \<Longrightarrow>
    send_turn accepts dbg ops p (send_pipe_msg accepts dbg ops msg (p\<lparr>p_sock := s\<rparr>))"
| drained: "\<not> p_ended p \<Longrightarrow> op_recv_task ops (p_sock p) = None \<Longrightarrow> op_queue_closed ops (p_sock p) \<Longrightarrow>
    send_turn accepts dbg ops p (Ret (p\<lparr>p_ended := True\<rparr>))"

section \<open>The two kinds of sockets\<close>

definition v1_ops :: "(rs1, 'm) v1_env \<Rightarrow> rs1 wss_ops" where
  "v1_ops E =
     \<lparr>op_on_text = v1_on_text E, op_on_binary = (\<lambda>b s. Ret (v1_on_binary E b s)), op_on_ping = v1_on_ping E, op_on_close = v1_on_close E,
      op_on_error = v1_on_error E, op_is_removed = r1_is_removed, op_send_ws_msg = (\<lambda>m s. fst (v1_send m s)),
      op_try_provide_general_error = v1_try_provide_general_error,
      op_close_queue = (\<lambda>s. s\<lparr>r1_wss_send_task := chan_close (r1_wss_send_task s)\<rparr>),
      op_ask_farm_removal = (\<lambda>s. if r1_farm_alive s then s\<lparr>r1_farm_removals := r1_farm_removals s @ [(r1_route s, r1_router_socket_id s)]\<rparr> else s),
      op_terminate_all_conn = (\<lambda>e s. fst (v1_terminate_all_conn e s)), op_inc_bytes_received = v1_inc_bytes_received_from_cli,
      op_recv_err = (\<lambda>s. map_option (\<lambda>(e, q). (e, s\<lparr>r1_err_chan := q\<rparr>)) (chan_try_recv (r1_err_chan s))),
      op_recv_task = (\<lambda>s. map_option (\<lambda>(m, q). (m, s\<lparr>r1_wss_send_task := q\<rparr>)) (chan_try_recv (r1_wss_send_task s))),
      op_queue_closed = (\<lambda>s. chan_closed (r1_wss_send_task s))\<rparr>"

definition v3_ops :: "(ctx, 'm) sock_env \<Rightarrow> (crex \<Rightarrow> string) \<Rightarrow> rs3 wss_ops" where
  "v3_ops E dbg_crex =
     \<lparr>op_on_text = on_text, op_on_binary = on_binary E, op_on_ping = on_ping E dbg_crex, op_on_close = on_close E,
      op_on_error = r3_on_error E, op_is_removed = r3_is_removed, op_send_ws_msg = (\<lambda>m s. fst (send_data E m s)),
      op_try_provide_general_error = try_provide_general_error,
      op_close_queue = (\<lambda>s. s\<lparr>r3_wss_send_task := chan_close (r3_wss_send_task s)\<rparr>),
      op_ask_farm_removal = (\<lambda>s. if r3_farm_alive s then s\<lparr>r3_farm_removals := r3_farm_removals s @ [(r3_route s, r3_router_socket_id s)]\<rparr> else s),
      op_terminate_all_conn = (\<lambda>e s. fst (terminate_all_conn E e s)), op_inc_bytes_received = (\<lambda>_ s. s),
      op_recv_err = (\<lambda>s. map_option (\<lambda>(e, q). (e, s\<lparr>r3_err_chan := q\<rparr>)) (chan_try_recv (r3_err_chan s))),
      op_recv_task = (\<lambda>s. map_option (\<lambda>(m, q). (m, s\<lparr>r3_wss_send_task := q\<rparr>)) (chan_try_recv (r3_wss_send_task s))),
      op_queue_closed = (\<lambda>s. chan_closed (r3_wss_send_task s))\<rparr>"

section \<open>The shutdown of a socket\<close>

text \<open>
  What the sending task needs of a socket to shut it down: ending all connections leaves none open, a
  closed queue stays closed, asking the farm has an effect, and none of it resurrects the socket.
\<close>

locale pipe_socket =
  fixes ops :: "'s wss_ops" and ok :: "'s \<Rightarrow> bool" and none_open :: "'s \<Rightarrow> bool" and asked :: "'s \<Rightarrow> bool"
  assumes ok_provide: "ok s \<Longrightarrow> ok (op_try_provide_general_error ops x s)"
    and ok_close: "ok s \<Longrightarrow> ok (op_close_queue ops s)"
    and ok_ask: "ok s \<Longrightarrow> ok (op_ask_farm_removal ops s)"
    and terminates: "ok s \<Longrightarrow> none_open (op_terminate_all_conn ops x s)"
    and closes: "op_queue_closed ops (op_close_queue ops s)"
    and closed_ask: "op_queue_closed ops s \<Longrightarrow> op_queue_closed ops (op_ask_farm_removal ops s)"
    and closed_terminate: "ok s \<Longrightarrow> op_queue_closed ops s \<Longrightarrow> op_queue_closed ops (op_terminate_all_conn ops x s)"
    and asks: "asked (op_ask_farm_removal ops s)"
    and asked_terminate: "ok s \<Longrightarrow> asked s \<Longrightarrow> asked (op_terminate_all_conn ops x s)"
    and removed_close: "op_is_removed ops (op_close_queue ops s) = op_is_removed ops s"
    and removed_provide: "op_is_removed ops (op_try_provide_general_error ops x s) = op_is_removed ops s"
begin

lemma panics_iff:
  "send_pipe_err accepts ops crex p = Panic \<longleftrightarrow> 100 < length (reason crex) \<and> \<not> is_char_boundary (reason crex) 100"
  by (simp add: send_pipe_err_def Let_def close_reason_def)

lemma shuts_down:
  assumes "send_pipe_err accepts ops crex p = Ret p'" "ok (p_sock p)"
  shows "none_open (p_sock p') \<and> op_queue_closed ops (p_sock p') \<and> p_ended p' \<and> (\<not> op_is_removed ops (p_sock p) \<longrightarrow> asked (p_sock p'))"
proof -
  define s2 where "s2 = op_close_queue ops (if \<not> op_is_removed ops (p_sock p) then op_try_provide_general_error ops (Some crex) (p_sock p) else p_sock p)"
  define s3 where "s3 = (if \<not> op_is_removed ops s2 then op_ask_farm_removal ops s2 else s2)"
  have "ok s2" "op_queue_closed ops s2" "op_is_removed ops s2 = op_is_removed ops (p_sock p)"
    using assms(2) by (simp_all add: s2_def ok_close ok_provide closes removed_close removed_provide)
  then have s3: "ok s3" "op_queue_closed ops s3" "\<not> op_is_removed ops (p_sock p) \<longrightarrow> asked s3"
    by (simp_all add: s3_def ok_ask closed_ask asks)
  moreover have "p_sock p' = op_terminate_all_conn ops (Some crex) s3" "p_ended p'"
    using assms(1) unfolding send_pipe_err_def Let_def s2_def [symmetric] s3_def [symmetric] by (auto simp: bind_outcome_Ret_iff)
  ultimately show ?thesis
    by (simp add: terminates closed_terminate asked_terminate)
qed

end

interpretation v1p: pipe_socket "v1_ops E" "\<lambda>_. True" "\<lambda>s. chan_closed (r1_tgt_res_hdr s) \<and> chan_closed (r1_tgt_res_bdy s)"
  "\<lambda>s. r1_farm_alive s \<longrightarrow> (r1_route s, r1_router_socket_id s) \<in> set (r1_farm_removals s)" for E
  by unfold_locales
    (auto simp: v1_ops_def v1_terminate_all_conn_def v1_try_provide_general_error_def Let_def)

lemma terminate_keeps:
  fixes E :: "(ctx, 'm) sock_env" and x :: "crex option" and s :: rs3
  defines "t \<equiv> fst (terminate_all_conn E x s)"
  shows "context_map t = [] \<and> chan_closed (r3_wss_send_task t) = chan_closed (r3_wss_send_task s) \<and> r3_farm_alive t = r3_farm_alive s \<and>
    r3_farm_removals t = r3_farm_removals s \<and> r3_route t = r3_route s \<and> r3_router_socket_id t = r3_router_socket_id s"
proof -
  have step: "let u = notify_client_request_error E a e s in chan_closed (r3_wss_send_task u) = chan_closed (r3_wss_send_task s) \<and>
      r3_farm_alive u = r3_farm_alive s \<and> r3_farm_removals u = r3_farm_removals s \<and> r3_route u = r3_route s \<and> r3_router_socket_id u = r3_router_socket_id s"
    for a e s
    by (auto simp: notify_client_request_error_def raise_completion_event_def try_spawn_remove_req_ctx_def upd_ctx_def Let_def split: option.split)
  have "let u = foldl (\<lambda>s a. notify_client_request_error E a e s) s as in chan_closed (r3_wss_send_task u) = chan_closed (r3_wss_send_task s) \<and>
      r3_farm_alive u = r3_farm_alive s \<and> r3_farm_removals u = r3_farm_removals s \<and> r3_route u = r3_route s \<and> r3_router_socket_id u = r3_router_socket_id s"
    for as e
  proof (induction as arbitrary: s)
    case (Cons a as)
    from Cons.IH [of "notify_client_request_error E a e s"] step [where a = a and e = e and s = s] show ?case by (simp add: Let_def)
  qed simp
  then show ?thesis by (simp add: t_def terminate_all_conn_def Let_def)
qed

interpretation v3p: pipe_socket "v3_ops E dbg" v3_inv "\<lambda>s. context_map s = []"
  "\<lambda>s. r3_farm_alive s \<longrightarrow> (r3_route s, r3_router_socket_id s) \<in> set (r3_farm_removals s)" for E :: "(ctx, 'm) sock_env" and dbg
proof unfold_locales
  fix s x
  note [simp] = v3_ops_def
  show "v3_inv s \<Longrightarrow> v3_inv (op_try_provide_general_error (v3_ops E dbg) x s)"
    using quiet_inv [OF quiet_provide_error] by simp
  show "v3_inv s \<Longrightarrow> v3_inv (op_close_queue (v3_ops E dbg) s)"
    by (erule v3_inv_cong) simp_all
  show "v3_inv s \<Longrightarrow> v3_inv (op_ask_farm_removal (v3_ops E dbg) s)"
    by (erule v3_inv_cong) simp_all
  show "v3_inv s \<Longrightarrow> context_map (op_terminate_all_conn (v3_ops E dbg) x s) = []"
    using terminate_keeps [of E x s] by simp
  show "op_queue_closed (v3_ops E dbg) (op_close_queue (v3_ops E dbg) s)" by simp
  show "op_queue_closed (v3_ops E dbg) s \<Longrightarrow> op_queue_closed (v3_ops E dbg) (op_ask_farm_removal (v3_ops E dbg) s)" by simp
  show "v3_inv s \<Longrightarrow> op_queue_closed (v3_ops E dbg) s \<Longrightarrow> op_queue_closed (v3_ops E dbg) (op_terminate_all_conn (v3_ops E dbg) x s)"
    using terminate_keeps [of E x s] by simp
  show "r3_farm_alive (op_ask_farm_removal (v3_ops E dbg) s) \<longrightarrow>
      (r3_route (op_ask_farm_removal (v3_ops E dbg) s), r3_router_socket_id (op_ask_farm_removal (v3_ops E dbg) s))
        \<in> set (r3_farm_removals (op_ask_farm_removal (v3_ops E dbg) s))" by simp
  show "v3_inv s \<Longrightarrow> r3_farm_alive s \<longrightarrow> (r3_route s, r3_router_socket_id s) \<in> set (r3_farm_removals s) \<Longrightarrow>
      r3_farm_alive (op_terminate_all_conn (v3_ops E dbg) x s) \<longrightarrow>
      (r3_route (op_terminate_all_conn (v3_ops E dbg) x s), r3_router_socket_id (op_terminate_all_conn (v3_ops E dbg) x s))
        \<in> set (r3_farm_removals (op_terminate_all_conn (v3_ops E dbg) x s))"
    using terminate_keeps [of E x s] by simp
  show "op_is_removed (v3_ops E dbg) (op_close_queue (v3_ops E dbg) s) = op_is_removed (v3_ops E dbg) s" by simp
  show "op_is_removed (v3_ops E dbg) (op_try_provide_general_error (v3_ops E dbg) x s) = op_is_removed (v3_ops E dbg) s"
    using quiet_provide_error [of 0 s x] by (simp add: quiet_def)
qed



text \<open>
  The shutdown panics exactly on an error whose text is longer than 100 bytes and has a
  character across the hundredth, and then ends no request. A connector of a version 1 socket can
  choose that text: it is the reason of its close frame behind a fixed prefix.
\<close>

lemma connector_close_panics:
  assumes "\<not> chan_closed (r1_err_chan s)" "chan_items (r1_err_chan s) = []" "\<not> chan_closed (r1_tgt_res_bdy s)"
    and "c \<notin> {1000, 1008, 1011}"
  shows "\<exists>ex t. op_recv_err (v1_ops E) (fst (v1_on_close E (Some (c, r)) s)) = Some (ex, t) \<and>
    reason ex = ''upstream server error: ws code='' @ show_nat c @ '', reason='' @ r \<and>
    (send_pipe_err accepts (v1_ops E) ex (p\<lparr>p_sock := t\<rparr>) = Panic \<longleftrightarrow>
      100 < length (reason ex) \<and> \<not> is_char_boundary (reason ex) 100)"
proof -
  let ?ex = "crex_new (''upstream server error: ws code='' @ show_nat c @ '', reason='' @ r)"
  have raise: "r1_err_chan (fst (v1_raise_completion_event E u)) = r1_err_chan u" for u
    by (simp add: v1_raise_completion_event_def Let_def)
  have "chan_items (r1_err_chan (fst (v1_on_close E (Some (c, r)) s))) = [?ex]"
    using assms by (simp add: v1_on_close_def Let_def v1_send_def chan_send_def close_error_def v1_on_error_def raise split_beta)
  then have "\<exists>t. op_recv_err (v1_ops E) (fst (v1_on_close E (Some (c, r)) s)) = Some (?ex, t)"
    by (simp add: v1_ops_def chan_try_recv_def)
  moreover have "reason ?ex = ''upstream server error: ws code='' @ show_nat c @ '', reason='' @ r"
    by (simp add: crex_new_def)
  ultimately show ?thesis
    using v1p.panics_iff [of accepts E ?ex] by metis
qed

text \<open>A reason of 55 letters and one accented letter, which takes the bytes 99 and 100 of the text.\<close>

lemma connector_close_panics_witness:
  "\<exists>ex t. op_recv_err (v1_ops v1_sample_env) (fst (v1_on_close v1_sample_env
        (Some (1001, replicate 55 CHR ''a'' @ [CHR 0xC3, CHR 0xA9])) v1_sample)) = Some (ex, t) \<and>
     utf8_valid (reason ex) \<and>
     send_pipe_err (\<lambda>_. True) (v1_ops v1_sample_env) ex \<lparr>p_sock = t, p_sink = [], p_ended = False\<rparr> = Panic"
proof -
  define r where "r = replicate 55 CHR ''a'' @ [CHR 0xC3, CHR 0xA9]"
  have "\<not> chan_closed (r1_err_chan v1_sample)" "chan_items (r1_err_chan v1_sample) = []" "\<not> chan_closed (r1_tgt_res_bdy v1_sample)"
    "(1001 :: nat) \<notin> {1000, 1008, 1011}"
    by (simp_all add: v1_sample_def rs1_new_def)
  from connector_close_panics [OF this, of v1_sample_env r "\<lambda>_. True" "\<lparr>p_sock = v1_sample, p_sink = [], p_ended = False\<rparr>",
      unfolded pipe.update_convs]
  obtain ex t where ex: "op_recv_err (v1_ops v1_sample_env) (fst (v1_on_close v1_sample_env (Some (1001, r)) v1_sample)) = Some (ex, t)"
    "reason ex = ''upstream server error: ws code='' @ show_nat 1001 @ '', reason='' @ r"
    "send_pipe_err (\<lambda>_. True) (v1_ops v1_sample_env) ex \<lparr>p_sock = t, p_sink = [], p_ended = False\<rparr> = Panic \<longleftrightarrow>
      100 < length (reason ex) \<and> \<not> is_char_boundary (reason ex) 100"
    by blast
  have "let x = ''upstream server error: ws code='' @ show_nat 1001 @ '', reason='' @ (replicate 55 CHR ''a'' @ [CHR 0xC3, CHR 0xA9]) in
    100 < length x \<and> \<not> is_char_boundary x 100 \<and> utf8_valid x"
    by code_simp
  then have "100 < length (reason ex)" "\<not> is_char_boundary (reason ex) 100" "utf8_valid (reason ex)"
    unfolding ex(2) r_def Let_def by blast+
  with ex(1,3) show ?thesis unfolding r_def by blast
qed

end
