(* ===== verification/Socket_View.thy ===== *)
theory Socket_View
  imports Router Socket_Pipes
begin

text \<open>
  How the two kinds of sockets look from outside: to the farm, through the trait \<^verbatim>\<open>RouterSocket\<close>, and to the
  listeners, through \<^verbatim>\<open>ProxyInfo\<close>. The farm's own model of a socket, \<open>rsock\<close>, is the view of a socket, and
  every step of a socket is a step the farm's laws allow for.
\<close>

section \<open>What the farm sees\<close>

definition v1_view :: "int \<Rightarrow> rs1 \<Rightarrow> rsock" where
  "v1_view port s =
     \<lparr>rs_id = r1_router_socket_id s, rs_route = r1_route s, rs_domain = ''*'', rs_component = r1_component_name s,
      rs_connector = r1_connector_id s, rs_ip = r1_remote_ip s, rs_port = port, rs_version = CRANKER_V_1_0,
      rs_removed = r1_is_removed s, rs_active = v1_is_active s, rs_inflight = -1\<rparr>"

definition v3_view :: "int \<Rightarrow> rs3 \<Rightarrow> rsock" where
  "v3_view port s =
     \<lparr>rs_id = r3_router_socket_id s, rs_route = r3_route s, rs_domain = r3_domain s, rs_component = r3_component_name s,
      rs_connector = r3_connector_id s, rs_ip = r3_remote_ip s, rs_port = port, rs_version = CRANKER_V_3_0,
      rs_removed = r3_is_removed s, rs_active = r3_is_active s, rs_inflight = inflight_count s\<rparr>"

section \<open>What the listeners see\<close>

record proxy_info =
  pi_router_socket_id :: string
  pi_route :: string
  pi_domain :: string
  pi_service_ip :: string
  pi_is_catch_all :: bool
  pi_connector_id :: string
  pi_duration_millis :: i64
  pi_bytes_received :: i64
  pi_bytes_sent :: i64
  pi_response_body_frames :: i64
  pi_error_if_any :: "crex option"
  pi_socket_wait_in_millis :: i64

definition v1_proxy_info :: "rs1 \<Rightarrow> proxy_info" where
  "v1_proxy_info s =
     \<lparr>pi_router_socket_id = r1_router_socket_id s, pi_route = r1_route s, pi_domain = ''*'', pi_service_ip = r1_remote_ip s,
      pi_is_catch_all = (r1_route s = ''*''), pi_connector_id = r1_connector_id s, pi_duration_millis = r1_duration_millis s,
      pi_bytes_received = r1_bytes_received s, pi_bytes_sent = r1_bytes_sent s, pi_response_body_frames = r1_binary_frame_received s,
      pi_error_if_any = r1_error s, pi_socket_wait_in_millis = r1_socket_wait_in_millis s\<rparr>"

text \<open>A context refers to its socket weakly; \<open>None\<close> when the socket is gone.\<close>

definition ctx_proxy_info :: "string \<Rightarrow> rs3 option \<Rightarrow> ctx \<Rightarrow> proxy_info" where
  "ctx_proxy_info invalid_msg outer c =
     (let str = (\<lambda>get. case outer of Some s \<Rightarrow> get s | None \<Rightarrow> invalid_msg)
      in \<lparr>pi_router_socket_id = str r3_router_socket_id, pi_route = str r3_route, pi_domain = str r3_domain,
          pi_service_ip = (case outer of Some s \<Rightarrow> r3_remote_ip s | None \<Rightarrow> ''255.255.255.255''),
          pi_is_catch_all = (case outer of Some s \<Rightarrow> r3_route s = ''*'' | None \<Rightarrow> False), pi_connector_id = str r3_connector_id,
          pi_duration_millis = duration_millis c, pi_bytes_received = from_client_bytes c, pi_bytes_sent = to_client_bytes c,
          pi_response_body_frames = wss_on_binary_call_count c, pi_error_if_any = ctx_error c, pi_socket_wait_in_millis = 0\<rparr>)"

definition error_proxy_info :: "string \<Rightarrow> string \<Rightarrow> i64 \<Rightarrow> proxy_info" where
  "error_proxy_info local_ip route socket_wait =
     \<lparr>pi_router_socket_id = ''N/A'', pi_route = route, pi_domain = ''*'', pi_service_ip = local_ip, pi_is_catch_all = (route = ''*''),
      pi_connector_id = ''N/A'', pi_duration_millis = 0, pi_bytes_received = 0, pi_bytes_sent = 0, pi_response_body_frames = 0,
      pi_error_if_any = Some (crex_new (''failed to acquire connector socket in '' @ show_int (sint socket_wait) @ ''ms'')),
      pi_socket_wait_in_millis = socket_wait\<rparr>"

section \<open>The steps of a version 1 socket\<close>

inductive v1_step :: "('m, 'v) header_ops \<Rightarrow> ('l, 'f) router_config \<Rightarrow> (rs1, 'm) v1_env set \<Rightarrow> rs1 \<Rightarrow> rs1 \<Rightarrow> bool" for H cfg Es where
  text_msg: "E \<in> Es \<Longrightarrow> v1_step H cfg Es s (fst (v1_on_text E msg s))"
| binary: "E \<in> Es \<Longrightarrow> v1_step H cfg Es s (fst (v1_on_binary E bin s))"
| ping: "E \<in> Es \<Longrightarrow> v1_step H cfg Es s (fst (v1_on_ping E p s))"
| close: "E \<in> Es \<Longrightarrow> v1_step H cfg Es s (fst (v1_on_close E frame s))"
| err: "E \<in> Es \<Longrightarrow> v1_step H cfg Es s (fst (v1_on_error E e s))"
| complete: "E \<in> Es \<Longrightarrow> v1_step H cfg Es s (fst (v1_raise_completion_event E s))"
| general_error: "v1_step H cfg Es s (v1_try_provide_general_error opt s)"
| terminate: "v1_step H cfg Es s (fst (v1_terminate_all_conn opt s))"
| count: "v1_step H cfg Es s (v1_inc_bytes_received_from_cli k s)"
| client: "E \<in> Es \<Longrightarrow> v1_request_text H local_ip E cfg http_version meth uri headers ip is_tls has_body s = Ret (t, r) \<Longrightarrow>
    v1_step H cfg Es s t"
| sender: "E \<in> Es \<Longrightarrow> v1_step H cfg Es s (snd (v1_part_one_step E pc s))"
| sender_result: "E \<in> Es \<Longrightarrow> v1_step H cfg Es s (v1_part_one_result E r s)"
| responder: "E \<in> Es \<Longrightarrow> v1_split_part_two H valid_status valid_name iter E s = Some (t, r) \<Longrightarrow> v1_step H cfg Es s t"
| client_gone: "E \<in> Es \<Longrightarrow> v1_step H cfg Es s (v1_body_stream_ended E s)"
| dropped: "v1_step H cfg Es s (v1_drop s)"

section \<open>A socket keeps its identity\<close>

definition v1_identity :: "rs1 \<Rightarrow> string \<times> string \<times> string \<times> string \<times> string \<times> bool" where
  "v1_identity s = (r1_router_socket_id s, r1_route s, r1_component_name s, r1_connector_id s, r1_remote_ip s, r1_farm_alive s)"

definition v3_identity :: "rs3 \<Rightarrow> string \<times> string \<times> string \<times> string \<times> string \<times> string" where
  "v3_identity s = (r3_router_socket_id s, r3_route s, r3_domain s, r3_component_name s, r3_connector_id s, r3_remote_ip s)"

named_theorems identity_simps

lemma v1_identity_basic [identity_simps]:
  "v1_identity (fst (v1_send m s)) = v1_identity s"
  "v1_identity (fst (v1_raise_completion_event E s)) = v1_identity s"
  "v1_identity (v1_try_provide_general_error opt s) = v1_identity s"
  "v1_identity (fst (v1_terminate_all_conn opt s)) = v1_identity s"
  "v1_identity (v1_inc_bytes_received_from_cli k s) = v1_identity s"
  "v1_identity (v1_drop s) = v1_identity s"
  by (simp_all add: v1_identity_def v1_send_def v1_raise_completion_event_def v1_try_provide_general_error_def
      v1_terminate_all_conn_def v1_inc_bytes_received_from_cli_def v1_drop_def Let_def split_beta)

lemma v1_identity_updates [identity_simps]:
  "v1_identity (s\<lparr>r1_err_chan := q\<rparr>) = v1_identity s" "v1_identity (s\<lparr>r1_tgt_res_hdr := h\<rparr>) = v1_identity s"
  "v1_identity (s\<lparr>r1_tgt_res_bdy := b\<rparr>) = v1_identity s" "v1_identity (s\<lparr>r1_is_close_msg_received := x\<rparr>) = v1_identity s"
  "v1_identity (s\<lparr>r1_is_tgt_can_send_res_now := x\<rparr>) = v1_identity s" "v1_identity (s\<lparr>r1_binary_frame_received := n\<rparr>) = v1_identity s"
  by (simp_all add: v1_identity_def)

lemma v1_identity_on_error [identity_simps]: "v1_identity (fst (v1_on_error E e s)) = v1_identity s"
  by (simp add: v1_on_error_def split_beta identity_simps split: bool.split)

lemma v1_identity_close_error [identity_simps]: "v1_identity (fst (close_error E e te s)) = v1_identity s"
  by (simp add: close_error_def split_beta identity_simps)

lemma v1_identity_messages [identity_simps]:
  "v1_identity (fst (v1_on_text E msg s)) = v1_identity s"
  "v1_identity (fst (v1_on_binary E bin s)) = v1_identity s"
  "v1_identity (fst (v1_on_ping E p s)) = v1_identity s"
  by (auto simp: v1_on_text_def v1_on_binary_def v1_on_ping_def send_target_response_header_text_to_client_def
      send_target_response_body_binary_fragment_to_client_def Let_def v1_send_def v1_on_error_def v1_raise_completion_event_def v1_identity_def
      split: prod.split bool.split sum.split)

lemma v1_identity_on_close [identity_simps]: "v1_identity (fst (v1_on_close E frame s)) = v1_identity s"
  unfolding v1_on_close_def Let_def split_beta by (simp add: identity_simps split: option.split)

lemma v1_identity_sender [identity_simps]: "v1_identity (snd (v1_part_one_step E pc s)) = v1_identity s"
proof -
  have send: "v1_identity s1 = v1_identity s0" if "v1_send m s0 = (s1, ok)" for m s0 s1 ok
    using v1_identity_basic(1) [of m s0] that by simp
  show ?thesis
    by (cases "(E, pc, s)" rule: v1_part_one_step.cases)
      (auto simp: v1_start_def v1_chunk_def v1_end_of_body_def identity_simps dest!: send split: prod.split bool.split option.split sum.split)
qed

lemma v1_identity_tasks [identity_simps]:
  "v1_identity (v1_part_one_result E r s) = v1_identity s" "v1_identity (v1_body_stream_ended E s) = v1_identity s"
  by (simp_all add: v1_part_one_result_def v1_body_stream_ended_def identity_simps split: sum.split)

lemma v1_identity_request:
  "v1_request_text H local_ip E cfg http_version meth uri headers ip is_tls has_body s = Ret (t, r) \<Longrightarrow> v1_identity t = v1_identity s"
  by (auto simp: v1_request_text_def v1_identity_def Let_def bind_outcome_Ret_iff split: if_splits sum.splits)

lemma v1_identity_respond:
  "v1_split_part_two H valid_status valid_name iter E s = Some (t, r) \<Longrightarrow> v1_identity t = v1_identity s"
  by (auto simp: v1_split_part_two_def v1_identity_def Let_def split: option.splits if_splits)

lemma v1_step_identity: "v1_step H cfg Es s t \<Longrightarrow> v1_identity t = v1_identity s"
  by (induction rule: v1_step.induct) (auto simp: identity_simps dest: v1_identity_request v1_identity_respond)

lemma v3_identity_updates [identity_simps]:
  "v3_identity (upd_ctx a g s) = v3_identity s" "v3_identity (s\<lparr>context_map := m\<rparr>) = v3_identity s"
  "v3_identity (s\<lparr>r3_completions := x\<rparr>) = v3_identity s" "v3_identity (fst (send_data E msg s)) = v3_identity s"
  "v3_identity (try_spawn_remove_req_ctx k s) = v3_identity s" "v3_identity (run_removal s) = v3_identity s"
  "v3_identity (drop_rs3 s) = v3_identity s" "v3_identity (remove_from_farm s) = v3_identity s"
  "v3_identity (fst (r3_on_error E e s)) = v3_identity s" "v3_identity (fst (on_client_req_begin E meth uri s)) = v3_identity s"
  by (simp_all add: v3_identity_def upd_ctx_def send_data_def try_spawn_remove_req_ctx_def run_removal_def drop_rs3_def remove_from_farm_def
      r3_on_error_def on_client_req_begin_def Let_def split: prod.split bool.split list.split)

lemma v3_identity_raise [identity_simps]: "v3_identity (fst (raise_completion_event E k s)) = v3_identity s"
  by (simp add: raise_completion_event_def identity_simps split: option.split)

lemma v3_identity_notify [identity_simps]:
  "v3_identity (notify_client_request_error E a e s) = v3_identity s"
  "v3_identity (fst (notify_client_request_close E a c r s)) = v3_identity s"
  "v3_identity (reset_stream E a k msg s) = v3_identity s"
  unfolding notify_client_request_error_def notify_client_request_close_def reset_stream_def cli_fail_prior_to_tgt_res_def Let_def split_beta
  by (simp_all add: identity_simps split: sum.split)

lemma v3_identity_fold:
  "(\<And>s a. v3_identity (g s a) = v3_identity s) \<Longrightarrow> v3_identity (foldl g s as) = v3_identity s"
  by (induction as arbitrary: s) simp_all

lemma v3_identity_all [identity_simps]:
  "v3_identity (try_provide_general_error opt s) = v3_identity s"
  "v3_identity (fst (on_close E frame s)) = v3_identity s"
  "v3_identity (fst (terminate_all_conn E opt s)) = v3_identity s"
  unfolding try_provide_general_error_def on_close_def terminate_all_conn_def Let_def split_beta
  by (simp_all add: identity_simps v3_identity_fold split: option.split)

lemma v3_identity_body [identity_simps]: "v3_identity (fst (deliver_body E a is_end k bin s)) = v3_identity s"
  by (simp add: deliver_body_def Let_def identity_simps split: prod.split bool.split)

lemma v3_identity_hooks [identity_simps]: "v3_identity (fst (response_chunk_hooks E a bin sr)) = v3_identity (fst sr)"
  by (simp add: response_chunk_hooks_def split: sum.split)

lemma v3_identity_header_text [identity_simps]: "v3_identity (fst (take_header_text E a is_end content s)) = v3_identity s"
  by (simp add: take_header_text_def Let_def identity_simps split: prod.split bool.split)

lemma v3_identity_frames [identity_simps]:
  "v3_identity (fst (handle_data E a flags k bin s)) = v3_identity s"
  "v3_identity (fst (handle_header E a flags k bin s)) = v3_identity s"
proof -
  show "v3_identity (fst (handle_data E a flags k bin s)) = v3_identity s"
    by (simp add: handle_data_def Let_def identity_simps split: sum.split)
  have hdr_text: "v3_identity s2 = v3_identity s1" if "take_header_text E a is_end content s1 = (s2, r)" for is_end content s1 s2 r
    using v3_identity_header_text [of E a is_end content s1] that by simp
  show "v3_identity (fst (handle_header E a flags k bin s)) = v3_identity s"
    by (auto simp: handle_header_def Let_def identity_simps dest!: hdr_text split: sum.split prod.split)
qed

lemma v3_identity_dispatch:
  assumes "dispatch_frame E ty flags k bin a s = Ret (t, r)"
  shows "v3_identity t = v3_identity s"
proof -
  have "v3_identity t = v3_identity s" if "handle_data E a flags k bin s = (t, r) \<or> handle_header E a flags k bin s = (t, r)"
    using that v3_identity_frames [of E a flags k bin s] by auto
  with assms show ?thesis
    by (auto simp: dispatch_frame_def handle_rst_stream_def handle_window_update_def bind_outcome_Ret_iff Let_def identity_simps split: if_splits)
qed

lemma v3_identity_binary:
  assumes "on_binary E bin s = Ret (t, r)"
  shows "v3_identity t = v3_identity s"
  using assms by (cases rule: on_binary_cases) (auto simp: identity_simps dest: v3_identity_dispatch)

lemma v3_identity_ping [identity_simps]: "v3_identity (fst (on_ping E dbg p s)) = v3_identity s"
proof -
  obtain s1 r where "send_data E (WPong p) s = (s1, r)" by fastforce
  with v3_identity_updates(4) [of E "WPong p" s] show ?thesis by (auto simp: on_ping_def identity_simps split: sum.split)
qed

lemma v3_identity_headers [identity_simps]: "v3_identity (fst (send_header_frames E a fs s)) = v3_identity s"
proof (induction E a fs s rule: send_header_frames.induct)
  case (2 E a hb hbs s)
  let ?s1 = "upd_ctx a (inc_rtr_to_tgt_pending_ack_bytes (of_nat (length hb - HEADER_LEN_IN_BYTES))) s"
  obtain s2 r where s2: "send_data E (WBinary hb) ?s1 = (s2, r)" by fastforce
  have "v3_identity s2 = v3_identity s" using v3_identity_updates(4) [of E "WBinary hb" ?s1] s2 by (simp add: identity_simps)
  with s2 "2.IH" [OF refl refl s2 [symmetric]] show ?case by (cases r) (simp_all add: Let_def identity_simps)
qed simp

lemma v3_identity_sender [identity_simps]: "v3_identity (snd (part_one_step E hdr a k pc s)) = v3_identity s"
proof -
  have send: "v3_identity s1 = v3_identity s0" if "send_data E m s0 = (s1, r)" for m s0 s1 r
    using v3_identity_updates(4) [of E m s0] that by simp
  have head: "v3_identity s1 = v3_identity s0" if "send_header_frames E a fs s0 = (s1, r)" for fs s0 s1 r
    using v3_identity_headers [of E a fs s0] that by simp
  show ?thesis
    by (cases "(E, hdr, a, k, pc, s)" rule: part_one_step.cases)
      (auto simp: part_one_start_def part_one_chunk_def part_one_finish_def Let_def identity_simps dest!: send head
        split: prod.split sum.split option.split)
qed

lemma v3_identity_tasks [identity_simps]:
  "v3_identity (part_one_result E a r s) = v3_identity s" "v3_identity (body_stream_ended E a k s) = v3_identity s"
  "v3_identity (on_client_req_failed E a e s) = v3_identity s"
  by (simp_all add: part_one_result_def body_stream_ended_def on_client_req_failed_def Let_def identity_simps
      split: sum.split option.split crex_kind.split)

lemma v3_identity_respond:
  "split_part_two H valid_status valid_name iter E a s = Ready (t, r) \<Longrightarrow> v3_identity t = v3_identity s"
  by (auto simp: split_part_two_def Let_def identity_simps split: option.splits if_splits)

lemma v3_event_identity: "v3_event H Es s t \<Longrightarrow> v3_identity t = v3_identity s"
  by (induction rule: v3_event.induct) (auto simp: identity_simps dest: v3_identity_binary v3_identity_respond)

lemma v3_step_identity: "v3_step H Es s t \<Longrightarrow> v3_identity t = v3_identity s"
  by (induction rule: v3_step.induct) (auto simp: identity_simps dest: v3_event_identity)

section \<open>Sockets as members of the farm\<close>

text \<open>Two views of the same socket.\<close>

definition same_member :: "rsock \<Rightarrow> rsock \<Rightarrow> bool" where
  "same_member a b \<longleftrightarrow> b = a\<lparr>rs_removed := rs_removed b, rs_active := rs_active b, rs_inflight := rs_inflight b\<rparr>"

locale farm_member =
  fixes view :: "'s \<Rightarrow> rsock" and step :: "'s \<Rightarrow> 's \<Rightarrow> bool"
  assumes member: "step s t \<Longrightarrow> same_member (view s) (view t)"
begin

lemma simulated:
  assumes "farm_reach Gs f n" "step s t" "sock f r = view s"
  shows "farm_reach Gs (upd_sock r (\<lambda>_. view t) f) n"
proof -
  let ?g = "\<lambda>x. x\<lparr>rs_removed := rs_removed (view t), rs_active := rs_active (view t), rs_inflight := rs_inflight (view t)\<rparr>"
  have "?g (sock f r) = view t" using member [OF assms(2)] by (simp add: assms(3) same_member_def)
  then have "upd_sock r (\<lambda>_. view t) f = upd_sock r ?g f" by (simp add: upd_sock_def sock_def)
  with farm_reach.socket_changes [OF assms(1)] show ?thesis by simp
qed

end

interpretation v1m: farm_member "v1_view port" "v1_step H cfg Es" for port H cfg Es
  by unfold_locales (drule v1_step_identity, simp add: same_member_def v1_view_def v1_identity_def)

interpretation v3m: farm_member "v3_view port" "v3_step H Es" for port H Es
  by unfold_locales (drule v3_step_identity, simp add: same_member_def v3_view_def v3_identity_def)

text \<open>A socket just made is the one the farm is given.\<close>

lemma harvested_view:
  "ci_negotiated_cranker_version cif = CRANKER_V_1_0 \<Longrightarrow>
    harvested k cif ip port = v1_view port (rs1_new E1 (ci_route cif) (ci_component_name cif) k (ci_connector_id cif) ip idle ping)"
  "ci_negotiated_cranker_version cif = CRANKER_V_3_0 \<Longrightarrow>
    harvested k cif ip port = v3_view port (rs3_new E3 (ci_route cif) (ci_domain cif) (ci_component_name cif) k (ci_connector_id cif) ip idle ping)"
  by (simp_all add: harvested_def v1_view_def v3_view_def rs1_new_def rs3_new_def v1_is_active_def r3_is_active_def inflight_count_def
      CRANKER_V_1_0_def CRANKER_V_3_0_def)

section \<open>Leaving the farm\<close>

lemma v1_raise_removal:
  "r1_farm_alive s \<Longrightarrow> (r1_route s, r1_router_socket_id s) \<in> set (r1_farm_removals (fst (v1_raise_completion_event E s)))"
  by (simp add: v1_raise_completion_event_def Let_def)

lemma v1_close_removal:
  assumes "r1_farm_alive s"
  shows "(r1_route s, r1_router_socket_id s) \<in> set (r1_farm_removals (fst (v1_on_close E frame s)))"
proof -
  obtain s3 where s3: "fst (v1_on_close E frame s) = fst (v1_raise_completion_event E s3)" "v1_identity s3 = v1_identity s"
    unfolding v1_on_close_def Let_def split_beta by (auto simp: identity_simps split: option.split)
  then show ?thesis using v1_raise_removal [of s3 E] assms by (simp add: v1_identity_def)
qed

lemma removals_notify: "r3_farm_removals (fst (notify_client_request_close E a c r s)) = r3_farm_removals s"
  unfolding notify_client_request_close_def cli_fail_prior_to_tgt_res_def raise_completion_event_def try_spawn_remove_req_ctx_def Let_def split_beta
  by (simp add: upd_ctx_def split: option.split)

lemma v3_close_removal:
  assumes "r3_farm_alive s" "\<not> r3_is_removed s"
  shows "r3_farm_removals (fst (on_close E frame s)) = r3_farm_removals s @ [(r3_route s, r3_router_socket_id s)]"
proof -
  have fold: "r3_farm_removals (foldl (\<lambda>s a. fst (notify_client_request_close E a c r s)) u as) = r3_farm_removals u" for c r u as
    by (induction as arbitrary: u) (simp_all add: removals_notify)
  show ?thesis using assms by (simp add: on_close_def Let_def split_beta fold remove_from_farm_def)
qed

lemma run_remove_refs:
  fixes f r now
  assumes "farm_ok f n" "r \<in> set (registered_refs f)"
  defines "f' \<equiv> run_remove now (rs_route (sock f r)) (rs_id (sock f r)) r f"
  shows "registered_refs f' = filter (\<lambda>x. x \<noteq> r) (registered_refs f)" "f_idle_count f' = f_idle_count f - 1" "rs_removed (sock f' r)"
proof -
  let ?route = "rs_route (sock f r)" and ?k = "rs_id (sock f r)"
  obtain sub k where "(?route, sub) \<in> set (router_socket_map f)" "(k, r) \<in> set sub"
  proof -
    from assms(2) obtain route sub k where e: "(route, sub) \<in> set (router_socket_map f)" "(k, r) \<in> set sub" by (force simp: registered_refs_def)
    with farm_ok_entry [OF assms(1) e] that show ?thesis by simp
  qed
  with farm_ok_entry [OF assms(1) this] have sub: "am_get (router_socket_map f) ?route = Some sub" "(?k, r) \<in> set sub"
    using assms(1) am_get_iff_in_set [of "router_socket_map f"] by (auto simp: farm_ok_def)
  have "am_ok sub" using farm_ok_sub [OF assms(1) sub(1)] by simp
  with sub(2) have k: "am_get sub ?k = Some r" by (simp add: am_get_iff_in_set)
  have entries: "rs_id (sock f x) = k'" if "(k', x) \<in> set sub" for k' x
    using farm_ok_entry [OF assms(1) am_get_in_set [OF sub(1)] that] by simp
  have del: "am_del sub ?k = filter (\<lambda>(_, x). \<not> rs_id (sock f x) = ?k) sub"
    unfolding am_del_def by (rule filter_cong) (auto dest: entries)
  have range: "x < length (f_socks f)" if "x \<in> set (registered_refs f)" for x
    using that farm_ok_entry [OF assms(1)] by (force simp: registered_refs_def)
  have same: "x = r" if "x \<in> set (registered_refs f)" "rs_id (sock f x) = ?k" for x
    using that range [OF that(1)] range [OF assms(2)] assms(1) by (auto simp: farm_ok_def distinct_conv_nth sock_def)
  have "\<forall>(k, sub) \<in> set (router_socket_map f). \<forall>(_, x) \<in> set sub. rs_route (sock f x) = ?route \<longleftrightarrow> k = ?route"
    using farm_ok_entry [OF assms(1)] by fast
  then have "map snd (concat (map snd (am_put (router_socket_map f) ?route (am_del sub ?k)))) =
      filter (\<lambda>x. \<not> (rs_route (sock f x) = ?route \<and> rs_id (sock f x) = ?k)) (registered_refs f)"
    unfolding registered_refs_def del using assms(1) by (intro refs_put_filter [OF _ _ sub(1)]) (simp_all add: farm_ok_def)
  moreover have "filter (\<lambda>x. \<not> (rs_route (sock f x) = ?route \<and> rs_id (sock f x) = ?k)) (registered_refs f) = filter (\<lambda>x. x \<noteq> r) (registered_refs f)"
    using same by (intro filter_cong) auto
  ultimately show "registered_refs f' = filter (\<lambda>x. x \<noteq> r) (registered_refs f)"
    using sub(1) k by (simp add: f'_def run_remove_def Let_def registered_refs_def upd_sock_def)
  show "f_idle_count f' = f_idle_count f - 1" "rs_removed (sock f' r)"
    using sub(1) k range [OF assms(2)] by (simp_all add: f'_def run_remove_def Let_def upd_sock_def sock_def)
qed

section \<open>Properties\<close>


text \<open>A version 3 connector registers and a client's request begins on its socket.\<close>

definition sample_cif3 :: connector_info where
  "sample_cif3 = sample_cif\<lparr>ci_negotiated_cranker_version := CRANKER_V_3_0\<rparr>"

definition sample_new3 :: rs3 where
  "sample_new3 = rs3_new sample_env ''api'' ''*'' ''unknown-u'' ''s1'' ''u'' ''10.0.0.1'' 60000 10000"

definition sample_farm3 :: farm where
  "sample_farm3 = run_add 0 ((farm_new 5000)\<lparr>f_socks := [harvested ''s1'' sample_cif3 ''10.0.0.1'' 80], f_held := [0]\<rparr>)"

lemma sample_farm3_reach: "farm_reach {sample_get} sample_farm3 0"
proof -
  let ?s = "harvested ''s1'' sample_cif3 ''10.0.0.1'' 80"
  let ?f0 = "add_router_socket_in_background 0 ((farm_new 5000)\<lparr>f_socks := [?s], f_held := [0]\<rparr>)"
  have "farm_reach {sample_get} ?f0 0"
    using farm_reach.new_socket [OF farm_reach.start [of "{sample_get}" 5000], of ?s] by (simp add: farm_new_def)
  from farm_reach.task [OF this, of "[]" "Add_Socket 0" "[]" "?f0\<lparr>f_tasks := []\<rparr>" 0]
  show ?thesis by (simp add: sample_farm3_def add_router_socket_in_background_def spawn_def farm_new_def)
qed

lemma sample_farm3_sock: "sock sample_farm3 0 = v3_view 80 sample_new3"
proof -
  have "sock sample_farm3 0 = harvested ''s1'' sample_cif3 ''10.0.0.1'' 80"
    using run_add_counts [of 0] by (simp add: sample_farm3_def sock_def)
  then show ?thesis
    using harvested_view(2) [of sample_cif3] by (simp add: sample_new3_def sample_cif3_def sample_cif_def)
qed


text \<open>
  Claim C9: a socket whose websocket closes leaves the farm. Either kind asks the farm to remove it, under its
  own route and id; a version 3 socket that was not removed before asks exactly once. When that is done, the
  registry has lost exactly this socket, the count of idle connections is one less, and no request will be
  given the socket.
\<close>

theorem closed_socket_leaves_farm:
  fixes f r now u v
  assumes "farm_reach Gs f n" "r \<in> set (registered_refs f)"
  defines "f' \<equiv> run_task now (Remove_Socket (rs_route (sock f r)) (rs_id (sock f r)) r) f"
  shows "(sock f r = v1_view port u \<and> r1_farm_alive u \<longrightarrow>
      (rs_route (sock f r), rs_id (sock f r)) \<in> set (r1_farm_removals (fst (v1_on_close Eu frame u)))) \<and>
    (sock f r = v3_view port v \<and> r3_farm_alive v \<and> \<not> r3_is_removed v \<longrightarrow>
      r3_farm_removals (fst (on_close Ev frame v)) = r3_farm_removals v @ [(rs_route (sock f r), rs_id (sock f r))]) \<and>
    registered_refs f' = filter (\<lambda>x. x \<noteq> r) (registered_refs f) \<and> f_idle_count f' = f_idle_count f - 1 \<and> \<not> usable f' r"
  using v1_close_removal [of u Eu frame] v3_close_removal [of v Ev frame]
    run_remove_refs [OF farm_reach_ok [OF assms(1)] assms(2), of now]
  by (simp add: f'_def v1_view_def v3_view_def usable_def)

theorem closed_socket_leaves_farm_witness:
  "registered_refs sample_farm3 = [0] \<and>
   registered_refs (run_task 9 (Remove_Socket ''api'' ''s1'' 0) sample_farm3) = [] \<and>
   r3_farm_removals (fst (on_close sample_env None sample_new3)) = [(''api'', ''s1'')]"
proof -
  have refs: "registered_refs sample_farm3 = [0]"
    by (simp add: registered_refs_def sample_farm3_def run_add_def Let_def set_queue_def farm_new_def)
  then have mem: "0 \<in> set (registered_refs sample_farm3)" by simp
  have "rs_route (sock sample_farm3 0) = ''api''" "rs_id (sock sample_farm3 0) = ''s1''" "r3_farm_alive sample_new3"
    "\<not> r3_is_removed sample_new3" "r3_farm_removals sample_new3 = []"
    by (simp_all add: sample_farm3_sock v3_view_def sample_new3_def rs3_new_def)
  then show ?thesis
    using closed_socket_leaves_farm [where now = 9 and port = 80 and v = sample_new3 and Ev = sample_env and frame = None,
        OF sample_farm3_reach mem, THEN conjunct2] refs sample_farm3_sock by simp
qed

end
