(* ===== verification/Request_Delivery.thy ===== *)
theory Request_Delivery
  imports Socket_V3_Laws
begin

text \<open>
  A request from end to end over a version 3 socket: from its registration through the text of its head
  (\<^verbatim>\<open>send_request_over_websocket_v3\<close>) and the task that sends it, interleaved with everything else the socket
  does, to what a connector reads out of the frames. \<open>appends\<close> says which frames a step adds to the
  socket's queue; only the task of a request adds header and data frames under the request's id.
\<close>

section \<open>Which frames a step adds\<close>

text \<open>A header or data frame of the request \<open>k\<close>.\<close>

definition carries :: "i32 \<Rightarrow> ws_message \<Rightarrow> bool" where
  "carries k m \<longleftrightarrow>
     (case m of
        WBinary b \<Rightarrow> (case decode_frame b of Ret (Frame t f r p) \<Rightarrow> r = k \<and> (t = MESSAGE_TYPE_HEADER \<or> t = MESSAGE_TYPE_DATA) | _ \<Rightarrow> False)
      | _ \<Rightarrow> False)"

definition appends :: "(ws_message \<Rightarrow> bool) \<Rightarrow> rs3 \<Rightarrow> rs3 \<Rightarrow> bool" where
  "appends P s t \<longleftrightarrow> (\<exists>ms. chan_items (r3_wss_send_task t) = chan_items (r3_wss_send_task s) @ ms \<and> list_all P ms)"

lemma appends_same: "r3_wss_send_task t = r3_wss_send_task s \<Longrightarrow> appends P s t"
  by (simp add: appends_def)

lemma appends_trans: "appends P s t \<Longrightarrow> appends P t u \<Longrightarrow> appends P s u"
  by (auto simp: appends_def)

lemma appends_mono: "appends P s t \<Longrightarrow> (\<And>m. P m \<Longrightarrow> Q m) \<Longrightarrow> appends Q s t"
  by (auto simp: appends_def list_all_iff)

lemma appends_cong: "r3_wss_send_task s' = r3_wss_send_task s \<Longrightarrow> r3_wss_send_task t' = r3_wss_send_task t \<Longrightarrow> appends P s' t' = appends P s t"
  by (simp add: appends_def)

lemma appends_send: "P m \<Longrightarrow> appends P s (fst (send_data E m s))"
  by (auto simp: appends_def send_data_def chan_send_def)

lemma carries_simps [simp]:
  "carries k (WBinary (header_message r he se txt)) \<longleftrightarrow> r = k"
  "carries k (WBinary (data_messages r e bin)) \<longleftrightarrow> r = k"
  "\<not> carries k (WBinary (window_update_message r w))"
  "\<not> carries k (WBinary (rst_message r err msg))"
  "\<not> carries k (WPong p)"
  by (simp_all add: carries_def header_message_eq data_messages_def window_update_message_def rst_message_def decode_frame_bytes frame_consts)

text \<open>The handlers that leave the queue alone.\<close>

lemma queue_updates [simp]:
  "r3_wss_send_task (try_spawn_remove_req_ctx k s) = r3_wss_send_task s"
  "r3_wss_send_task (fst (raise_completion_event E opt s)) = r3_wss_send_task s"
  "r3_wss_send_task (cli_fail_prior_to_tgt_res a opt_reason opt_status s) = r3_wss_send_task s"
  "r3_wss_send_task (remove_from_farm s) = r3_wss_send_task s"
  "r3_wss_send_task (run_removal s) = r3_wss_send_task s"
  "r3_wss_send_task (fst (r3_on_error E e s)) = r3_wss_send_task s"
  "r3_wss_send_task (fst (on_client_req_begin E meth uri s)) = r3_wss_send_task s"
  by (simp_all add: try_spawn_remove_req_ctx_def raise_completion_event_def cli_fail_prior_to_tgt_res_def remove_from_farm_def
      run_removal_def r3_on_error_def on_client_req_begin_def Let_def split: option.split list.split prod.split bool.split)

lemma queue_fold: "(\<And>s a. r3_wss_send_task (f s a) = r3_wss_send_task s) \<Longrightarrow> r3_wss_send_task (foldl f s as) = r3_wss_send_task s"
  by (induction as arbitrary: s) simp_all

lemma queue_provide [simp]: "r3_wss_send_task (try_provide_general_error opt s) = r3_wss_send_task s"
  by (simp add: try_provide_general_error_def queue_fold split: option.split)

lemma queue_notify [simp]:
  "r3_wss_send_task (fst (notify_client_request_close E a wcode opt_reason s)) = r3_wss_send_task s"
  "r3_wss_send_task (notify_client_request_error E a e s) = r3_wss_send_task s"
  by (simp_all add: notify_client_request_close_def notify_client_request_error_def Let_def split_beta split: sum.split)

lemma queue_end [simp]:
  "r3_wss_send_task (fst (on_close E frame s)) = r3_wss_send_task s"
  "r3_wss_send_task (fst (terminate_all_conn E opt s)) = r3_wss_send_task s"
  "r3_wss_send_task (part_one_result E a r s) = r3_wss_send_task s"
  by (simp_all add: on_close_def terminate_all_conn_def part_one_result_def Let_def split_beta queue_fold split: sum.split)

lemma queue_take_header [simp]: "r3_wss_send_task (fst (take_header_text E a he content s)) = r3_wss_send_task s"
  by (simp add: take_header_text_def Let_def split: prod.split bool.split)

lemma queue_respond: "split_part_two H valid_status valid_name iter E a s = Ready (t, r) \<Longrightarrow> r3_wss_send_task t = r3_wss_send_task s"
  by (auto simp: split_part_two_def Let_def split: option.splits if_splits)

section \<open>Other steps add no frame of a request\<close>

abbreviation silent :: "i32 \<Rightarrow> rs3 \<Rightarrow> rs3 \<Rightarrow> bool" where
  "silent k \<equiv> appends (\<lambda>m. \<not> carries k m)"

lemma silent_reset: "silent k s (reset_stream E a err msg s)"
proof -
  let ?t = "fst (send_data E (WBinary (rst_message (request_id (get_ctx s a)) err msg)) s)"
  have "silent k s ?t" by (rule appends_send) simp
  then have "silent k s (upd_ctx a f ?t)" for f by (rule appends_trans) (simp add: appends_same)
  then have "silent k s (try_spawn_remove_req_ctx r (upd_ctx a f ?t))" for f r by (rule appends_trans) (simp add: appends_same)
  then show ?thesis by (simp add: reset_stream_def Let_def appends_same)
qed

lemma silent_credit: "r3_wss_send_task s' = r3_wss_send_task s \<Longrightarrow> silent k s (fst (send_data E (WBinary (window_update_message r w)) s'))"
  by (rule appends_trans [OF appends_same appends_send]) simp_all

lemma silent_data: "silent k s (fst (handle_data E a flags r bin s))"
proof -
  have "silent k s (fst (deliver_body E a e r bin s'))" if "r3_wss_send_task s' = r3_wss_send_task s" for s' e
    using that by (auto simp: deliver_body_def Let_def silent_credit appends_same split: prod.split bool.split)
  then show ?thesis
    by (auto simp: handle_data_def response_chunk_hooks_def Let_def appends_same split: sum.split)
qed

lemma silent_header: "silent k s (fst (handle_header E a flags r bin s))"
proof -
  have "r3_wss_send_task s2 = r3_wss_send_task s'" if "take_header_text E a he content s' = (s2, x)" for s' he content s2 x
    using queue_take_header [of E a he content s'] that by simp
  note take = this
  have "silent k s (fst (case take_header_text E a he content s' of (s2, Inl e) \<Rightarrow> (s2, Inl e)
      | (s2, Inr _) \<Rightarrow> send_data E (WBinary (window_update_message r w)) (if e then fst (notify_client_request_close E a 1000 None s2) else s2)))"
    if "r3_wss_send_task s' = r3_wss_send_task s" for he content s' w e
    using that take [of he content s'] by (auto simp: silent_credit appends_same split: prod.split sum.split)
  note reply = this
  define s1 where "s1 = (if judge_is_stream_end_from_flags flags then upd_ctx a (\<lambda>c. c\<lparr>is_end_stream_received_from_tgt := True\<rparr>) s else s)"
  have "r3_wss_send_task s1 = r3_wss_send_task s" by (simp add: s1_def)
  then show ?thesis
    unfolding handle_header_def Let_def s1_def [symmetric] using reply by (simp add: appends_same split: sum.split split del: if_split)
qed

lemma silent_dispatch: "dispatch_frame E ty fl r p a s = Ret (t, x) \<Longrightarrow> silent k s t"
  using silent_data [of k s E a fl r p] silent_header [of k s E a fl r p]
  by (auto simp: dispatch_frame_def handle_rst_stream_def handle_window_update_def bind_outcome_Ret_iff Let_def
      appends_same split: if_splits)

lemma silent_binary:
  assumes "on_binary E bin s = Ret (t, x)"
  shows "silent k s t"
  using assms
proof (cases rule: on_binary_cases)
  case (failed ty fl j p a s1 e)
  have "silent k s (notify_client_request_error E a e s1)"
    using silent_dispatch [OF failed(3), of k] by (rule appends_trans) (simp add: appends_same)
  then show ?thesis unfolding failed(5) by (rule appends_trans [OF _ silent_reset])
qed (auto intro: appends_same silent_dispatch)

lemma silent_ping: "silent k s (fst (on_ping E dbg p s))"
proof -
  obtain s1 x where s1: "send_data E (WPong p) s = (s1, x)" by fastforce
  with appends_send [where P = "\<lambda>m. \<not> carries k m" and m = "WPong p" and s = s and E = E] have "silent k s s1" by simp
  with s1 show ?thesis by (auto simp: on_ping_def intro: appends_trans [OF _ appends_same] split: sum.split)
qed

lemma silent_tasks:
  "silent k s (body_stream_ended E a r s)" "silent k s (on_client_req_failed E a e s)"
proof -
  have "silent k s (reset_stream E b err msg s')" if "r3_wss_send_task s' = r3_wss_send_task s" for b err msg s'
    by (rule appends_trans [OF appends_same silent_reset]) (rule that)
  then show "silent k s (body_stream_ended E a r s)" "silent k s (on_client_req_failed E a e s)"
    by (auto simp: body_stream_ended_def on_client_req_failed_def Let_def appends_same
        split: sum.split option.split crex_kind.split)
qed

lemma silent_event:
  assumes "v3_event H Es s t"
  shows "silent k s t"
  using assms
proof cases
  case responder
  then show ?thesis by (blast intro: appends_same queue_respond)
next
  case close_queue
  then show ?thesis by (simp add: appends_def drop_rs3_def chan_close_def)
qed (simp_all add: silent_binary silent_ping silent_tasks appends_same)

section \<open>The sender adds frames of its request only\<close>

lemma header_messages_split:
  "header_messages k True se txt =
     map (header_message k False se) (butlast (header_parts txt)) @ [header_message k True se (last (header_parts txt))]"
  (is "?l = ?r")
proof (rule nth_equalityI)
  have ne: "header_parts txt \<noteq> []" by (rule header_parts_nonempty)
  then show "length ?l = length ?r" by (auto simp: header_messages_parts(1) neq_Nil_conv)
  fix i assume "i < length ?l"
  then have i: "i < length (header_parts txt)" by (simp add: header_messages_parts(1))
  show "?l ! i = ?r ! i"
  proof (cases "Suc i = length (header_parts txt)")
    case True
    then have "i = length (header_parts txt) - 1" by simp
    with ne i True show ?thesis by (simp add: header_messages_parts nth_append last_conv_nth)
  next
    case False
    with i have "i < length (header_parts txt) - 1" by simp
    with i False show ?thesis by (simp add: header_messages_parts nth_append nth_butlast)
  qed
qed

lemma sender_send:
  assumes "send_data E m s' = (t, r)" "carries k m" "r3_wss_send_task s' = r3_wss_send_task s"
  shows "appends (carries k) s t"
proof -
  have "appends (carries k) s' t" using appends_send [where P = "carries k", OF assms(2), of s' E] assms(1) by simp
  with assms(3) show ?thesis by (simp add: appends_def)
qed

lemma sender_headers:
  "\<forall>f \<in> set fs. carries k (WBinary f) \<Longrightarrow> appends (carries k) s (fst (send_header_frames E a fs s))"
proof (induction E a fs s rule: send_header_frames.induct)
  case (2 E a hb hbs s)
  let ?s1 = "upd_ctx a (inc_rtr_to_tgt_pending_ack_bytes (of_nat (length hb - HEADER_LEN_IN_BYTES))) s"
  obtain s2 r where s2: "send_data E (WBinary hb) ?s1 = (s2, r)" by fastforce
  have first: "appends (carries k) s s2" by (rule sender_send [OF s2]) (use "2.prems" in simp_all)
  show ?case
  proof (cases r)
    case (Inr u)
    have "appends (carries k) s2 (upd_ctx a f s2)" for f by (simp add: appends_same)
    note upd = appends_trans [OF first this]
    from "2.IH" [OF refl refl s2 [symmetric] Inr] "2.prems" have
      "appends (carries k) s (fst (send_header_frames E a hbs (upd_ctx a (\<lambda>c. c\<lparr>from_client_bytes := from_client_bytes c +
         word_of_int (sint (of_nat (length hb - HEADER_LEN_IN_BYTES) :: i32))\<rparr>) s2)))"
      by (intro appends_trans [OF upd]) simp_all
    with s2 Inr show ?thesis by (simp add: Let_def)
  qed (use s2 first in \<open>simp add: Let_def\<close>)
qed (simp add: appends_same)

lemma sender_start: "appends (carries k) s (snd (part_one_start E a k txt opt_body s))"
proof -
  let ?s1 = "upd_ctx a (\<lambda>c. c\<lparr>is_tgt_can_send_res_now := True\<rparr>) s"
  let ?fs = "header_messages k True (opt_body = None) txt"
  have "appends (carries k) ?s1 (fst (send_header_frames E a ?fs ?s1))"
    by (rule sender_headers) (auto simp: header_messages_split)
  then have "appends (carries k) s (fst (send_header_frames E a ?fs ?s1))" by (simp add: appends_def)
  then show ?thesis
    by (cases "send_header_frames E a ?fs ?s1") (simp add: part_one_start_def Let_def split: sum.split)
qed

lemma sender_chunk: "appends (carries k) s (snd (part_one_chunk E a k chunk rest s))"
proof -
  let ?data = "data_messages k False (Some chunk)"
  let ?s1 = "upd_ctx a (inc_rtr_to_tgt_pending_ack_bytes (of_nat (length ?data - HEADER_LEN_IN_BYTES))) s"
  obtain s2 r where s2: "send_data E (WBinary ?data) ?s1 = (s2, r)" by fastforce
  have sent: "appends (carries k) s s2" by (rule sender_send [OF s2]) simp_all
  then have upd: "appends (carries k) s (upd_ctx a f s2)" for f by (rule appends_trans) (simp add: appends_same)
  then have "appends (carries k) s (upd_ctx a g (upd_ctx a f s2))" for f g by (rule appends_trans) (simp add: appends_same)
  with sent upd show ?thesis
    unfolding part_one_chunk_def Let_def s2 by (auto simp: appends_same split: sum.split option.split prod.split)
qed

lemma sender_step: "appends (carries k) s (snd (part_one_step E hdr a k pc s))"
proof -
  have "appends (carries k) s (snd (part_one_finish E hdr a k has_body s))" for has_body
    using appends_send [where P = "carries k" and m = "WBinary (data_messages k True None)" and s = s and E = E]
    by (auto simp: part_one_finish_def appends_same split: prod.splits sum.splits)
  then show ?thesis
    by (cases "(E, hdr, a, k, pc, s)" rule: part_one_step.cases) (simp_all add: sender_start sender_chunk appends_same)
qed

section \<open>Delivering a request\<close>

text \<open>
  The runs of the task that sends the request \<open>k\<close> of context \<open>a\<close>: its own steps, with any other event of
  the socket and any step of the senders of other requests in between.
\<close>

inductive delivery ::
    "('m, 'v) header_ops \<Rightarrow> (ctx, 'm) sock_env set \<Rightarrow> 'm \<Rightarrow> nat \<Rightarrow> i32 \<Rightarrow> part_one \<Rightarrow> rs3 \<Rightarrow> part_one \<Rightarrow> rs3 \<Rightarrow> bool"
  for H Es hdr a k pc0 s0 where
  start: "delivery H Es hdr a k pc0 s0 pc0 s0"
| own: "delivery H Es hdr a k pc0 s0 pc s \<Longrightarrow> E \<in> Es \<Longrightarrow> part_one_step E hdr a k pc s = (pc', t) \<Longrightarrow>
    delivery H Es hdr a k pc0 s0 pc' t"
| event: "delivery H Es hdr a k pc0 s0 pc s \<Longrightarrow> v3_event H Es s t \<Longrightarrow> delivery H Es hdr a k pc0 s0 pc t"
| other: "delivery H Es hdr a k pc0 s0 pc s \<Longrightarrow> E \<in> Es \<Longrightarrow> b < length (ctxs s) \<Longrightarrow> b \<noteq> a \<Longrightarrow>
    delivery H Es hdr a k pc0 s0 pc (snd (part_one_step E hdr' b (request_id (get_ctx s b)) pc' s))"

lemma failed_stays: "failed pc \<Longrightarrow> part_one_step E hdr a k pc s = (pc, s)"
  by (cases pc rule: failed.cases) simp_all

lemma other_id:
  assumes "v3_inv s" "b < length (ctxs s)" "b \<noteq> a" "Suc a < 2 ^ 32"
  shows "request_id (get_ctx s b) \<noteq> of_nat (Suc a)"
proof -
  from assms have "request_id (get_ctx s b) = of_nat (Suc b)" "Suc b < 2 ^ 32" by (auto simp: v3_inv_def ids_ok_def get_ctx_def)
  moreover have "(of_nat (Suc b) :: i32) \<noteq> of_nat (Suc a)"
    using assms(3,4) \<open>Suc b < 2 ^ 32\<close> by (simp only: word_of_nat_eq_iff) (simp add: take_bit_nat_eq_self del: of_nat_Suc)
  ultimately show ?thesis by simp
qed

text \<open>Of the frames added so far, those of the request and what its sender still has to send are the request's frames.\<close>

lemma delivery_frames:
  assumes "delivery H Es hdr a (of_nat (Suc a)) pc0 s0 pc s" "v3_inv s0" "Suc a < 2 ^ 32"
  shows "v3_inv s \<and> (\<not> failed pc \<longrightarrow> (\<exists>ms. chan_items (r3_wss_send_task s) = chan_items (r3_wss_send_task s0) @ ms \<and>
    filter (carries (of_nat (Suc a))) ms @ todo (of_nat (Suc a)) pc = todo (of_nat (Suc a)) pc0))"
  (is "_ \<and> (_ \<longrightarrow> ?sent pc s)")
  using assms(1)
proof (induction rule: delivery.induct)
  case start
  then show ?case using assms(2) by simp
next
  case (own pc s E pc' t)
  have "v3_inv t" using quiet_inv [OF quiet_part_one_step] own by (metis snd_conv)
  moreover have "?sent pc' t" if nf: "\<not> failed pc'"
  proof -
    have "\<not> failed pc" using nf own.hyps(3) failed_stays by (metis fst_conv)
    with own.IH obtain ms where ms: "chan_items (r3_wss_send_task s) = chan_items (r3_wss_send_task s0) @ ms"
      "filter (carries (of_nat (Suc a))) ms @ todo (of_nat (Suc a)) pc = todo (of_nat (Suc a)) pc0" by blast
    from sender_step_order [OF own.hyps(3) nf] obtain sent where sent: "chan_items (r3_wss_send_task t) = chan_items (r3_wss_send_task s) @ sent"
      "todo (of_nat (Suc a)) pc = sent @ todo (of_nat (Suc a)) pc'" by blast
    have "list_all (carries (of_nat (Suc a))) sent"
      using sender_step [of "of_nat (Suc a)" s E hdr a pc] own.hyps(3) sent(1) by (simp add: appends_def del: of_nat_Suc)
    then have "filter (carries (of_nat (Suc a))) sent = sent" by (simp add: filter_id_conv list_all_iff del: of_nat_Suc)
    with ms sent show ?thesis by (intro exI [of _ "ms @ sent"]) (simp del: of_nat_Suc)
  qed
  ultimately show ?case by blast
next
  case (event pc s t)
  then have "v3_inv t" using v3_event_inv by blast
  moreover have "silent (of_nat (Suc a)) s t" by (rule silent_event [OF event.hyps(2)])
  ultimately show ?case using event.IH unfolding appends_def by (fastforce simp: list_all_iff simp del: of_nat_Suc)
next
  case (other pc s E b hdr' pc')
  let ?t = "snd (part_one_step E hdr' b (request_id (get_ctx s b)) pc' s)"
  have "v3_inv ?t" by (rule quiet_inv [OF quiet_part_one_step]) (use other.IH in blast)
  moreover have "silent (of_nat (Suc a)) s ?t"
    using sender_step [of "request_id (get_ctx s b)" s E hdr' b pc'] other_id [of s b a] other.IH other.hyps(3,4) assms(3)
    by (elim appends_mono) (auto simp: carries_def simp del: of_nat_Suc split: ws_message.splits outcome.splits decoded.splits)
  ultimately show ?case using other.IH unfolding appends_def by (fastforce simp: list_all_iff simp del: of_nat_Suc)
qed

section \<open>What a connector reads\<close>

text \<open>
  A connector that reads one stream: header frames until the one that ends the head, then data frames until
  the end of the stream; a frame out of place is an error. Other frames do not concern the content of the
  request. As in HTTP/2, the end of the stream that a header frame announces takes effect with the end of the
  head.
\<close>

record incoming =
  in_head :: string
  in_head_done :: bool
  in_body :: bytes
  in_ended :: bool

definition incoming_new :: incoming where
  "incoming_new = \<lparr>in_head = [], in_head_done = False, in_body = [], in_ended = False\<rparr>"

definition read_header :: "u8 \<Rightarrow> bytes \<Rightarrow> incoming \<Rightarrow> incoming option" where
  "read_header flags bin i =
     (if in_head_done i then None
      else case from_utf8 bin of
             None \<Rightarrow> None
           | Some txt \<Rightarrow> Some (i\<lparr>in_head := in_head i @ txt, in_head_done := judge_is_header_end_from_flags flags,
                                 in_ended := judge_is_stream_end_from_flags flags\<rparr>))"

definition read_data :: "u8 \<Rightarrow> bytes \<Rightarrow> incoming \<Rightarrow> incoming option" where
  "read_data flags bin i =
     (if \<not> in_head_done i \<or> in_ended i then None
      else Some (i\<lparr>in_body := in_body i @ bin, in_ended := judge_is_stream_end_from_flags flags\<rparr>))"

definition read_frame :: "i32 \<Rightarrow> incoming option \<Rightarrow> ws_message \<Rightarrow> incoming option" where
  "read_frame k opt m =
     (case opt of
        None \<Rightarrow> None
      | Some i \<Rightarrow>
          (case m of
             WBinary b \<Rightarrow>
               (case decode_frame b of
                  Ret (Frame t flags r bin) \<Rightarrow>
                    if r \<noteq> k then Some i
                    else if t = MESSAGE_TYPE_HEADER then read_header flags bin i
                    else if t = MESSAGE_TYPE_DATA then read_data flags bin i
                    else Some i
                | _ \<Rightarrow> Some i)
           | _ \<Rightarrow> Some i))"

definition connector_reads :: "i32 \<Rightarrow> ws_message list \<Rightarrow> incoming option" where
  "connector_reads k ms = foldl (read_frame k) (Some incoming_new) ms"

lemma read_skips: "\<not> carries k m \<Longrightarrow> read_frame k opt m = opt"
  by (auto simp: read_frame_def carries_def split: option.split ws_message.splits outcome.splits decoded.splits)

lemma read_filter: "foldl (read_frame k) opt ms = foldl (read_frame k) opt (filter (carries k) ms)"
  by (induction ms arbitrary: opt) (simp_all add: read_skips)

lemma read_header_message:
  "utf8_valid txt \<Longrightarrow> \<not> in_head_done i \<Longrightarrow> read_frame k (Some i) (WBinary (header_message k he se txt)) =
     Some (i\<lparr>in_head := in_head i @ txt, in_head_done := he, in_ended := se\<rparr>)"
  by (simp add: read_frame_def header_message_eq decode_frame_bytes read_header_def from_utf8_as_bytes)

lemma read_data_message:
  "in_head_done i \<Longrightarrow> \<not> in_ended i \<Longrightarrow> read_frame k (Some i) (WBinary (data_messages k e bin)) =
     Some (i\<lparr>in_body := in_body i @ (case bin of None \<Rightarrow> [] | Some b \<Rightarrow> b), in_ended := e\<rparr>)"
  by (simp add: read_frame_def data_messages_def decode_frame_bytes frame_consts read_data_def split: option.split)

lemma read_parts:
  "\<forall>p \<in> set parts. utf8_valid p \<Longrightarrow> \<not> in_head_done i \<Longrightarrow>
   \<exists>e. foldl (read_frame k) (Some i) (map (\<lambda>p. WBinary (header_message k False se p)) parts) =
     Some (i\<lparr>in_head := in_head i @ concat parts, in_head_done := False, in_ended := e\<rparr>)"
proof (induction parts arbitrary: i)
  case Nil
  then show ?case by (intro exI [of _ "in_ended i"]) simp
next
  case (Cons p parts)
  let ?i = "i\<lparr>in_head := in_head i @ p, in_head_done := False, in_ended := se\<rparr>"
  from Cons.IH [of ?i] Cons.prems show ?case by (simp add: read_header_message)
qed

lemma read_head:
  assumes "utf8_valid txt"
  shows "foldl (read_frame k) (Some incoming_new) (map WBinary (header_messages k True se txt)) =
    Some \<lparr>in_head = txt, in_head_done = True, in_body = [], in_ended = se\<rparr>"
proof -
  let ?ps = "header_parts txt"
  have ne: "?ps \<noteq> []" by (rule header_parts_nonempty)
  have v: "\<forall>p \<in> set ?ps. utf8_valid p" using header_part_valid [OF assms] by blast
  then have "\<forall>p \<in> set (butlast ?ps). utf8_valid p" by (auto dest: in_set_butlastD)
  from read_parts [OF this, of incoming_new k se] obtain e where
    "foldl (read_frame k) (Some incoming_new) (map (\<lambda>p. WBinary (header_message k False se p)) (butlast ?ps)) =
       Some \<lparr>in_head = concat (butlast ?ps), in_head_done = False, in_body = [], in_ended = e\<rparr>"
    by (auto simp: incoming_new_def)
  moreover have "concat (butlast ?ps) @ last ?ps = txt"
    using concat_header_parts [of "txt"] append_butlast_last_id [OF ne]
    by (metis append_Nil2 concat.simps(1,2) concat_append)
  moreover have "utf8_valid (last ?ps)" using v ne by simp
  ultimately show ?thesis by (simp add: header_messages_split read_header_message comp_def)
qed

lemma read_body:
  "in_head_done i \<Longrightarrow> \<not> in_ended i \<Longrightarrow> foldl (read_frame k) (Some i) (body_frames k (map Inr cs)) =
     Some (i\<lparr>in_body := in_body i @ concat cs, in_ended := True\<rparr>)"
  by (induction cs arbitrary: i) (simp_all add: read_data_message)

lemma read_request:
  assumes "utf8_valid head"
  shows "connector_reads k (todo k (P1_Start head (map_option (map Inr) body))) =
    Some \<lparr>in_head = head, in_head_done = True, in_body = (case body of None \<Rightarrow> [] | Some cs \<Rightarrow> concat cs), in_ended = True\<rparr>"
  using read_head [OF assms] by (cases body) (simp_all add: connector_reads_def read_body)

lemma begin_id:
  assumes "v3_inv s" "length (ctxs s) < 2 ^ 32 - 1" "on_client_req_begin E meth uri s = (s1, Inr (k, a))"
  shows "v3_inv s1" "k = of_nat (Suc a)" "Suc a < 2 ^ 32"
  using begin_inv [OF assms(1,2), of E meth uri] assms
  by (auto simp: on_client_req_begin_def Let_def v3_inv_def ids_ok_def add.commute split: if_splits)

lemma request_head_text:
  assumes "request_head H local_ip E cfg http_version meth uri headers ip is_tls a s = Ret (Inr (hdr, head))"
  shows "head = create_request_line meth uri @ [newline] @ build_header_str H hdr @ [newline]"
proof -
  from assms obtain h has where
    "(case before_proxy_hooks (env_listeners E) (get_ctx s a) h of (hdr', Inl e) \<Rightarrow> Ret (Inl e)
      | (hdr', Inr _) \<Rightarrow> Ret (Inr (hdr', create_request_line meth uri @ newline # build_header_str H hdr' @ [newline]))) = Ret (Inr (hdr, head))"
    by (auto simp: request_head_def bind_outcome_Ret_iff)
  then show ?thesis
    by (cases "before_proxy_hooks (env_listeners E) (get_ctx s a) h"; cases "snd (before_proxy_hooks (env_listeners E) (get_ctx s a) h)") auto
qed

section \<open>Properties\<close>

text \<open>
  Claim C1: a connector reads what the client sent. A request that a socket takes, and whose sending task
  ends without an error, puts frames into the socket's queue that a connector reads as one complete request:
  its head is the request line and the headers for the target, after the listeners, and its body the chunks
  of the client's body in order. This holds for heads of any length and bodies of any number of chunks, and
  whatever else happens on the socket in between: other requests that send, frames from the connector,
  resets, closes, errors.
\<close>

theorem request_delivered:
  assumes "v3_reachable H Es s0" "length (ctxs s0) < 2 ^ 32 - 1"
    and "on_client_req_begin E meth uri s0 = (s1, Inr (k, a))"
    and "request_head H local_ip E cfg http_version meth uri headers ip is_tls a s1 = Ret (Inr (hdr, head))" "utf8_valid head"
    and "delivery H Es hdr a k (P1_Start head (map_option (map Inr) body)) s1 (P1_Done (Inr ())) s"
  shows "\<exists>frames. chan_items (r3_wss_send_task s) = chan_items (r3_wss_send_task s1) @ frames \<and>
    connector_reads k frames =
      Some \<lparr>in_head = create_request_line meth uri @ [newline] @ build_header_str H hdr @ [newline], in_head_done = True,
            in_body = (case body of None \<Rightarrow> [] | Some cs \<Rightarrow> concat cs), in_ended = True\<rparr>"
proof -
  note begin_request = begin_id [OF v3_reachable_inv [OF assms(1)] assms(2,3)]
  from delivery_frames [OF assms(6) [unfolded begin_request(2)] begin_request(1,3)] obtain ms where
    ms: "chan_items (r3_wss_send_task s) = chan_items (r3_wss_send_task s1) @ ms"
      "filter (carries k) ms = todo k (P1_Start head (map_option (map Inr) body))"
    unfolding begin_request(2) [symmetric] by auto
  have "connector_reads k ms = connector_reads k (todo k (P1_Start head (map_option (map Inr) body)))"
    unfolding connector_reads_def using read_filter ms(2) by metis
  with ms(1) read_request [OF assms(5), of k body] show ?thesis
    unfolding request_head_text [OF assms(4), symmetric] by auto
qed

text \<open>A request with one chunk on a fresh socket.\<close>

definition sample_one :: rs3 where
  "sample_one = fst (on_client_req_begin sample_env ''POST'' sample_uri sample_start)"

definition sample_hdr :: "(string \<times> string) list" where
  "sample_hdr = [(''host'', ''h''), (''via'', ''HTTP/1.1 scr-axum''), (''forwarded'', ''by=10.0.0.9;for=10.0.0.1;host=h;proto=http'')]"

definition sample_head :: string where
  "sample_head = create_request_line ''POST'' sample_uri @ [newline] @ build_header_str lhm sample_hdr @ [newline]"

lemma sample_request_head:
  "request_head lhm ''10.0.0.9'' sample_env sample_config ''HTTP/1.1'' ''POST'' sample_uri [(''Host'', ''h'')] ''10.0.0.1'' False 0 sample_one =
     Ret (Inr (sample_hdr, sample_head))"
  by code_simp

lemma sample_head_valid: "utf8_valid sample_head"
  by (rule utf8_valid_ascii) code_simp

definition sample_sender :: "part_one \<times> rs3 \<Rightarrow> part_one \<times> rs3" where
  "sample_sender = (\<lambda>(pc, s). part_one_step sample_env sample_hdr 0 1 pc s)"

lemma sample_sender_run: "delivery lhm {sample_env} sample_hdr 0 1 pc0 s0 (fst ((sample_sender ^^ n) (pc0, s0))) (snd ((sample_sender ^^ n) (pc0, s0)))"
proof (induction n)
  case 0
  then show ?case by (simp add: delivery.start)
next
  case (Suc n)
  then show ?case by (rule delivery.own [where E = sample_env]) (simp_all add: sample_sender_def split_beta)
qed

lemma sample_done: "fst ((sample_sender ^^ 4) (P1_Start sample_head (map_option (map Inr) (Some [[1, 2]])), sample_one)) = P1_Done (Inr ())"
  by code_simp

theorem request_delivered_witness:
  "\<exists>frames. chan_items (r3_wss_send_task (snd ((sample_sender ^^ 4) (P1_Start sample_head (Some [Inr [1, 2]]), sample_one)))) =
      chan_items (r3_wss_send_task sample_one) @ frames \<and>
    connector_reads 1 frames = Some \<lparr>in_head = sample_head, in_head_done = True, in_body = [1, 2], in_ended = True\<rparr>"
proof -
  have begins: "on_client_req_begin sample_env ''POST'' sample_uri sample_start = (sample_one, Inr (1, 0))"
    by (simp add: sample_one_def sample_start_def on_client_req_begin_def rs3_new_def Let_def)
  have few: "length (ctxs sample_start) < 2 ^ 32 - 1" by (simp add: sample_start_def rs3_new_def)
  have "delivery lhm {sample_env} sample_hdr 0 1 (P1_Start sample_head (map_option (map Inr) (Some [[1, 2]]))) sample_one
      (P1_Done (Inr ())) (snd ((sample_sender ^^ 4) (P1_Start sample_head (map_option (map Inr) (Some [[1, 2]])), sample_one)))"
    using sample_sender_run [of "P1_Start sample_head (map_option (map Inr) (Some [[1, 2]]))" sample_one 4] unfolding sample_done .
  from request_delivered [OF sample_start_reachable few begins sample_request_head sample_head_valid this]
  show ?thesis by (simp add: sample_head_def)
qed

end
