(* ===== verification/Body_Stream.thy ===== *)
theory Body_Stream
  imports Channels
begin

text \<open>
  The body of a response as the client reads it (\<^verbatim>\<open>wrap_tgt_res_body_stream_with_guard\<close> of
  \<^verbatim>\<open>src/src/router_socket.rs\<close>): a stream over the channel the socket puts the chunks into, with a guard that
  tells a waiting task when the stream has ended or was dropped.
\<close>

section \<open>The stream\<close>

text \<open>
  The stream's code starts with the first poll, which makes the guard; \<open>bs_guard\<close> is the guard's optional
  one-shot sender. \<open>bs_released\<close> counts how often the task that waits at the other end was released.
\<close>

record 'a body_stream =
  bs_rx :: "'a chan"
  bs_guard :: "bool option"
  bs_ended :: bool
  bs_released :: nat

definition wrap_tgt_res_body_stream_with_guard :: "'a chan \<Rightarrow> 'a body_stream" where
  "wrap_tgt_res_body_stream_with_guard rx = \<lparr>bs_rx = rx, bs_guard = None, bs_ended = False, bs_released = 0\<rparr>"

text \<open>Dropping the guard takes the sender, and panics if it was taken before.\<close>

definition drop_guard :: "'a body_stream \<Rightarrow> 'a body_stream outcome" where
  "drop_guard s =
     (case bs_guard s of
        None \<Rightarrow> Ret s
      | Some True \<Rightarrow> Ret (s\<lparr>bs_guard := None, bs_released := Suc (bs_released s)\<rparr>)
      | Some False \<Rightarrow> Panic)"

datatype 'a polled = Pending | Item 'a | Finished

definition poll_next :: "'a body_stream \<Rightarrow> ('a polled \<times> 'a body_stream) outcome" where
  "poll_next s =
     (if bs_ended s then Ret (Finished, s)
      else let s1 = (if bs_guard s = None then s\<lparr>bs_guard := Some True\<rparr> else s)
           in case chan_try_recv (bs_rx s1) of
                Some (res, q) \<Rightarrow> Ret (Item res, s1\<lparr>bs_rx := q\<rparr>)
              | None \<Rightarrow>
                  if chan_closed (bs_rx s1) then bind_outcome (drop_guard s1) (\<lambda>s2. Ret (Finished, s2\<lparr>bs_ended := True\<rparr>))
                  else Ret (Pending, s1))"

text \<open>The client goes away. A stream that was never polled drops the sender itself, which also releases the task.\<close>

definition drop_stream :: "'a body_stream \<Rightarrow> 'a body_stream outcome" where
  "drop_stream s =
     (if bs_ended s then Ret s
      else if bs_guard s = None then Ret (s\<lparr>bs_ended := True, bs_released := Suc (bs_released s)\<rparr>)
      else bind_outcome (drop_guard s) (\<lambda>s2. Ret (s2\<lparr>bs_ended := True\<rparr>)))"

text \<open>
  The runs of a stream: chunks are sent, the channel is closed, the stream is polled and dropped, in any order.
  \<open>sent\<close> is what the channel took, \<open>got\<close> what the client read.
\<close>

inductive body_run :: "'a chan \<Rightarrow> 'a body_stream \<Rightarrow> 'a list \<Rightarrow> 'a list \<Rightarrow> bool" for rx where
  start: "body_run rx (wrap_tgt_res_body_stream_with_guard rx) (chan_items rx) []"
| send: "body_run rx s sent got \<Longrightarrow> body_run rx (s\<lparr>bs_rx := chan_push (bs_rx s) x\<rparr>) (if chan_closed (bs_rx s) then sent else sent @ [x]) got"
| close: "body_run rx s sent got \<Longrightarrow> body_run rx (s\<lparr>bs_rx := chan_close (bs_rx s)\<rparr>) sent got"
| poll: "body_run rx s sent got \<Longrightarrow> poll_next s = Ret (p, t) \<Longrightarrow> body_run rx t sent (got @ (case p of Item x \<Rightarrow> [x] | _ \<Rightarrow> []))"
| dropped: "body_run rx s sent got \<Longrightarrow> drop_stream s = Ret t \<Longrightarrow> body_run rx t sent got"

text \<open>A number of polls, with the chunks they gave.\<close>

fun poll_times :: "nat \<Rightarrow> 'a body_stream \<Rightarrow> ('a list \<times> 'a body_stream) outcome" where
  "poll_times 0 s = Ret ([], s)"
| "poll_times (Suc n) s =
     bind_outcome (poll_next s) (\<lambda>(p, t).
       bind_outcome (poll_times n t) (\<lambda>(xs, u). Ret ((case p of Item x \<Rightarrow> x # xs | _ \<Rightarrow> xs), u)))"

section \<open>Lemmas\<close>

definition stream_ok :: "'a body_stream \<Rightarrow> bool" where
  "stream_ok s \<longleftrightarrow> bs_guard s \<noteq> Some False \<and> (bs_ended s \<longrightarrow> bs_guard s = None) \<and> bs_released s = (if bs_ended s then 1 else 0)"

lemma poll_next_cases:
  assumes "stream_ok s"
  obtains (ended) "poll_next s = Ret (Finished, s)" "bs_ended s"
  | (item) x xs t where "poll_next s = Ret (Item x, t)" "stream_ok t" "chan_items (bs_rx s) = x # xs" "chan_items (bs_rx t) = xs"
      "chan_closed (bs_rx t) = chan_closed (bs_rx s)" "\<not> bs_ended t"
  | (finished) t where "poll_next s = Ret (Finished, t)" "stream_ok t" "chan_items (bs_rx s) = []" "bs_rx t = bs_rx s" "chan_closed (bs_rx s)" "bs_ended t"
  | (pending) t where "poll_next s = Ret (Pending, t)" "stream_ok t" "chan_items (bs_rx s) = []" "bs_rx t = bs_rx s" "\<not> chan_closed (bs_rx s)" "\<not> bs_ended t"
proof (cases "bs_ended s")
  case True
  then show ?thesis by (intro ended) (simp_all add: poll_next_def)
next
  case False
  define s1 where "s1 = (if bs_guard s = None then s\<lparr>bs_guard := Some True\<rparr> else s)"
  have s1: "bs_guard s1 = Some True" "bs_rx s1 = bs_rx s" "bs_released s1 = 0" "\<not> bs_ended s1"
    using assms False by (auto simp: s1_def stream_ok_def)
  have poll: "poll_next s = (case chan_try_recv (bs_rx s1) of Some (res, q) \<Rightarrow> Ret (Item res, s1\<lparr>bs_rx := q\<rparr>)
      | None \<Rightarrow> if chan_closed (bs_rx s1) then bind_outcome (drop_guard s1) (\<lambda>s2. Ret (Finished, s2\<lparr>bs_ended := True\<rparr>)) else Ret (Pending, s1))"
    using False unfolding poll_next_def Let_def s1_def by (simp only: if_False)
  show ?thesis
  proof (cases "chan_items (bs_rx s)")
    case (Cons x xs)
    with s1 show ?thesis
      by (intro item [of x "s1\<lparr>bs_rx := (bs_rx s)\<lparr>chan_items := xs\<rparr>\<rparr>"]) (simp_all add: poll chan_try_recv_def stream_ok_def)
  next
    case Nil
    show ?thesis
    proof (cases "chan_closed (bs_rx s)")
      case True
      with Nil s1 show ?thesis
        by (intro finished [of "s1\<lparr>bs_guard := None, bs_released := 1, bs_ended := True\<rparr>"])
          (simp_all add: poll chan_try_recv_def stream_ok_def drop_guard_def)
    next
      case False
      with Nil s1 show ?thesis by (intro pending [of s1]) (simp_all add: poll chan_try_recv_def stream_ok_def)
    qed
  qed
qed

lemma drop_stream_ok:
  assumes "stream_ok s"
  shows "\<exists>t. drop_stream s = Ret t \<and> stream_ok t \<and> bs_ended t \<and> bs_rx t = bs_rx s"
  using assms by (auto simp: drop_stream_def stream_ok_def drop_guard_def split: bool.split)

lemma body_run_ok: "body_run rx s sent got \<Longrightarrow> stream_ok s \<and> sent = got @ chan_items (bs_rx s)"
proof (induction rule: body_run.induct)
  case (poll s sent got p t)
  then have "stream_ok s" by blast
  then show ?case using poll by (cases rule: poll_next_cases) auto
next
  case (dropped s sent got t)
  with drop_stream_ok [of s] show ?case by auto
qed (auto simp: stream_ok_def wrap_tgt_res_body_stream_with_guard_def)

lemma poll_times_all:
  assumes "stream_ok s" "\<not> bs_ended s" "chan_items (bs_rx s) = xs" "chan_closed (bs_rx s)"
  shows "\<exists>t. poll_times (Suc (length xs)) s = Ret (xs, t) \<and> bs_ended t \<and> bs_released t = 1"
  using assms
proof (induction xs arbitrary: s)
  case Nil
  from Nil(1) show ?case
  proof (cases rule: poll_next_cases)
    case (finished t)
    then show ?thesis by (simp add: stream_ok_def)
  qed (use Nil in auto)
next
  case (Cons x xs)
  from Cons.prems(1) show ?case
  proof (cases rule: poll_next_cases)
    case (item y ys t)
    with Cons.IH [of t] Cons.prems show ?thesis by auto
  qed (use Cons in auto)
qed

section \<open>Properties\<close>

text \<open>
  Claim C25: the client reads the body as it was sent. However sending, closing, reading and going away
  interleave, what the client has read is what the channel took so far, in order, up to what still lies in the
  channel; when it reads the end, it has read everything and the channel is closed. The task that watches the
  stream is released when the stream ends or is dropped, at most once, and neither panics.
\<close>

theorem body_stream_exact:
  assumes "body_run rx s sent got"
  shows "sent = got @ chan_items (bs_rx s) \<and> bs_released s = (if bs_ended s then 1 else 0) \<and>
    poll_next s \<noteq> Panic \<and> drop_stream s \<noteq> Panic \<and>
    (\<forall>t. poll_next s = Ret (Finished, t) \<and> \<not> bs_ended s \<longrightarrow> got = sent \<and> chan_closed (bs_rx s) \<and> bs_released t = 1)"
proof -
  have ok: "stream_ok s" and sent: "sent = got @ chan_items (bs_rx s)" using body_run_ok [OF assms] by auto
  from ok have "poll_next s \<noteq> Panic \<and>
    (\<forall>t. poll_next s = Ret (Finished, t) \<and> \<not> bs_ended s \<longrightarrow> got = sent \<and> chan_closed (bs_rx s) \<and> bs_released t = 1)"
    using sent by (cases rule: poll_next_cases) (auto simp: stream_ok_def)
  moreover have "drop_stream s \<noteq> Panic" using drop_stream_ok [OF ok] by auto
  ultimately show ?thesis using ok sent by (auto simp: stream_ok_def)
qed

text \<open>A chunk is sent and read, and the client goes away.\<close>

theorem body_stream_exact_witness:
  "\<exists>s. body_run chan_new s [1 :: nat] [1] \<and> bs_ended s \<and> bs_released s = 1"
proof -
  let ?s = "(wrap_tgt_res_body_stream_with_guard chan_new)\<lparr>bs_rx := chan_push chan_new (1 :: nat)\<rparr>"
  let ?t = "\<lparr>bs_rx = chan_new, bs_guard = Some True, bs_ended = False, bs_released = 0\<rparr> :: nat body_stream"
  have "body_run chan_new ?s [1] []"
    using body_run.send [OF body_run.start [of "chan_new :: nat chan"], of 1] by (simp add: wrap_tgt_res_body_stream_with_guard_def)
  moreover have "poll_next ?s = Ret (Item 1, ?t)"
    by (simp add: poll_next_def wrap_tgt_res_body_stream_with_guard_def chan_push_def chan_send_def chan_try_recv_def chan_new_def Let_def)
  ultimately have "body_run chan_new ?t [1] [1]" using body_run.poll [of chan_new ?s "[1]" "[]" "Item 1" ?t] by simp
  from body_run.dropped [OF this, of "?t\<lparr>bs_guard := None, bs_released := 1, bs_ended := True\<rparr>"]
  have run: "body_run chan_new (?t\<lparr>bs_guard := None, bs_released := 1, bs_ended := True\<rparr>) [1] [1]"
    by (simp add: drop_stream_def drop_guard_def)
  from body_stream_exact [OF run] run show ?thesis by auto
qed

end
