(* ===== verification/Response_Delivery.thy ===== *)
theory Response_Delivery
  imports Socket_V3_Laws Body_Stream
begin

text \<open>
  A response from end to end over a version 3 socket: from the frames a connector sends, through the handler of
  binary messages and the task that answers the client (\<^verbatim>\<open>split_part_two_recv_and_res\<close>), to the status, the
  headers and the body the client reads.
\<close>

section \<open>The frames of a response\<close>

text \<open>A connector sends the head in parts, the last one marked, then the chunks of the body and an empty frame that ends the stream.\<close>

definition response_frames :: "string list \<Rightarrow> bytes list \<Rightarrow> res_frame list" where
  "response_frames parts cs =
     map (\<lambda>p. HeadPart False False (as_bytes p)) (butlast parts) @ [HeadPart True False (as_bytes (last parts))] @
     map (BodyChunk False) cs @ [BodyChunk True []]"

definition part_ok :: "string \<Rightarrow> bool" where
  "part_ok p \<longleftrightarrow> utf8_valid p \<and> length p < 2 ^ 31"

abbreviation resp_new :: resp where
  "resp_new \<equiv> \<lparr>resp_text = [], resp_heads = [], resp_body = [], resp_ended = False\<rparr>"

lemma resp_run_append: "resp_run R (fs @ gs) = Option.bind (resp_run R fs) (\<lambda>R'. resp_run R' gs)"
  by (induction fs arbitrary: R) (auto split: option.splits)

lemma resp_run_parts:
  "\<forall>p \<in> set parts. part_ok p \<Longrightarrow> \<not> resp_ended R \<Longrightarrow>
   resp_run R (map (\<lambda>p. HeadPart False False (as_bytes p)) parts) = Some (R\<lparr>resp_text := resp_text R @ concat parts\<rparr>)"
  by (induction parts arbitrary: R) (simp_all add: part_ok_def from_utf8_as_bytes)

lemma resp_run_chunks:
  "[] \<notin> set cs \<Longrightarrow> \<not> resp_ended R \<Longrightarrow> resp_run R (map (BodyChunk False) cs) = Some (R\<lparr>resp_body := resp_body R @ map Inr cs\<rparr>)"
  by (induction cs arbitrary: R) auto

lemma resp_run_frames:
  assumes "parts \<noteq> []" "\<forall>p \<in> set parts. part_ok p" "[] \<notin> set cs"
  shows "resp_run resp_new (response_frames parts cs) =
    Some \<lparr>resp_text = concat parts, resp_heads = [Inr (concat parts)], resp_body = map Inr cs, resp_ended = True\<rparr>"
proof -
  have "\<forall>p \<in> set (butlast parts). part_ok p" "part_ok (last parts)" using assms(1,2) by (auto dest: in_set_butlastD)
  moreover have "concat (butlast parts) @ last parts = concat parts"
    using append_butlast_last_id [OF assms(1)] by (metis append_Nil2 concat.simps(1,2) concat_append)
  ultimately show ?thesis
    using assms(3) by (simp add: response_frames_def resp_run_append resp_run_parts resp_run_chunks part_ok_def from_utf8_as_bytes)
qed

section \<open>Answering the client\<close>

definition answer_hooks_agree :: "(ctx, 'm) sock_env \<Rightarrow> bool" where
  "answer_hooks_agree E \<longleftrightarrow>
     (\<forall>l \<in> set (env_listeners E). (\<forall>i. on_before_responding_to_client l i = Inr ()) \<and>
        (\<forall>i st h. on_after_target_to_proxy_headers_received l i st h = Inr ()))"

lemma part_two_answers:
  assumes "a < length (ctxs s)" "chan_items (tgt_res_hdr (ctxs s ! a)) = Inr msg # rest" "answer_hooks_agree E"
    and "try_from_string (dbg_parse_int_error E) msg = Inr cpr"
    and "response_build H valid_status valid_name (dbg_lines E) iter cpr = Inr (Some res)"
  shows "\<exists>u. split_part_two H valid_status valid_name iter E a s = Ready (u, Inr res) \<and> tgt_res_bdy (ctxs u ! a) = tgt_res_bdy (ctxs s ! a)"
proof -
  let ?q = "(tgt_res_hdr (ctxs s ! a))\<lparr>chan_items := rest\<rparr>"
  let ?u = "upd_ctx a (\<lambda>c. c\<lparr>tgt_res_hdr := ?q\<rparr>) s"
  have "all_hooks (\<lambda>l. case on_before_responding_to_client l (get_ctx ?u a) of Inl e \<Rightarrow> Inl e
      | Inr _ \<Rightarrow> on_after_target_to_proxy_headers_received l (get_ctx ?u a) (cr_status cpr) (map_option snd (Some res))) (env_listeners E) = Inr ()"
    using assms(3) by (auto simp: all_hooks_Inr_iff answer_hooks_agree_def)
  then have "split_part_two H valid_status valid_name iter E a s = Ready (?u, Inr res)"
    using assms(2,4,5) by (simp add: split_part_two_def get_ctx_def [of s] chan_try_recv_def Let_def)
  moreover have "tgt_res_bdy (ctxs ?u ! a) = tgt_res_bdy (ctxs s ! a)" using assms(1) by (simp add: upd_ctx_def)
  ultimately show ?thesis by blast
qed

section \<open>Properties\<close>

text \<open>
  Claim C2: the client receives what the target answered. When a connector sends the text of a response, cut
  into parts anywhere between two characters, and then the chunks of its body, the socket takes all the frames
  and the client is answered with the status of the text, with exactly the values of its headers in their
  order, those left out that are hop-by-hop or name the server, and with a body that reads as the chunks in
  order and then ends.
\<close>

theorem response_delivered:
  fixes E :: "(ctx, 'm) sock_env" and H :: "('m, 'v) header_ops"
  assumes "serving k a s" "abs_resp (ctxs s ! a) = resp_new" "hooks_agree E" "answer_hooks_agree E"
    and "header_map H" "iter {} = []" "valid_status st" "st < 65536" "newline \<notin> set phrase" "\<forall>kv \<in> set hs. sendable valid_name kv"
    and "concat parts = join [newline] ((''HTTP/1.1 '' @ show_nat st @ '' '' @ phrase) # map header_line hs)"
    and "parts \<noteq> []" "\<forall>p \<in> set parts. part_ok p" "[] \<notin> set cs"
  shows "\<exists>t u m b. binary_run E (map (res_frame_bytes k) (response_frames parts cs)) s = Ret t \<and>
    split_part_two H valid_status valid_name iter E a t = Ready (u, Inr (st, m)) \<and>
    (\<forall>n. map (hv_to_str H) (hm_get_all H m n) =
       (if to_lowercase n \<in> not_sent_back then []
        else map (\<lambda>(_, v). Some v) (filter (\<lambda>(n', _). to_lowercase n' = to_lowercase n) hs))) \<and>
    poll_times (Suc (length cs)) (wrap_tgt_res_body_stream_with_guard (tgt_res_bdy (ctxs u ! a))) = Ret (map Inr cs, b) \<and> bs_ended b"
proof -
  from response_run [OF assms(1,3)] resp_run_frames [OF assms(12-14)] obtain t where
    t: "binary_run E (map (res_frame_bytes k) (response_frames parts cs)) s = Ret t" "serving k a t"
      "abs_resp (ctxs t ! a) = \<lparr>resp_text = concat parts, resp_heads = [Inr (concat parts)], resp_body = map Inr cs, resp_ended = True\<rparr>"
    unfolding assms(2) by metis
  from response_roundtrip [of H iter valid_status st phrase hs valid_name "dbg_parse_int_error E" "dbg_lines E", OF assms(5-10)] obtain resp m where
    m: "try_from_string (dbg_parse_int_error E) (concat parts) = Inr resp"
      "response_build H valid_status valid_name (dbg_lines E) iter resp = Inr (Some (st, m))"
      "\<forall>n. map (hv_to_str H) (hm_get_all H m n) =
         (if to_lowercase n \<in> not_sent_back then []
          else map (\<lambda>(_, v). Some v) (filter (\<lambda>(n', _). to_lowercase n' = to_lowercase n) hs))"
    unfolding assms(11) [symmetric] by blast
  from t(2,3) have ctx: "a < length (ctxs t)" "chan_items (tgt_res_hdr (ctxs t ! a)) = Inr (concat parts) # []"
    "chan_items (tgt_res_bdy (ctxs t ! a)) = map Inr cs" "chan_closed (tgt_res_bdy (ctxs t ! a))"
    by (simp_all add: serving_def abs_resp_def)
  from part_two_answers [OF ctx(1,2) assms(4) m(1,2)] obtain u where
    u: "split_part_two H valid_status valid_name iter E a t = Ready (u, Inr (st, m))" "tgt_res_bdy (ctxs u ! a) = tgt_res_bdy (ctxs t ! a)" by blast
  let ?b = "wrap_tgt_res_body_stream_with_guard (tgt_res_bdy (ctxs u ! a))"
  have "stream_ok ?b" "\<not> bs_ended ?b" "chan_items (bs_rx ?b) = map Inr cs" "chan_closed (bs_rx ?b)"
    using ctx(3,4) by (simp_all add: u(2) wrap_tgt_res_body_stream_with_guard_def stream_ok_def)
  from poll_times_all [OF this] t(1) u(1) m(3) show ?thesis by (auto simp del: poll_times.simps)
qed

text \<open>A response with two headers, its head in two parts and its body in two chunks.\<close>

definition sample_parts :: "string list" where
  "sample_parts = [''HTTP/1.1 200 OK'' @ [newline] @ ''X-A:1'' @ [newline], ''Server:s'']"

theorem response_delivered_witness:
  "\<exists>t u m b. binary_run sample_env (map (res_frame_bytes 1) (response_frames sample_parts [[104], [105]])) sample_sent = Ret t \<and>
    split_part_two lhm (\<lambda>s. 100 \<le> s \<and> s < 1000) (\<lambda>_. True) (\<lambda>_. []) sample_env 0 t = Ready (u, Inr (200, m)) \<and>
    map (hv_to_str lhm) (hm_get_all lhm m ''x-a'') = [Some ''1''] \<and> hm_get_all lhm m ''server'' = [] \<and>
    poll_times 3 (wrap_tgt_res_body_stream_with_guard (tgt_res_bdy (ctxs u ! 0))) = Ret ([Inr [104], Inr [105]], b) \<and> bs_ended b"
proof -
  let ?hs = "[(''X-A'', ''1''), (''Server'', ''s'')]"
  have hooks: "hooks_agree sample_env" "answer_hooks_agree sample_env"
    by (simp_all add: hooks_agree_def answer_hooks_agree_def sample_env_def default_listener_def)
  have hs: "\<forall>kv \<in> set ?hs. sendable (\<lambda>_. True) kv" by code_simp
  have parts: "concat sample_parts = join [newline] ((''HTTP/1.1 '' @ show_nat 200 @ '' '' @ ''OK'') # map header_line ?hs)"
    by code_simp
  have ok: "\<forall>p \<in> set sample_parts. part_ok p"
    by (auto simp: sample_parts_def part_ok_def is_ascii_def code_def intro!: utf8_valid_ascii)
  have sizes: "(100 :: nat) \<le> 200 \<and> (200 :: nat) < 1000" "(200 :: nat) < 65536" "newline \<notin> set ''OK''" "sample_parts \<noteq> []"
    "[] \<notin> set [[104 :: u8], [105]]" by (simp_all add: sample_parts_def)
  have low: "to_lowercase ''x-a'' = ''x-a''" "to_lowercase ''X-A'' = ''x-a''" "to_lowercase ''Server'' = ''server''"
    "to_lowercase ''server'' = ''server''" by code_simp+
  obtain t u m b where r: "binary_run sample_env (map (res_frame_bytes 1) (response_frames sample_parts [[104], [105]])) sample_sent = Ret t"
    "split_part_two lhm (\<lambda>s. 100 \<le> s \<and> s < 1000) (\<lambda>_. True) (\<lambda>_. []) sample_env 0 t = Ready (u, Inr (200, m))"
    "\<forall>n. map (hv_to_str lhm) (hm_get_all lhm m n) =
       (if to_lowercase n \<in> not_sent_back then []
        else map (\<lambda>(_, v). Some v) (filter (\<lambda>(n', _). to_lowercase n' = to_lowercase n) ?hs))"
    "poll_times (Suc (length [[104 :: u8], [105]])) (wrap_tgt_res_body_stream_with_guard (tgt_res_bdy (ctxs u ! 0))) = Ret (map Inr [[104], [105]], b)" "bs_ended b"
    using response_delivered [where iter = "\<lambda>_. []" and valid_status = "\<lambda>s. 100 \<le> s \<and> s < 1000" and st = 200 and phrase = "''OK''"
        and hs = ?hs and valid_name = "\<lambda>_. True" and parts = sample_parts and cs = "[[104], [105]]",
        OF sample_sent_serving(1,2) hooks header_map_lhm refl _ _ _ hs parts _ ok] sizes by blast
  have "map (hv_to_str lhm) (hm_get_all lhm m ''x-a'') = [Some ''1'']" "hm_get_all lhm m ''server'' = []"
    using r(3) [rule_format, of "''x-a''"] r(3) [rule_format, of "''server''"]
    by (simp_all add: low not_sent_back_def HOP_BY_HOP_HEADERS_def RESPONSE_HEADERS_TO_NOT_SEND_BACK_def)
  with r(1,2,4,5) show ?thesis by (auto simp del: poll_times.simps simp: numeral_3_eq_3)
qed

end
