(* ===== verification/Spec2Isabelle.thy ===== *)
theory Spec2Isabelle
  imports Socket_View Request_Delivery Response_Delivery
begin

text \<open>
  A verification of the Cranker router of this repository (\<^verbatim>\<open>src/src/\<close>), a reverse proxy in which the
  services behind it, through connectors, open websockets to the router and register routes; the router
  then sends clients' requests through those websockets.

  \<^bold>\<open>The parts and how they interact.\<close> A client's request enters at \<^verbatim>\<open>visit_portal\<close> (\<^verbatim>\<open>lib.rs\<close>). The farm
  (\<^verbatim>\<open>websocket_farm.rs\<close>) resolves its path to a route, waits for a websocket of the route that is alive, not
  in dark mode and accepted by the filter, and hands it out. The socket (\<^verbatim>\<open>router_socket_v1.rs\<close>, one request
  at a time, or \<^verbatim>\<open>router_socket_v3.rs\<close>, many at once) rewrites the headers (\<^verbatim>\<open>http_utils.rs\<close>), prints the request
  (\<^verbatim>\<open>cranker_protocol_request_builder.rs\<close>), sends it in messages, and puts the response together from the
  messages that come back (\<^verbatim>\<open>cranker_protocol_response.rs\<close>). Two loops per websocket (\<^verbatim>\<open>router_socket.rs\<close>)
  carry the messages. Connectors register and de-register at two endpoints of \<^verbatim>\<open>lib.rs\<close>. Connections come in
  over TCP, TLS or QUIC, through listeners that record what the portal needs to know of them
  (\<^verbatim>\<open>connect_info.rs\<close>, \<^verbatim>\<open>axum_server_tls.rs\<close>, \<^verbatim>\<open>http3_quinn.rs\<close>).

  \<^bold>\<open>Which theory models what.\<close>
  \<^item> \<open>Prelude\<close>, \<open>Rust_Text\<close>: machine integers as words, panics (\<open>outcome\<close>), concurrent maps as association
    lists behind the locale \<open>concurrent_map\<close>, and the part of Rust's text functions that is used. A string
    is the list of its UTF-8 bytes.
  \<^item> \<open>Exceptions\<close>: \<^verbatim>\<open>exceptions.rs\<close>; a fallible operation gives \<open>crex + 'a\<close>. Errors lose no reason when they are
    collected, and become a response with the right status.
  \<^item> \<open>Route_Resolver\<close>: both resolvers of \<^verbatim>\<open>route_resolver.rs\<close>, with the contract of a resolver as a locale.
  \<^item> \<open>Header_Map\<close>: the header collection of the \<^verbatim>\<open>http\<close> crate, as a record of operations with its documented
    laws as a locale, and an implementation of them. \<open>Forwarded\<close> and \<open>Http_Utils\<close>: \<^verbatim>\<open>http_utils.rs\<close>, the parser and
    printer of the Forwarded header (a round trip) and the headers the target gets.
  \<^item> \<open>Router_Config\<close>: constants, the builder and the registration check of \<^verbatim>\<open>lib.rs\<close>; what every
    configuration satisfies, which version is negotiated, who is let in.
  \<^item> \<open>Protocol\<close>: the two texts of the protocol; what is printed, and that a response is read back.
  \<^item> \<open>Frames\<close>: the binary frames of version 3; that a header text cut into frames is reassembled, and that
    every frame written is read back.
  \<^item> \<open>Clock\<close>: \<^verbatim>\<open>time_utils.rs\<close>. \<open>Connect_Info\<close>: the listeners. The TLS listener hands out the first connection that
    completes its handshake; the snapshot of QUIC parameters is read back.
  \<^item> \<open>Channels\<close>: the channels between tasks, behind a locale of first-in first-out laws. \<open>Body_Stream\<close>: the
    stream over such a channel that a client reads a response body from; it loses and repeats nothing.
  \<^item> \<open>Request_Context\<close>: one request of a version 3 socket and its flow control. The atomic operations of the
    sending task and of the acknowledging task are the steps of a relation; no wake-up is lost and the
    unacknowledged bytes are bounded under every interleaving.
  \<^item> \<open>Proxy_Listener\<close>: the hooks of \<^verbatim>\<open>proxy_listener.rs\<close> as a record of functions, a parameter of the handlers.
  \<^item> \<open>Router_Socket_V3\<close>, \<open>Socket_V3_Laws\<close>: the version 3 socket. Contexts shared by reference live in a store,
    spawned tasks are recorded and run as steps of \<open>v3_step\<close>. The laws hold in every reachable state: a
    stream is reset at most once, the registry is consistent, a frame leaves other requests alone, a
    response follows its specification frame by frame, a sender never spins, and how a socket ends.
  \<^item> \<open>Request_Delivery\<close>, \<open>Response_Delivery\<close>: a request and a response over such a socket from end to end. A connector
    reads out of the frames exactly the head and the body of the request, whatever else the socket does
    meanwhile; a client is answered with the status, the headers and the body the connector sent.
  \<^item> \<open>Router_Socket_V1\<close>: the version 1 socket; order of response and request, and what the listeners do not reach.
  \<^item> \<open>Socket_Pipes\<close>: the receiving and the sending loop, over a record of the operations they call. The locale
    \<open>pipe_socket\<close> states what they need of a socket and is interpreted on both sockets.
  \<^item> \<open>Websocket_Farm\<close>, \<open>Farm_Laws\<close>, \<open>Farm_Refs\<close>: farm, filters and dark mode. Sockets and queues are shared by reference, as
    indices into stores. The locale \<open>farm_order\<close> carries what every acquisition may do to the farm. The laws: which socket is handed out, and in which turn; what the registry and the
    count of idle connections are in every state of the farm, that every reference leads to a socket, and
    which routes are forgotten.
  \<^item> \<open>Router_Info\<close>: the report on the connected services. \<open>Router\<close>: the portal and the endpoints of the
    connectors; what a visit is answered, that an accepted connector becomes a socket of the farm, what
    de-registering does, and that the target learns where a request came from.
  \<^item> \<open>Socket_View\<close>: the traits \<^verbatim>\<open>RouterSocket\<close> and \<^verbatim>\<open>ProxyInfo\<close> as views of the two sockets. The locale
    \<open>farm_member\<close>, interpreted on both, shows that the steps of a socket are steps of the farm, so the laws
    of the farm hold with the real sockets in it; and that a socket whose websocket closes leaves the farm.

  \<^bold>\<open>How code becomes definitions.\<close> A function is a definition of the same name where that is free (\<open>v1_\<close> and
  \<open>r3_\<close> tell the two sockets apart). A handler runs to completion; an \<^verbatim>\<open>async\<close> function is one definition per
  stretch between two waits, with a datatype of the places it can wait at. Panics are \<open>Panic\<close>, errors \<open>Inl\<close>.
  What a hash collection iterates over comes in the order of the list that models it. The clock, random ids,
  the debug rendering of values, user-supplied resolvers, filters, validators and listeners are arguments.

  \<^bold>\<open>Bounds.\<close> No definition needs fuel but \<open>get_run\<close>, which counts the turns of an acquisition and is used with
  exactly one turn per socket looked at, and \<open>poll_times\<close>, used with one poll per chunk and one for the end. The
  accepting loop of the TLS listener may run forever and is a partial function; when it returns is proved. Integers keep their width: request ids and byte counts are 32 and
  64 bit words. Where a law needs it, it assumes fewer than \<open>2 ^ 32\<close> requests per socket, and chunks of a
  request body that are not empty and at most \<open>2 ^ 29\<close> bytes, far above what the HTTP server hands over.
  The broadcast channel of the farm keeps the last 128 messages, as in the code.

  \<^bold>\<open>Not modelled.\<close> The handshakes and sessions of rustls and quinn, which are third-party code: what they
  answer is an argument. The example programs but for one accepting loop; the JSON rendering that serde
  generates; the table of paths axum dispatches by; logging; and the interleaving of other tasks inside one
  turn of the farm's acquisition loop, which is taken to be atomic: its guard puts a socket back that the
  timeout finds taken out of the queue.
\<close>

end
